(* ===== verification/Machine.thy ===== *)
theory Machine
  imports Main "HOL-Library.Word" "HOL-Library.Signed_Division"
begin

text \<open>
  The prelude of the development: the machine the program runs on.

  \<^item> The integer types of \<^verbatim>\<open>wafel_core/include/wafel/types.h\<close> as machine words.
  \<^item> Memory as a total map from 32-bit addresses to bytes; the Starlet is built with
    \<^verbatim>\<open>-mbig-endian\<close> (\<^verbatim>\<open>wafel_core/Makefile\<close>), so halfwords and words are stored
    with the most significant byte first.
  \<^item> The load, store and read-modify-write accessors of
    \<^verbatim>\<open>wafel_core/include/wafel/utils.h\<close>, and the copy routines of
    \<^verbatim>\<open>utils_asm.S\<close> and of the C library that the code calls.
  \<^item> The locale \<open>reg_rmw\<close>: the contract the hardware drivers rely on when they
    read, mask and write a register, interpreted at the widths 8, 16 and 32.
\<close>

unbundle bit_operations_syntax

named_theorems mem_simps \<open>reads over writes\<close>
named_theorems layout_simps \<open>byte offsets of structure fields\<close>

section \<open>Integer types\<close>

type_synonym u8 = "8 word"
type_synonym u16 = "16 word"
type_synonym u32 = "32 word"
type_synonym u64 = "64 word"
type_synonym mem = "u32 \<Rightarrow> u8"

text \<open>
  C's integer division truncates towards zero; \<open>sdiv\<close> on \<open>int\<close> of
  \<^verbatim>\<open>HOL-Library.Signed_Division\<close> does the same, so a signed 32-bit division is the
  truncated quotient of the signed readings.
\<close>

definition s32_div :: "u32 \<Rightarrow> int \<Rightarrow> u32" where
  "s32_div a k = word_of_int (sint a sdiv k)"

section \<open>Loops that may fail\<close>

text \<open>A loop over a list whose steps may be undefined, or may not return: then neither does the loop.\<close>

fun fold_opt :: "('a \<Rightarrow> 'b \<Rightarrow> 'b option) \<Rightarrow> 'a list \<Rightarrow> 'b \<Rightarrow> 'b option" where
  "fold_opt f [] b = Some b"
| "fold_opt f (x # xs) b = Option.bind (f x b) (fold_opt f xs)"

text \<open>When every step succeeds, the loop is a \<open>fold\<close>.\<close>

lemma fold_opt_fold:
  assumes "\<And>x b. x \<in> set xs \<Longrightarrow> length b = n \<Longrightarrow> f x b = Some (g x b)"
    and "\<And>x b. length (g x b) = length b" and "length b = n"
  shows "fold_opt f xs b = Some (fold g xs b)"
  using assms(1,3) by (induction xs arbitrary: b) (simp_all add: assms(2))

lemma fold_opt_inv:
  assumes "\<And>x b b'. P b \<Longrightarrow> f x b = Some b' \<Longrightarrow> P b'" "P b" "fold_opt f xs b = Some b'"
  shows "P b'"
  using assms(2,3) by (induction xs arbitrary: b) (auto simp: Option.bind_eq_Some_conv intro: assms(1))

section \<open>Address arithmetic\<close>

text \<open>
  The distance from \<open>a\<close> up to \<open>x\<close>, modulo the address space. A byte \<open>x\<close> lies in the
  \<open>n\<close>-byte region at \<open>a\<close> exactly when this distance is less than \<open>n\<close>, also for a region
  that wraps around the end of memory.
\<close>

abbreviation adist :: "u32 \<Rightarrow> u32 \<Rightarrow> nat" where
  "adist a x \<equiv> unat (x - a)"

definition disjoint_regions :: "u32 \<Rightarrow> nat \<Rightarrow> u32 \<Rightarrow> nat \<Rightarrow> bool" where
  "disjoint_regions a n b k \<longleftrightarrow> n = 0 \<or> k = 0 \<or> n \<le> adist a b \<and> k \<le> adist b a"

lemma sub_add_cancel [simp]: "(b::u32) - (b + d) = - d"
  by simp

lemma add_sub_swap [simp]: "(b::u32) + d - b = d"
  by simp

lemma disjoint_sym: "disjoint_regions a n b k \<longleftrightarrow> disjoint_regions b k a n"
  by (auto simp: disjoint_regions_def)

lemma add_of_nat_sub: "(x + of_nat k) - a = (x - a) + (of_nat k :: u32)"
  by simp

text \<open>Two bytes of disjoint regions are never the same byte.\<close>

lemma disjoint_regionsD:
  assumes "disjoint_regions a n b k" and "adist a x < n"
  shows "k \<le> adist b x"
proof -
  consider "n = 0" | "k = 0" | "n \<le> adist a b \<and> k \<le> adist b a"
    using assms(1) by (auto simp: disjoint_regions_def)
  then show ?thesis using assms(2) by cases (auto, unat_arith)
qed

lemma disjoint_mono:
  "disjoint_regions a n b k \<Longrightarrow> n' \<le> n \<Longrightarrow> k' \<le> k \<Longrightarrow> disjoint_regions a n' b k'"
  by (auto simp: disjoint_regions_def)

text \<open>Distances from a later base address.\<close>

lemma adist_offset:
  assumes "k \<le> adist a x"
  shows "adist (a + of_nat k) x = adist a x - k"
proof -
  have k: "k < 2 ^ 32" using assms order.strict_trans1 [OF _ unsigned_less, of k "x - a"] by simp
  then have u: "unat (of_nat k :: u32) = k" by (simp add: unat_of_nat)
  then have "(of_nat k :: u32) \<le> x - a" using assms by (simp add: word_le_nat_alt)
  then have "unat (x - a - of_nat k) = unat (x - a) - unat (of_nat k :: u32)"
    by (simp add: unat_sub_if' word_le_nat_alt)
  then show ?thesis by (simp add: u diff_diff_add)
qed

text \<open>A part of a region is disjoint from what the region is disjoint from.\<close>

lemma adist_sum: "a \<noteq> b \<Longrightarrow> adist a b + adist b a = 2 ^ 32"
proof -
  assume "a \<noteq> b"
  then have "unat a \<noteq> unat b" by (simp add: word_unat_eq_iff)
  moreover have "unat a < 2 ^ 32" "unat b < 2 ^ 32"
    using unsigned_less [of a] unsigned_less [of b] by simp_all
  ultimately show "adist a b + adist b a = 2 ^ 32"
    by (simp add: unat_sub_if' split: if_splits)
qed

lemma disjoint_sub:
  assumes "disjoint_regions a n b k" and "d + j \<le> k"
  shows "disjoint_regions a n (b + of_nat d) j"
proof (cases "n = 0 \<or> j = 0")
  case False
  then have d: "n \<le> adist a b" "k \<le> adist b a"
    using assms by (auto simp: disjoint_regions_def)
  then have "a \<noteq> b" using False by auto
  then have sum: "adist a b + adist b a = 2 ^ 32" by (rule adist_sum)
  have "adist (b + of_nat d) a = adist b a - d"
    using assms(2) d by (intro adist_offset) simp
  moreover have "adist a (b + of_nat d) = adist a b + d"
  proof -
    have lt: "adist a b + d < 2 ^ 32" using sum d assms(2) False by linarith
    then have "unat (of_nat d :: u32) = d" by (simp add: unat_of_nat)
    moreover have "b + of_nat d - a = (b - a) + of_nat d" by simp
    ultimately show ?thesis using lt by (simp only: unat_plus_if' split: if_split) simp
  qed
  moreover have "j \<le> adist b a - d"
  proof -
    define e where "e = adist b a"
    show ?thesis using d(2) assms(2) unfolding e_def [symmetric] by linarith
  qed
  moreover have "n \<le> adist a b + d" using d(1) by (rule trans_le_add1)
  ultimately show ?thesis by (simp add: disjoint_regions_def)
qed (auto simp: disjoint_regions_def)

section \<open>Loads and stores\<close>

definition read8 :: "mem \<Rightarrow> u32 \<Rightarrow> u8" where
  "read8 m a = m a"

definition write8 :: "mem \<Rightarrow> u32 \<Rightarrow> u8 \<Rightarrow> mem" where
  "write8 m a v = m(a := v)"

definition read16 :: "mem \<Rightarrow> u32 \<Rightarrow> u16" where
  "read16 m a = push_bit 8 (ucast (m a)) OR ucast (m (a + 1))"

definition write16 :: "mem \<Rightarrow> u32 \<Rightarrow> u16 \<Rightarrow> mem" where
  "write16 m a v = m(a := ucast (drop_bit 8 v), a + 1 := ucast v)"

definition read32 :: "mem \<Rightarrow> u32 \<Rightarrow> u32" where
  "read32 m a = push_bit 24 (ucast (m a)) OR push_bit 16 (ucast (m (a + 1)))
     OR push_bit 8 (ucast (m (a + 2))) OR ucast (m (a + 3))"

definition write32 :: "mem \<Rightarrow> u32 \<Rightarrow> u32 \<Rightarrow> mem" where
  "write32 m a v = m(a := ucast (drop_bit 24 v), a + 1 := ucast (drop_bit 16 v),
     a + 2 := ucast (drop_bit 8 v), a + 3 := ucast v)"

text \<open>The read-modify-write accessors: load, \<^verbatim>\<open>bic\<close> and/or \<^verbatim>\<open>orr\<close>, store.\<close>

definition set32 :: "mem \<Rightarrow> u32 \<Rightarrow> u32 \<Rightarrow> mem" where
  "set32 m addr st = write32 m addr (read32 m addr OR st)"

definition clear32 :: "mem \<Rightarrow> u32 \<Rightarrow> u32 \<Rightarrow> mem" where
  "clear32 m addr cl = write32 m addr (read32 m addr AND NOT cl)"

definition mask32 :: "mem \<Rightarrow> u32 \<Rightarrow> u32 \<Rightarrow> u32 \<Rightarrow> mem" where
  "mask32 m addr cl st = write32 m addr ((read32 m addr AND NOT cl) OR st)"

definition set16 :: "mem \<Rightarrow> u32 \<Rightarrow> u16 \<Rightarrow> mem" where
  "set16 m addr st = write16 m addr (read16 m addr OR st)"

definition clear16 :: "mem \<Rightarrow> u32 \<Rightarrow> u16 \<Rightarrow> mem" where
  "clear16 m addr cl = write16 m addr (read16 m addr AND NOT cl)"

definition mask16 :: "mem \<Rightarrow> u32 \<Rightarrow> u16 \<Rightarrow> u16 \<Rightarrow> mem" where
  "mask16 m addr cl st = write16 m addr ((read16 m addr AND NOT cl) OR st)"

definition set8 :: "mem \<Rightarrow> u32 \<Rightarrow> u8 \<Rightarrow> mem" where
  "set8 m addr st = write8 m addr (read8 m addr OR st)"

definition clear8 :: "mem \<Rightarrow> u32 \<Rightarrow> u8 \<Rightarrow> mem" where
  "clear8 m addr cl = write8 m addr (read8 m addr AND NOT cl)"

definition mask8 :: "mem \<Rightarrow> u32 \<Rightarrow> u8 \<Rightarrow> u8 \<Rightarrow> mem" where
  "mask8 m addr cl st = write8 m addr ((read8 m addr AND NOT cl) OR st)"

definition BIT :: "nat \<Rightarrow> u32" where
  "BIT n = push_bit n 1"

definition ALIGN_FORWARD :: "u32 \<Rightarrow> u32 \<Rightarrow> u32" where
  "ALIGN_FORWARD x al = (x + al - 1) AND NOT (al - 1)"

definition ALIGN_BACKWARD :: "u32 \<Rightarrow> u32 \<Rightarrow> u32" where
  "ALIGN_BACKWARD x al = x AND NOT (al - 1)"

subsection \<open>Reading what was written\<close>

lemma bit_u8_high [simp]: "8 \<le> n \<Longrightarrow> \<not> bit (w :: u8) n"
  using bit_imp_le_length [of w n] by auto

lemma bit_u16_high [simp]: "16 \<le> n \<Longrightarrow> \<not> bit (w :: u16) n"
  using bit_imp_le_length [of w n] by auto

lemma bit_u32_high [simp]: "32 \<le> n \<Longrightarrow> \<not> bit (w :: u32) n"
  using bit_imp_le_length [of w n] by auto

lemma unat_u32_less: "unat (w :: u32) < 2 ^ 32"
  by (rule order.strict_trans2 [OF unsigned_less]) simp

lemma sint_of_small:
  assumes "unat (w :: u32) = n \<and> n < 2 ^ 31"
  shows "sint w = int n"
proof -
  have "uint w = int n" using assms by (simp flip: int_eq_iff add: uint_nat)
  then show ?thesis using assms by (simp add: sint_uint signed_take_bit_int_eq_self)
qed

lemma unat_drop_bit: "unat (drop_bit n (w :: u32)) = unat w div 2 ^ n"
  by (rule trans [OF unat_drop_bit_eq drop_bit_eq_div])

lemma unat_ucast_u64 [simp]: "unat (ucast (w :: u32) :: u64) = unat w"
proof -
  have "unat w < 2 ^ 64" using unat_u32_less [of w] by simp
  then show ?thesis by (simp add: unsigned_ucast_eq take_bit_nat_eq_self)
qed

text \<open>A 64-bit value and its halves.\<close>

lemma unat_of_nat_u64: "k < 2 ^ 64 \<Longrightarrow> unat (of_nat k :: u64) = k"
  by (simp add: unat_of_nat)

lemma unat_join64:
  "unat (push_bit 32 (ucast (hi :: u32)) OR ucast (lo :: u32) :: u64) = unat hi * 2 ^ 32 + unat lo"
proof -
  have "push_bit 32 (ucast hi) AND (ucast lo :: u64) = 0"
    by (rule bit_word_eqI) (auto simp: bit_simps)
  then have "(push_bit 32 (ucast hi) OR ucast lo :: u64) = push_bit 32 (ucast hi) + ucast lo"
    by (simp add: disjunctive_add_eq_or)
  also have "\<dots> = word_of_nat (unat hi * 2 ^ 32 + unat lo)"
    by (simp add: push_bit_eq_mult mult.commute)
  finally have eq: "(push_bit 32 (ucast hi) OR ucast lo :: u64) = word_of_nat (unat hi * 2 ^ 32 + unat lo)" .
  have "unat hi * 2 ^ 32 + unat lo < 2 ^ 64"
    using unat_u32_less [of hi] unat_u32_less [of lo] by simp
  then show ?thesis unfolding eq by (rule unat_of_nat_u64)
qed

lemma join_split64:
  "push_bit 32 (ucast (ucast (drop_bit 32 (w :: u64)) :: u32)) OR
     ucast (ucast (w AND 0xFFFFFFFF) :: u32) = w"
proof -
  have m: "(0xFFFFFFFF :: u64) = mask 32" by (simp add: mask_eq_exp_minus_1)
  show ?thesis unfolding m by (rule bit_word_eqI) (auto simp: bit_simps)
qed

lemma split_u64:
  "unat (ucast (drop_bit 32 (w :: u64)) :: u32) * 2 ^ 32 + unat (ucast (w AND 0xFFFFFFFF) :: u32) = unat w"
  using unat_join64 [of "ucast (drop_bit 32 w)" "ucast (w AND 0xFFFFFFFF)"] join_split64 [of w] by simp

lemma read8_write8 [simp]: "read8 (write8 m a v) a = v"
  by (simp add: read8_def write8_def)

lemma read16_write16 [simp]: "read16 (write16 m a v) a = v"
  by (rule bit_word_eqI) (auto simp: read16_def write16_def bit_simps)

lemma read32_write32 [simp]: "read32 (write32 m a v) a = v"
proof (rule bit_word_eqI)
  fix n assume "n < LENGTH(32)"
  then consider "n < 8" | "8 \<le> n" "n < 16" | "16 \<le> n" "n < 24" | "24 \<le> n" "n < 32"
    by force
  then show "bit (read32 (write32 m a v) a) n = bit v n"
    by cases (auto simp: read32_def write32_def bit_simps)
qed

text \<open>A load depends on the bytes of its region only.\<close>

lemma unat_of_nat_u32: "k < 2 ^ 32 \<Longrightarrow> unat (of_nat k :: u32) = k"
  by (simp add: unat_of_nat)

lemma unat_add_of_nat:
  "unat w + k < 2 ^ 32 \<Longrightarrow> unat ((w :: u32) + of_nat k) = unat w + k"
  by (simp add: unat_word_ariths unat_of_nat mod_add_right_eq)

lemma read16_cong:
  assumes "\<And>x. adist a x < 2 \<Longrightarrow> m x = m' x"
  shows "read16 m a = read16 m' a"
  using assms[of a] assms[of "a + 1"] by (simp add: read16_def)

lemma read32_cong:
  assumes "\<And>x. adist a x < 4 \<Longrightarrow> m x = m' x"
  shows "read32 m a = read32 m' a"
  using assms[of a] assms[of "a + 1"] assms[of "a + 2"] assms[of "a + 3"]
  by (simp add: read32_def)

text \<open>A store changes the bytes of its region only.\<close>

lemma write8_other: "1 \<le> adist a x \<Longrightarrow> write8 m a v x = m x"
  by (auto simp: write8_def)

lemma write16_other: "2 \<le> adist a x \<Longrightarrow> write16 m a v x = m x"
  by (auto simp: write16_def)

lemma write32_other: "4 \<le> adist a x \<Longrightarrow> write32 m a v x = m x"
  by (auto simp: write32_def)

lemma read8_write8_other:
  "disjoint_regions a 1 b 1 \<Longrightarrow> read8 (write8 m a v) b = read8 m b"
  by (auto simp: disjoint_regions_def read8_def write8_def)

lemma read16_write16_other:
  "disjoint_regions a 2 b 2 \<Longrightarrow> read16 (write16 m a v) b = read16 m b"
  by (rule read16_cong, rule write16_other)
     (auto simp: disjoint_sym intro: disjoint_regionsD)

lemma read32_write32_other:
  "disjoint_regions a 4 b 4 \<Longrightarrow> read32 (write32 m a v) b = read32 m b"
  by (rule read32_cong, rule write32_other)
     (auto simp: disjoint_sym intro: disjoint_regionsD)

lemma read8_write32_other:
  "disjoint_regions a 4 b 1 \<Longrightarrow> read8 (write32 m a v) b = read8 m b"
  by (simp add: read8_def write32_other disjoint_regions_def)

lemma read16_write32_other:
  "disjoint_regions a 4 b 2 \<Longrightarrow> read16 (write32 m a v) b = read16 m b"
  by (rule read16_cong, rule write32_other)
     (auto simp: disjoint_sym intro: disjoint_regionsD)

lemma write8_write8 [simp]: "write8 (write8 m a v) a w = write8 m a w"
  by (simp add: write8_def)

lemma write16_write16 [simp]: "write16 (write16 m a v) a w = write16 m a w"
  by (simp add: write16_def fun_eq_iff)

lemma write32_write32 [simp]: "write32 (write32 m a v) a w = write32 m a w"
  by (simp add: write32_def fun_eq_iff)

lemma write16_read16 [simp]: "write16 m a (read16 m a) = m"
proof -
  have "ucast (drop_bit 8 (read16 m a)) = m a" and "ucast (read16 m a) = m (a + 1)"
    by (auto intro!: bit_word_eqI simp: read16_def bit_simps)
  then show ?thesis by (auto simp: write16_def)
qed

lemma write32_read32 [simp]: "write32 m a (read32 m a) = m"
proof -
  have "ucast (drop_bit 24 (read32 m a)) = m a"
    and "ucast (drop_bit 16 (read32 m a)) = m (a + 1)"
    and "ucast (drop_bit 8 (read32 m a)) = m (a + 2)"
    and "ucast (read32 m a) = m (a + 3)"
    by (auto intro!: bit_word_eqI simp: read32_def bit_simps)
  then show ?thesis by (auto simp: write32_def)
qed

lemma disjoint_offset:
  "n \<le> unat (d - c) \<Longrightarrow> k \<le> unat (c - d) \<Longrightarrow> disjoint_regions (b + c) n (b + d) k"
  by (simp add: disjoint_regions_def)

lemmas read_write_other [mem_simps] =
  read8_write8_other read16_write16_other read32_write32_other
  read8_write32_other read16_write32_other

text \<open>
  Two regions given by small natural offsets from one base: disjointness is then linear
  arithmetic on the offsets.
\<close>

lemma unat_of_nat_diff:
  assumes "a < 2 ^ 31" and "b < 2 ^ 31"
  shows "unat (of_nat b - of_nat a :: u32) = (if a \<le> b then b - a else 2 ^ 32 + b - a)"
  using assms by (auto simp: unat_sub_if' unat_of_nat)

lemma disjoint_nat:
  assumes "a + n \<le> b \<or> b + k \<le> a"
    and "a < 2 ^ 31" "b < 2 ^ 31" "n \<le> 2 ^ 31" "k \<le> 2 ^ 31"
  shows "disjoint_regions (B + of_nat a) n (B + of_nat b) k"
  using assms by (auto simp: disjoint_regions_def unat_of_nat_diff)

lemma disjoint_nat0:
  assumes "n \<le> b" and "b < 2 ^ 31" "n \<le> 2 ^ 31" "k \<le> 2 ^ 31"
  shows "disjoint_regions B n (B + of_nat b) k"
  using disjoint_nat [of 0 n b k B] assms by simp

section \<open>Blocks of bytes\<close>

text \<open>
  \<^verbatim>\<open>memcpy\<close>/\<^verbatim>\<open>memmove\<close> of the C library: every byte of the destination region takes
  the value its source byte had before the call.  For \<^verbatim>\<open>memcpy\<close> this is the documented
  behaviour for regions that do not overlap, for \<^verbatim>\<open>memmove\<close> for all regions.
\<close>

definition memmove :: "mem \<Rightarrow> u32 \<Rightarrow> u32 \<Rightarrow> nat \<Rightarrow> mem" where
  "memmove m dst src n = (\<lambda>x. if adist dst x < n then m (src + (x - dst)) else m x)"

definition memset :: "mem \<Rightarrow> u32 \<Rightarrow> u8 \<Rightarrow> nat \<Rightarrow> mem" where
  "memset m dst c n = (\<lambda>x. if adist dst x < n then c else m x)"

definition load_bytes :: "mem \<Rightarrow> u32 \<Rightarrow> nat \<Rightarrow> u8 list" where
  "load_bytes m a n = map (\<lambda>k. m (a + of_nat k)) [0..<n]"

definition store_bytes :: "mem \<Rightarrow> u32 \<Rightarrow> u8 list \<Rightarrow> mem" where
  "store_bytes m a bs = (\<lambda>x. if adist a x < length bs then bs ! adist a x else m x)"

text \<open>
  \<^verbatim>\<open>memcpy16\<close> of \<^verbatim>\<open>utils_asm.S\<close>: the size is rounded down to an even number, then
  halfwords are loaded and stored one after the other, in ascending order.
\<close>

fun copy16_loop :: "mem \<Rightarrow> u32 \<Rightarrow> u32 \<Rightarrow> nat \<Rightarrow> mem" where
  "copy16_loop m dst src 0 = m"
| "copy16_loop m dst src (Suc n) =
     copy16_loop (write16 m dst (read16 m src)) (dst + 2) (src + 2) n"

definition memcpy16 :: "mem \<Rightarrow> u32 \<Rightarrow> u32 \<Rightarrow> u32 \<Rightarrow> mem" where
  "memcpy16 m dst src sz = copy16_loop m dst src (unat (drop_bit 1 sz))"

lemma length_load_bytes [simp]: "length (load_bytes m a n) = n"
  by (simp add: load_bytes_def)

lemma nth_load_bytes [simp]: "k < n \<Longrightarrow> load_bytes m a n ! k = m (a + of_nat k)"
  by (simp add: load_bytes_def)

lemma load_bytes_cong:
  assumes "\<And>x. adist a x < n \<Longrightarrow> m x = m' x"
  shows "load_bytes m a n = load_bytes m' a n"
proof (rule nth_equalityI)
  fix k assume "k < length (load_bytes m a n)"
  moreover have "unat (of_nat k :: u32) \<le> k" by (simp add: unat_of_nat)
  ultimately show "load_bytes m a n ! k = load_bytes m' a n ! k"
    using assms [of "a + of_nat k"] by simp
qed simp

lemma load_store_bytes:
  assumes "length bs \<le> 2 ^ 32"
  shows "load_bytes (store_bytes m a bs) a (length bs) = bs"
  using assms by (intro nth_equalityI) (auto simp: store_bytes_def unat_of_nat_u32)

lemma store_bytes_other: "length bs \<le> adist a x \<Longrightarrow> store_bytes m a bs x = m x"
  by (simp add: store_bytes_def)

lemma memmove_other: "n \<le> adist dst x \<Longrightarrow> memmove m dst src n x = m x"
  by (simp add: memmove_def)

lemma memset_other: "n \<le> adist dst x \<Longrightarrow> memset m dst c n x = m x"
  by (simp add: memset_def)

lemma read32_memmove_other:
  "disjoint_regions dst n b 4 \<Longrightarrow> read32 (memmove m dst src n) b = read32 m b"
  by (rule read32_cong, rule memmove_other)
     (auto simp: disjoint_sym intro: disjoint_regionsD)

lemma load_memmove:
  assumes "n \<le> 2 ^ 32"
  shows "load_bytes (memmove m dst src n) dst n = load_bytes m src n"
  using assms by (intro nth_equalityI) (auto simp: memmove_def unat_of_nat_u32)

text \<open>A word of a moved block is the word that was at the same offset of the source.\<close>

lemma read32_memmove:
  assumes "unat d + 4 \<le> n" and "n \<le> 2 ^ 32"
  shows "read32 (memmove m dst src n) (dst + d) = read32 m (src + d)"
proof -
  have "unat (d + 1) = unat d + 1" "unat (d + 2) = unat d + 2" "unat (d + 3) = unat d + 3"
    using assms by (simp_all add: unat_word_ariths)
  then show ?thesis using assms
    by (simp add: read32_def memmove_def add.assoc)
qed

text \<open>The halfword loop copies regions that do not overlap as \<^verbatim>\<open>memmove\<close> does.\<close>

lemma copy16_eq_memmove:
  assumes "disjoint_regions dst (2 * n) src (2 * n)" and "2 * n \<le> 2 ^ 32"
  shows "copy16_loop m dst src n = memmove m dst src (2 * n)"
  using assms
proof (induction n arbitrary: m dst src)
  case 0
  then show ?case by (simp add: memmove_def)
next
  case (Suc n)
  let ?m = "write16 m dst (read16 m src)"
  have dj: "disjoint_regions (dst + 2) (2 * n) (src + 2) (2 * n)"
    using Suc.prems(1) by (auto simp: disjoint_regions_def)
  have IH: "copy16_loop m dst src (Suc n) = memmove ?m (dst + 2) (src + 2) (2 * n)"
    using Suc.IH [OF dj] Suc.prems(2) by simp
  have w: "?m dst = m src" "?m (dst + 1) = m (src + 1)"
  proof -
    have "ucast (drop_bit 8 (read16 m src)) = m src" "ucast (read16 m src) = m (src + 1)"
      by (auto intro!: bit_word_eqI simp: read16_def bit_simps)
    then show "?m dst = m src" "?m (dst + 1) = m (src + 1)" by (simp_all add: write16_def)
  qed
  show ?case
  proof
    fix x
    consider "adist dst x = 0" | "adist dst x = 1" | "2 \<le> adist dst x" by linarith
    then show "copy16_loop m dst src (Suc n) x = memmove m dst src (2 * Suc n) x"
    proof cases
      case 1
      then have x: "x = dst" by (simp add: unsigned_eq_0_iff)
      have "2 * n \<le> adist (dst + 2) dst" using Suc.prems(2) by simp
      then show ?thesis unfolding IH x by (simp add: memmove_other w) (simp add: memmove_def)
    next
      case 2
      then have "x - dst = 1" by (metis unat_1 word_unat_eq_iff)
      then have x: "x = dst + 1" by (simp add: algebra_simps)
      have "2 * n \<le> adist (dst + 2) (dst + 1)"
        using Suc.prems(2) by (simp add: unsigned_minus_1_eq_mask mask_eq_exp_minus_1)
      then show ?thesis unfolding IH x by (simp add: memmove_other w) (simp add: memmove_def)
    next
      case 3
      then have d: "adist (dst + 2) x = adist dst x - 2"
        using adist_offset [of 2 x dst] by simp
      show ?thesis
      proof (cases "adist dst x < 2 * Suc n")
        case True
        then have "adist src (src + (x - dst)) < 2 * Suc n" by simp
        then have "2 * Suc n \<le> adist dst (src + (x - dst))"
          using disjoint_regionsD Suc.prems(1) disjoint_sym by blast
        then have "?m (src + (x - dst)) = m (src + (x - dst))"
          by (intro write16_other) simp
        moreover have "adist dst x - 2 < 2 * n" using True 3 by (simp add: less_diff_conv2)
        ultimately show ?thesis using True d 3 unfolding IH by (simp add: memmove_def)
      next
        case False
        then have "\<not> adist dst x - 2 < 2 * n" by (simp add: less_diff_conv2)
        with False d 3 show ?thesis unfolding IH by (simp add: memmove_def write16_other)
      qed
    qed
  qed
qed

section \<open>Read-modify-write registers\<close>

text \<open>
  The drivers use a register through a load, a store, and the three read-modify-write
  accessors.  The locale states what they rely on: a store is read back, a store at a
  disjoint address is not seen, and the accessors are the stated combinations.
\<close>

locale reg_rmw =
  fixes rd :: "mem \<Rightarrow> u32 \<Rightarrow> 'w::len word"
    and wr :: "mem \<Rightarrow> u32 \<Rightarrow> 'w word \<Rightarrow> mem"
    and st :: "mem \<Rightarrow> u32 \<Rightarrow> 'w word \<Rightarrow> mem"
    and cl :: "mem \<Rightarrow> u32 \<Rightarrow> 'w word \<Rightarrow> mem"
    and mk :: "mem \<Rightarrow> u32 \<Rightarrow> 'w word \<Rightarrow> 'w word \<Rightarrow> mem"
    and sz :: nat
  assumes rd_wr: "rd (wr m a v) a = v"
    and rd_wr_other: "disjoint_regions a sz b sz \<Longrightarrow> rd (wr m a v) b = rd m b"
    and wr_wr: "wr (wr m a v) a w = wr m a w"
    and wr_rd: "wr m a (rd m a) = m"
    and st_def: "st m a s = wr m a (rd m a OR s)"
    and cl_def: "cl m a c = wr m a (rd m a AND NOT c)"
    and mk_def: "mk m a c s = wr m a ((rd m a AND NOT c) OR s)"
begin

lemma rd_st: "rd (st m a s) a = rd m a OR s"
  by (simp add: st_def rd_wr)

lemma rd_cl: "rd (cl m a c) a = rd m a AND NOT c"
  by (simp add: cl_def rd_wr)

lemma rd_mk: "rd (mk m a c s) a = (rd m a AND NOT c) OR s"
  by (simp add: mk_def rd_wr)

lemma rd_st_other: "disjoint_regions a sz b sz \<Longrightarrow> rd (st m a s) b = rd m b"
  by (simp add: st_def rd_wr_other)

lemma rd_cl_other: "disjoint_regions a sz b sz \<Longrightarrow> rd (cl m a c) b = rd m b"
  by (simp add: cl_def rd_wr_other)

lemma rd_mk_other: "disjoint_regions a sz b sz \<Longrightarrow> rd (mk m a c s) b = rd m b"
  by (simp add: mk_def rd_wr_other)

text \<open>Masking is clearing followed by setting, and clearing and setting are idempotent.\<close>

lemma mk_eq_cl_st: "mk m a c s = st (cl m a c) a s"
  by (simp add: mk_def st_def cl_def rd_wr wr_wr)

lemma st_idem: "st (st m a s) a s = st m a s"
  by (simp add: st_def rd_wr wr_wr or.assoc)

lemma cl_idem: "cl (cl m a c) a c = cl m a c"
  by (simp add: cl_def rd_wr wr_wr and.assoc)

text \<open>A bit outside the masks keeps its value.\<close>

lemma bit_rd_mk:
  "n < LENGTH('w) \<Longrightarrow> bit (rd (mk m a c s) a) n \<longleftrightarrow> bit s n \<or> (bit (rd m a) n \<and> \<not> bit c n)"
  by (auto simp: rd_mk bit_simps)

text \<open>Clearing the bits a previous set added restores the register.\<close>

lemma cl_st_restore: "rd m a AND s = 0 \<Longrightarrow> cl (st m a s) a s = m"
proof -
  assume z: "rd m a AND s = 0"
  have "(rd m a OR s) AND NOT s = rd m a"
  proof (rule bit_word_eqI)
    fix n assume "n < LENGTH('w)"
    moreover have "\<not> (bit (rd m a) n \<and> bit s n)"
      using z by (metis bit_and_iff bit_0_eq bot_apply bot_bool_def)
    ultimately show "bit ((rd m a OR s) AND NOT s) n = bit (rd m a) n"
      by (auto simp: bit_simps)
  qed
  then show ?thesis by (simp add: st_def cl_def rd_wr wr_wr wr_rd)
qed

end

interpretation r32: reg_rmw read32 write32 set32 clear32 mask32 4
  by unfold_locales
     (auto simp: set32_def clear32_def mask32_def read32_write32_other)

interpretation r16: reg_rmw read16 write16 set16 clear16 mask16 2
  by unfold_locales
     (auto simp: set16_def clear16_def mask16_def read16_write16_other)

lemma write8_read8 [simp]: "write8 m a (read8 m a) = m"
  by (simp add: write8_def read8_def)

interpretation r8: reg_rmw read8 write8 set8 clear8 mask8 1
  by unfold_locales
     (auto simp: set8_def clear8_def mask8_def read8_write8_other)

end
