(* ===== verification/BoyerMoore.thy ===== *)
theory BoyerMoore
  imports Machine
begin

text \<open>
  The pattern search of \<^verbatim>\<open>wafel_core/source/bm.c\<close>, which locates the OTP read routine
  and every other code pattern that is patched by content.

  The two tables, the two loops that fill the second one and the search loop are
  translated one by one.  Every array access is checked, those that build the tables and
  those of the search: an access outside an array, or a signed overflow of the text position, makes the result \<open>None\<close>, and so does a search that never returns, so a theorem of
  the form \<open>boyer_moore_search u s p = Some r\<close> states memory safety and termination
  beside the value.  The uninitialised contents of both tables are a parameter \<open>u\<close>.
\<close>

section \<open>Checked accesses\<close>

text \<open>
  A read or a write of an array element: \<open>None\<close> where the index, a signed \<^verbatim>\<open>int\<close>, lies
  outside the array.
\<close>

definition idx :: "'a list \<Rightarrow> int \<Rightarrow> 'a option" where
  "idx xs i = (if 0 \<le> i \<and> i < int (length xs) then Some (xs ! nat i) else None)"

definition upd :: "'a list \<Rightarrow> int \<Rightarrow> 'a \<Rightarrow> 'a list option" where
  "upd xs i v = (if 0 \<le> i \<and> i < int (length xs) then Some (xs[nat i := v]) else None)"

section \<open>The tables\<close>

definition ALPHABET_LEN :: nat where
  "ALPHABET_LEN = 256"

definition delta1_step :: "u8 list \<Rightarrow> nat \<Rightarrow> nat list \<Rightarrow> nat list option" where
  "delta1_step pat i d =
     Option.bind (idx pat (int i)) (\<lambda>c. upd d (int (unat c)) (length pat - 1 - i))"

definition make_delta1 :: "nat list \<Rightarrow> u8 list \<Rightarrow> nat list option" where
  "make_delta1 d pat =
     Option.bind (fold_opt (\<lambda>i d. upd d (int i) (length pat)) [0..<ALPHABET_LEN] d)
       (fold_opt (delta1_step pat) [0..<length pat - 1])"

function is_prefix_loop :: "u8 list \<Rightarrow> nat \<Rightarrow> nat \<Rightarrow> bool option" where
  "is_prefix_loop word pos i =
     (if i < length word - pos
      then Option.bind (idx word (int i)) (\<lambda>a. Option.bind (idx word (int (pos + i))) (\<lambda>b.
        if a \<noteq> b then Some False else is_prefix_loop word pos (Suc i)))
      else Some True)"
  by pat_completeness auto
termination
  by (relation "measure (\<lambda>(word, pos, i). length word - i)") auto

definition is_prefix :: "u8 list \<Rightarrow> nat \<Rightarrow> bool option" where
  "is_prefix word pos = is_prefix_loop word pos 0"

text \<open>Both characters are read before the loop of \<^verbatim>\<open>suffix_length\<close> tests its bound.\<close>

function suffix_length_loop :: "u8 list \<Rightarrow> nat \<Rightarrow> nat \<Rightarrow> nat option" where
  "suffix_length_loop word pos i =
     Option.bind (idx word (int pos - int i)) (\<lambda>a.
       Option.bind (idx word (int (length word) - 1 - int i)) (\<lambda>b.
         if a = b \<and> i < pos then suffix_length_loop word pos (Suc i) else Some i))"
  by pat_completeness auto
termination
  by (relation "measure (\<lambda>(word, pos, i). pos - i)") auto

definition suffix_length :: "u8 list \<Rightarrow> nat \<Rightarrow> nat option" where
  "suffix_length word pos = suffix_length_loop word pos 0"

declare is_prefix_loop.simps [simp del] suffix_length_loop.simps [simp del]

text \<open>The first loop of \<^verbatim>\<open>make_delta2\<close> counts \<open>p\<close> down from \<open>patlen - 1\<close>.\<close>

fun delta2_prefixes :: "u8 list \<Rightarrow> nat \<Rightarrow> nat \<Rightarrow> nat list \<Rightarrow> nat list option" where
  "delta2_prefixes pat 0 last_prefix_index d = Some d"
| "delta2_prefixes pat (Suc p) last_prefix_index d =
     Option.bind (is_prefix pat (p + 1)) (\<lambda>b.
       let lpi = (if b then p + 1 else last_prefix_index)
       in Option.bind (upd d (int p) (lpi + (length pat - 1 - p))) (delta2_prefixes pat p lpi))"

definition delta2_suffix_step :: "u8 list \<Rightarrow> nat \<Rightarrow> nat list \<Rightarrow> nat list option" where
  "delta2_suffix_step pat p d =
     Option.bind (suffix_length pat p) (\<lambda>slen.
       Option.bind (idx pat (int p - int slen)) (\<lambda>a.
       Option.bind (idx pat (int (length pat) - 1 - int slen)) (\<lambda>b.
         if a \<noteq> b then upd d (int (length pat) - 1 - int slen) (length pat - 1 - p + slen)
         else Some d)))"

definition make_delta2 :: "nat list \<Rightarrow> u8 list \<Rightarrow> nat list option" where
  "make_delta2 d pat =
     Option.bind (delta2_prefixes pat (length pat) (length pat - 1) d)
       (fold_opt (delta2_suffix_step pat) [0..<length pat - 1])"

section \<open>The search\<close>

function bm_compare :: "u8 list \<Rightarrow> u8 list \<Rightarrow> int \<Rightarrow> int \<Rightarrow> (int \<times> int) option" where
  "bm_compare str pat i j =
     (if 0 \<le> j then
        Option.bind (idx str i) (\<lambda>c. Option.bind (idx pat j) (\<lambda>d.
          if c = d then bm_compare str pat (i - 1) (j - 1) else Some (i, j)))
      else Some (i, j))"
  by pat_completeness auto
termination
  by (relation "measure (\<lambda>(str, pat, i, j). nat (j + 1))") auto

declare bm_compare.simps [simp del]

text \<open>The addition on C's \<^verbatim>\<open>int\<close>: undefined where the sum does not fit.\<close>

definition add_int :: "int \<Rightarrow> int \<Rightarrow> int option" where
  "add_int a b = (if - (2 ^ 31) \<le> a + b \<and> a + b < 2 ^ 31 then Some (a + b) else None)"

partial_function (option) bm_loop ::
  "u8 list \<Rightarrow> u8 list \<Rightarrow> nat list \<Rightarrow> nat list \<Rightarrow> int \<Rightarrow> nat option option" where
  "bm_loop str pat delta1 delta2 i =
     (if i < int (length str) then
        Option.bind (bm_compare str pat i (int (length pat) - 1)) (\<lambda>(i, j).
          if j < 0 then Some (Some (nat (i + 1)))
          else Option.bind (idx str i) (\<lambda>c.
            Option.bind (idx delta1 (int (unat c))) (\<lambda>s1.
            Option.bind (idx delta2 j) (\<lambda>s2.
            Option.bind (add_int i (int (if s1 < s2 then s2 else s1))) (\<lambda>i'.
              bm_loop str pat delta1 delta2 i')))))
      else Some None)"

definition boyer_moore_search ::
  "(nat \<Rightarrow> nat) \<Rightarrow> u8 list \<Rightarrow> u8 list \<Rightarrow> nat option option" where
  "boyer_moore_search uninit str pat =
     Option.bind (make_delta1 (map uninit [0..<ALPHABET_LEN]) pat) (\<lambda>delta1.
       Option.bind
         (make_delta2 (map (\<lambda>k. uninit (ALPHABET_LEN + k)) [0..<length pat * 4]) pat)
         (\<lambda>delta2. bm_loop str pat delta1 delta2 (int (length pat) - 1)))"

section \<open>The tables the loops compute\<close>

text \<open>
  The same tables without the checks, on which the correctness argument works.  The lemmas
  at the end of the section show that the checked loops compute them, so no access of the
  table-building code leaves an array.
\<close>

definition delta1_put :: "u8 list \<Rightarrow> nat \<Rightarrow> nat list \<Rightarrow> nat list" where
  "delta1_put pat i d = d[unat (pat ! i) := length pat - 1 - i]"

definition delta1_table :: "u8 list \<Rightarrow> nat list" where
  "delta1_table pat =
     fold (delta1_put pat) [0..<length pat - 1] (replicate ALPHABET_LEN (length pat))"

function prefix_loop :: "u8 list \<Rightarrow> nat \<Rightarrow> nat \<Rightarrow> bool" where
  "prefix_loop word pos i =
     (if i < length word - pos
      then (if word ! i \<noteq> word ! (pos + i) then False else prefix_loop word pos (Suc i))
      else True)"
  by pat_completeness auto
termination
  by (relation "measure (\<lambda>(word, pos, i). length word - i)") auto

definition prefix_from :: "u8 list \<Rightarrow> nat \<Rightarrow> bool" where
  "prefix_from word pos = prefix_loop word pos 0"

function suffix_len_loop :: "u8 list \<Rightarrow> nat \<Rightarrow> nat \<Rightarrow> nat" where
  "suffix_len_loop word pos i =
     (if word ! (pos - i) = word ! (length word - 1 - i) \<and> i < pos
      then suffix_len_loop word pos (Suc i) else i)"
  by pat_completeness auto
termination
  by (relation "measure (\<lambda>(word, pos, i). pos - i)") auto

definition suffix_len :: "u8 list \<Rightarrow> nat \<Rightarrow> nat" where
  "suffix_len word pos = suffix_len_loop word pos 0"

declare prefix_loop.simps [simp del] suffix_len_loop.simps [simp del]

text \<open>The first loop of \<^verbatim>\<open>delta2_table\<close> counts \<open>p\<close> down from \<open>patlen - 1\<close>.\<close>

fun prefix_shifts :: "u8 list \<Rightarrow> nat \<Rightarrow> nat \<Rightarrow> nat list \<Rightarrow> nat list" where
  "prefix_shifts pat 0 last_prefix_index d = d"
| "prefix_shifts pat (Suc p) last_prefix_index d =
     (let lpi = (if prefix_from pat (p + 1) then p + 1 else last_prefix_index)
      in prefix_shifts pat p lpi (d[p := lpi + (length pat - 1 - p)]))"

definition suffix_shift :: "u8 list \<Rightarrow> nat \<Rightarrow> nat list \<Rightarrow> nat list" where
  "suffix_shift pat p d =
     (let slen = suffix_len pat p
      in if pat ! (p - slen) \<noteq> pat ! (length pat - 1 - slen)
         then d[length pat - 1 - slen := length pat - 1 - p + slen] else d)"

definition delta2_table :: "nat list \<Rightarrow> u8 list \<Rightarrow> nat list" where
  "delta2_table d pat =
     fold (suffix_shift pat) [0..<length pat - 1]
       (prefix_shifts pat (length pat) (length pat - 1) d)"

lemma idx_int [simp]: "n < length xs \<Longrightarrow> idx xs (int n) = Some (xs ! n)"
  by (simp add: idx_def)

lemma idx_diff: "m \<le> n \<Longrightarrow> n - m < length xs \<Longrightarrow> idx xs (int n - int m) = Some (xs ! (n - m))"
  by (simp flip: of_nat_diff)

lemma idx_last: "m < length xs \<Longrightarrow>
  idx xs (int (length xs) - 1 - int m) = Some (xs ! (length xs - 1 - m))"
  by (simp add: idx_def nat_diff_distrib diff_commute)

lemma upd_int [simp]: "n < length xs \<Longrightarrow> upd xs (int n) v = Some (xs[n := v])"
  by (simp add: upd_def)

lemma upd_uint [simp]:
  "unat c < length xs \<Longrightarrow> upd xs (uint c) v = Some (xs[unat c := v])"
  using upd_int [of "unat c" xs v] by simp

lemma fold_put_const: "n \<le> length d \<Longrightarrow>
  fold (\<lambda>i d. d[i := v]) [0..<n] d = replicate n v @ drop n d"
proof (induction n)
  case (Suc n)
  then show ?case
    by (simp add: list_update_append replicate_append_same [symmetric] Cons_nth_drop_Suc [symmetric])
qed simp

lemma make_delta1_table:
  assumes "length d = ALPHABET_LEN"
  shows "make_delta1 d pat = Some (delta1_table pat)"
proof -
  have c: "unat (c :: u8) < ALPHABET_LEN" for c
    using unsigned_less [of c] by (simp add: ALPHABET_LEN_def)
  have "fold_opt (\<lambda>i d. upd d (int i) (length pat)) [0..<ALPHABET_LEN] d =
      Some (fold (\<lambda>i d. d[i := length pat]) [0..<ALPHABET_LEN] d)"
    using assms by (intro fold_opt_fold [where n = ALPHABET_LEN]) auto
  moreover have "fold_opt (delta1_step pat) [0..<length pat - 1] d' =
      Some (fold (delta1_put pat) [0..<length pat - 1] d')" if "length d' = ALPHABET_LEN" for d'
    using that c
    by (intro fold_opt_fold [where n = ALPHABET_LEN]) (auto simp: delta1_step_def delta1_put_def)
  ultimately show ?thesis
    using assms by (simp add: make_delta1_def delta1_table_def fold_put_const)
qed

lemma is_prefix_loop_eq: "is_prefix_loop w pos i = Some (prefix_loop w pos i)"
proof (induction w pos i rule: prefix_loop.induct)
  case (1 w pos i)
  have "pos + i < length w" if "i < length w - pos" using that by simp
  with 1 show ?case
    by (simp add: is_prefix_loop.simps [of w pos i] prefix_loop.simps [of w pos i] del: of_nat_add)
qed

lemma is_prefix_eq: "is_prefix w pos = Some (prefix_from w pos)"
  by (simp add: is_prefix_def prefix_from_def is_prefix_loop_eq)

lemma suffix_length_loop_eq:
  "i \<le> pos \<Longrightarrow> pos < length w \<Longrightarrow> suffix_length_loop w pos i = Some (suffix_len_loop w pos i)"
proof (induction w pos i rule: suffix_len_loop.induct)
  case (1 w pos i)
  then show ?case
    by (simp add: suffix_length_loop.simps [of w pos i] suffix_len_loop.simps [of w pos i]
        idx_diff idx_last)
qed

lemma suffix_length_eq: "pos < length w \<Longrightarrow> suffix_length w pos = Some (suffix_len w pos)"
  by (simp add: suffix_length_def suffix_len_def suffix_length_loop_eq)

lemma suffix_len_le: "i \<le> pos \<Longrightarrow> suffix_len_loop w pos i \<le> pos"
  by (induction w pos i rule: suffix_len_loop.induct) (simp add: suffix_len_loop.simps)

lemma delta2_prefixes_eq: "n \<le> length pat \<Longrightarrow> length pat \<le> length d \<Longrightarrow>
  delta2_prefixes pat n lpi d = Some (prefix_shifts pat n lpi d)"
  by (induction pat n lpi d rule: prefix_shifts.induct) (simp_all add: is_prefix_eq Let_def)

lemma delta2_suffix_step_eq:
  assumes "p < length pat - 1" and "length pat \<le> length d"
  shows "delta2_suffix_step pat p d = Some (suffix_shift pat p d)"
proof -
  let ?l = "suffix_len pat p"
  have l: "?l \<le> p" by (simp add: suffix_len_def suffix_len_le)
  have "upd d (int (length pat) - 1 - int ?l) v = Some (d[length pat - 1 - ?l := v])" for v
    using l assms by (simp add: upd_def nat_diff_distrib diff_commute)
  then show ?thesis
    using l assms by (simp add: delta2_suffix_step_def suffix_shift_def Let_def
        suffix_length_eq idx_diff idx_last)
qed

lemma length_prefix_shifts [simp]: "length (prefix_shifts pat n lpi d) = length d"
  by (induction pat n lpi d rule: prefix_shifts.induct) (simp_all add: Let_def)

lemma length_suffix_shift [simp]: "length (suffix_shift pat q d) = length d"
  by (simp add: suffix_shift_def Let_def)

lemma make_delta2_table:
  assumes "length pat \<le> length d"
  shows "make_delta2 d pat = Some (delta2_table d pat)"
proof -
  have "fold_opt (delta2_suffix_step pat) [0..<length pat - 1] d' =
      Some (fold (suffix_shift pat) [0..<length pat - 1] d')" if "length d' = length d" for d'
    using that assms by (intro fold_opt_fold [where n = "length d"]) (auto simp: delta2_suffix_step_eq)
  then show ?thesis
    using assms by (simp add: make_delta2_def delta2_table_def delta2_prefixes_eq)
qed

section \<open>What a search returns\<close>

definition match_at :: "'a list \<Rightarrow> 'a list \<Rightarrow> nat \<Rightarrow> bool" where
  "match_at s p k \<longleftrightarrow> k + length p \<le> length s \<and> take (length p) (drop k s) = p"

definition first_match :: "'a list \<Rightarrow> 'a list \<Rightarrow> nat option" where
  "first_match s p = find (match_at s p) [0..<Suc (length s)]"

lemma match_at_nth:
  "match_at s p k \<longleftrightarrow> k + length p \<le> length s \<and> (\<forall>t<length p. s ! (k + t) = p ! t)"
  by (auto simp: match_at_def list_eq_iff_nth_eq)

lemma find_upt_Some:
  "find P [0..<n] = Some k \<longleftrightarrow> k < n \<and> P k \<and> (\<forall>i<k. \<not> P i)"
  by (auto simp: find_Some_iff)

lemma find_upt_None: "find P [0..<n] = None \<longleftrightarrow> (\<forall>i<n. \<not> P i)"
  by (auto simp: find_None_iff)

lemma first_match_Some:
  "first_match s p = Some k \<longleftrightarrow> match_at s p k \<and> (\<forall>i<k. \<not> match_at s p i)"
  by (auto simp: first_match_def find_upt_Some match_at_def simp del: upt_Suc)

lemma first_match_None: "first_match s p = None \<longleftrightarrow> (\<forall>k. \<not> match_at s p k)"
  by (auto simp: first_match_def find_upt_None match_at_def simp del: upt_Suc)

section \<open>The tables are right\<close>

lemma prefix_loop_iff:
  "prefix_loop w pos i \<longleftrightarrow> (\<forall>k. i \<le> k \<and> k < length w - pos \<longrightarrow> w ! k = w ! (pos + k))"
proof (induction w pos i rule: prefix_loop.induct)
  case (1 w pos i)
  show ?case
  proof (cases "i < length w - pos")
    case True
    have "(\<forall>k. i \<le> k \<and> k < length w - pos \<longrightarrow> w ! k = w ! (pos + k)) \<longleftrightarrow>
      w ! i = w ! (pos + i) \<and> (\<forall>k. Suc i \<le> k \<and> k < length w - pos \<longrightarrow> w ! k = w ! (pos + k))"
      using True by (metis Suc_leD Suc_leI le_neq_implies_less order_refl)
    then show ?thesis
      using 1 True by (simp add: prefix_loop.simps [of w pos i])
  next
    case False
    then show ?thesis by (auto simp: prefix_loop.simps [of w pos i])
  qed
qed

lemma prefix_from_iff:
  "prefix_from w pos \<longleftrightarrow> (\<forall>k < length w - pos. w ! k = w ! (pos + k))"
  by (simp add: prefix_from_def prefix_loop_iff)

lemma suffix_len_loop_spec:
  assumes "i \<le> pos" and "\<forall>t<i. w ! (pos - t) = w ! (length w - 1 - t)"
  shows "suffix_len_loop w pos i \<le> pos \<and>
    (\<forall>t < suffix_len_loop w pos i. w ! (pos - t) = w ! (length w - 1 - t)) \<and>
    (suffix_len_loop w pos i = pos \<or>
     w ! (pos - suffix_len_loop w pos i) \<noteq> w ! (length w - 1 - suffix_len_loop w pos i))"
  using assms
proof (induction w pos i rule: suffix_len_loop.induct)
  case (1 w pos i)
  show ?case
  proof (cases "w ! (pos - i) = w ! (length w - 1 - i) \<and> i < pos")
    case True
    moreover have "\<forall>t<Suc i. w ! (pos - t) = w ! (length w - 1 - t)"
      using True 1(3) by (simp add: less_Suc_eq)
    ultimately show ?thesis
      using 1(1) by (simp add: suffix_len_loop.simps [of w pos i])
  next
    case False
    then show ?thesis
      using 1(2,3) by (auto simp: suffix_len_loop.simps [of w pos i])
  qed
qed

lemma suffix_len_spec:
  "suffix_len w pos \<le> pos"
  "t < suffix_len w pos \<Longrightarrow> w ! (pos - t) = w ! (length w - 1 - t)"
  "suffix_len w pos = pos \<or>
     w ! (pos - suffix_len w pos) \<noteq> w ! (length w - 1 - suffix_len w pos)"
  using suffix_len_loop_spec [of 0 pos w] by (simp_all add: suffix_len_def)

subsection \<open>The bad-character table\<close>

definition delta1_ok :: "u8 list \<Rightarrow> nat \<Rightarrow> nat list \<Rightarrow> bool" where
  "delta1_ok pat n d \<longleftrightarrow> length d = ALPHABET_LEN \<and>
     (\<forall>c :: u8. d ! unat c \<le> length pat \<and>
       (\<forall>t<n. length pat - 1 < t + d ! unat c \<longrightarrow> pat ! t \<noteq> c))"

lemma delta1_put_ok:
  assumes ok: "delta1_ok pat n d" and "n < length pat"
  shows "delta1_ok pat (Suc n) (delta1_put pat n d)"
proof -
  have lt: "unat (c :: u8) < length d" for c
    using ok unsigned_less [of c] by (simp add: delta1_ok_def ALPHABET_LEN_def)
  have eq: "delta1_put pat n d ! unat c =
      (if c = pat ! n then length pat - 1 - n else d ! unat c)" for c :: u8
    using lt [of "pat ! n"] by (auto simp: delta1_put_def nth_list_update word_unat_eq_iff)
  show ?thesis
    using assms by (auto simp: delta1_ok_def eq less_Suc_eq) (simp add: delta1_put_def)
qed

lemma delta1_fold:
  "n \<le> length pat \<Longrightarrow>
   delta1_ok pat n (fold (delta1_put pat) [0..<n] (replicate ALPHABET_LEN (length pat)))"
proof (induction n)
  case 0
  have "unat (c :: u8) < ALPHABET_LEN" for c
    using unsigned_less [of c] by (simp add: ALPHABET_LEN_def)
  then show ?case by (simp add: delta1_ok_def)
qed (simp add: delta1_put_ok)

lemma delta1_table_spec:
  assumes "pat \<noteq> []"
  shows "length (delta1_table pat) = ALPHABET_LEN"
    and "delta1_table pat ! unat (c :: u8) \<le> length pat"
    and "t < length pat - 1 \<Longrightarrow> length pat - 1 < t + delta1_table pat ! unat c \<Longrightarrow> pat ! t \<noteq> c"
  using delta1_fold [of "length pat - 1" pat] assms
  by (auto simp: delta1_table_def delta1_ok_def)

subsection \<open>The good-suffix table\<close>

text \<open>
  A shift by \<open>s\<close> after a mismatch at \<open>j\<close> is plausible when the text that matched the
  pattern right of \<open>j\<close>, and the character that mismatched at \<open>j\<close>, do not rule it out.
\<close>

definition plausible :: "'a list \<Rightarrow> nat \<Rightarrow> nat \<Rightarrow> bool" where
  "plausible p j s \<longleftrightarrow>
     (\<forall>t. j < t \<and> t < length p \<and> s \<le> t \<longrightarrow> p ! (t - s) = p ! t) \<and>
     (s \<le> j \<longrightarrow> p ! (j - s) \<noteq> p ! j)"

lemma plausible_prefix:
  assumes "plausible p j s" and "j < s"
  shows "prefix_from p s"
  unfolding prefix_from_iff
proof (intro allI impI)
  fix k assume "k < length p - s"
  then show "p ! k = p ! (s + k)"
    using assms by (auto simp: plausible_def dest!: spec [of _ "s + k"])
qed

lemma plausible_suffix:
  assumes "plausible p j s" and "0 < s" and "s \<le> j" and "j < length p"
  shows "suffix_len p (length p - 1 - s) = length p - 1 - j"
    and "p ! (length p - 1 - s - (length p - 1 - j)) \<noteq> p ! j"
proof -
  let ?m = "length p" let ?q = "?m - 1 - s" let ?e = "?m - 1 - j"
  let ?l = "suffix_len p ?q"
  have same: "p ! (?q - i) = p ! (?m - 1 - i)" if "i < ?e" for i
  proof -
    have "p ! (?m - 1 - i - s) = p ! (?m - 1 - i)"
      using assms that
      by (auto simp: plausible_def dest!: spec [of _ "?m - 1 - i"])
    then show ?thesis by (simp add: diff_commute add.commute)
  qed
  have at_e: "p ! (?q - ?e) \<noteq> p ! (?m - 1 - ?e)"
    using assms by (auto simp: plausible_def)
  then show "p ! (?q - ?e) \<noteq> p ! j"
    using assms by (simp add: Suc_leI)
  have "\<not> ?e < ?l"
    using suffix_len_spec(2) [of ?e p ?q] at_e by blast
  moreover have "\<not> ?l < ?e"
  proof
    assume l: "?l < ?e"
    with same suffix_len_spec(3) [of p ?q] have "?l = ?q" by blast
    with l assms show False by simp
  qed
  ultimately show "?l = ?e" by simp
qed

definition good_shift :: "'a list \<Rightarrow> nat \<Rightarrow> nat \<Rightarrow> (nat \<Rightarrow> bool) \<Rightarrow> bool" where
  "good_shift p j v Done \<longleftrightarrow> (\<exists>s. v = s + (length p - 1 - j) \<and> 1 \<le> s \<and> s \<le> length p \<and>
     (\<forall>s'. 1 \<le> s' \<and> s' < s \<and> Done s' \<longrightarrow> \<not> plausible p j s'))"

lemma good_shift_mono:
  assumes "good_shift p j v D"
    and "\<And>s. 1 \<le> s \<Longrightarrow> s \<le> length p \<Longrightarrow> D' s \<Longrightarrow> plausible p j s \<Longrightarrow> D s"
  shows "good_shift p j v D'"
  using assms unfolding good_shift_def by (metis less_imp_le order_trans)

text \<open>
  The first loop leaves at \<open>p\<close> the distance to the smallest prefix of the pattern that is
  a suffix starting right of \<open>p\<close>; every smaller shift beyond \<open>p\<close> is implausible.
\<close>

lemma prefix_shifts_spec:
  assumes "n \<le> length pat" and "length pat \<le> length d"
    and "n = length pat \<or> prefix_from pat lpi \<and> n < lpi \<and> lpi \<le> length pat \<and>
      (\<forall>s. n < s \<and> s < lpi \<longrightarrow> \<not> prefix_from pat s)"
    and "\<forall>j. n \<le> j \<and> j < length pat \<longrightarrow> good_shift pat j (d ! j) (\<lambda>s. j < s)"
  shows "length (prefix_shifts pat n lpi d) = length d \<and>
    (\<forall>j<length pat. good_shift pat j (prefix_shifts pat n lpi d ! j) (\<lambda>s. j < s))"
  using assms
proof (induction n arbitrary: lpi d)
  case 0
  then show ?case by simp
next
  case (Suc n)
  define l where "l = (if prefix_from pat (n + 1) then n + 1 else lpi)"
  let ?d = "d[n := l + (length pat - 1 - n)]"
  have pre: "prefix_from pat (length pat)" by (simp add: prefix_from_iff)
  have l: "prefix_from pat l \<and> n < l \<and> l \<le> length pat \<and> (\<forall>s. n < s \<and> s < l \<longrightarrow> \<not> prefix_from pat s)"
  proof (cases "prefix_from pat (n + 1)")
    case True
    then show ?thesis using Suc.prems by (auto simp: l_def)
  next
    case False
    with pre have "Suc n \<noteq> length pat" by auto
    with Suc.prems(3) have "prefix_from pat lpi \<and> Suc n < lpi \<and> lpi \<le> length pat \<and>
      (\<forall>s. Suc n < s \<and> s < lpi \<longrightarrow> \<not> prefix_from pat s)" by blast
    with False show ?thesis
      by (auto simp: l_def) (metis Suc_lessI)
  qed
  have "good_shift pat n (?d ! n) (\<lambda>s. n < s)"
    using Suc.prems l plausible_prefix
    by (auto simp: good_shift_def intro!: exI [of _ l])
  then have "\<forall>j. n \<le> j \<and> j < length pat \<longrightarrow> good_shift pat j (?d ! j) (\<lambda>s. j < s)"
    using Suc.prems(4) by (metis le_neq_implies_less nth_list_update_neq Suc_leI)
  then have "length (prefix_shifts pat n l ?d) = length ?d \<and>
    (\<forall>j<length pat. good_shift pat j (prefix_shifts pat n l ?d ! j) (\<lambda>s. j < s))"
    using Suc.prems l by (intro Suc.IH) auto
  then show ?case by (simp add: Let_def l_def split: if_splits)
qed

text \<open>
  The second loop examines, at \<open>p\<close>, the shift \<open>patlen - 1 - p\<close>; the mismatch position
  this shift is plausible for is the one it is recorded at.
\<close>

lemma suffix_shift_spec:
  assumes q: "q < length pat - 1" and len: "length pat \<le> length d"
    and good: "\<forall>j<length pat. good_shift pat j (d ! j) (\<lambda>s. j < s \<or> length pat - 1 - s < q)"
  shows "\<forall>j<length pat. good_shift pat j (suffix_shift pat q d ! j)
    (\<lambda>s. j < s \<or> length pat - 1 - s < Suc q)"
proof (intro allI impI)
  fix j assume j: "j < length pat"
  let ?m = "length pat" let ?l = "suffix_len pat q" let ?s = "?m - 1 - q"
  let ?hit = "pat ! (q - ?l) \<noteq> pat ! (?m - 1 - ?l)"
  have lq: "?l \<le> q" by (rule suffix_len_spec(1))
  show "good_shift pat j (suffix_shift pat q d ! j) (\<lambda>s. j < s \<or> ?m - 1 - s < Suc q)"
  proof (cases "?hit \<and> j = ?m - 1 - ?l")
    case True
    then have "suffix_shift pat q d ! j = ?s + (?m - 1 - j)"
      using q len lq j by (simp add: suffix_shift_def Let_def)
    then show ?thesis
      using q True lq unfolding good_shift_def by (intro exI [of _ ?s]) auto
  next
    case False
    have "suffix_shift pat q d ! j = d ! j"
      using False by (auto simp: suffix_shift_def Let_def)
    moreover have "j < s" if "plausible pat j s" "1 \<le> s" "?m - 1 - s = q" for s
    proof (rule ccontr)
      assume "\<not> j < s"
      then have "s \<le> j" by simp
      have "?l = ?m - 1 - j" and "pat ! (q - ?l) \<noteq> pat ! j"
        using plausible_suffix [OF that(1)] that(2,3) \<open>s \<le> j\<close> j by auto
      with False j show False by auto
    qed
    ultimately show ?thesis
      using good j by (auto elim!: good_shift_mono simp: less_Suc_eq)
  qed
qed

lemma delta2_fold_spec:
  assumes "q \<le> length pat - 1" and "length pat \<le> length d"
    and "\<forall>j<length pat. good_shift pat j (d ! j) (\<lambda>s. j < s)"
  shows "length (fold (suffix_shift pat) [0..<q] d) = length d \<and>
    (\<forall>j<length pat. good_shift pat j (fold (suffix_shift pat) [0..<q] d ! j)
      (\<lambda>s. j < s \<or> length pat - 1 - s < q))"
  using assms
proof (induction q)
  case (Suc q)
  let ?d = "fold (suffix_shift pat) [0..<q] d"
  have "length ?d = length d \<and> (\<forall>j<length pat. good_shift pat j (?d ! j)
    (\<lambda>s. j < s \<or> length pat - 1 - s < q))"
    using Suc by simp
  with Suc.prems suffix_shift_spec [of q pat ?d] show ?case by simp
qed simp

lemma delta2_table_spec:
  assumes "pat \<noteq> []" and "length pat \<le> length d"
  shows "length (delta2_table d pat) = length d"
    and "j < length pat \<Longrightarrow> good_shift pat j (delta2_table d pat ! j) (\<lambda>s. True)"
proof -
  let ?d = "prefix_shifts pat (length pat) (length pat - 1) d"
  have "length ?d = length d \<and> (\<forall>j<length pat. good_shift pat j (?d ! j) (\<lambda>s. j < s))"
    using assms by (intro prefix_shifts_spec) auto
  with delta2_fold_spec [of "length pat - 1" pat ?d] assms
  have *: "length (delta2_table d pat) = length d"
    "\<forall>j<length pat. good_shift pat j (delta2_table d pat ! j)
      (\<lambda>s. j < s \<or> length pat - 1 - s < length pat - 1)"
    by (auto simp: delta2_table_def)
  then show "length (delta2_table d pat) = length d" by simp
  assume "j < length pat"
  with * show "good_shift pat j (delta2_table d pat ! j) (\<lambda>s. True)"
    by (auto elim!: good_shift_mono)
qed

section \<open>The search is right\<close>

text \<open>
  Comparing from \<open>j\<close> down either reaches the front of the pattern, with every character
  equal, or stops at the rightmost mismatch.  It never leaves the arrays.
\<close>

lemma bm_compare_spec:
  assumes "k + length p \<le> length s" and "n \<le> length p"
  shows "(bm_compare s p (int k + int n - 1) (int n - 1) = Some (int k - 1, - 1) \<and>
           (\<forall>t<n. s ! (k + t) = p ! t)) \<or>
         (\<exists>j<n. bm_compare s p (int k + int n - 1) (int n - 1) = Some (int (k + j), int j) \<and>
           s ! (k + j) \<noteq> p ! j \<and> (\<forall>t. j < t \<and> t < n \<longrightarrow> s ! (k + t) = p ! t))"
  using assms(2)
proof (induction n)
  case 0
  then show ?case by (simp add: bm_compare.simps)
next
  case (Suc n)
  have i: "int k + int (Suc n) - 1 = int (k + n)" and j: "int (Suc n) - 1 = int n"
    by simp_all
  have ib: "k + n < length s" "n < length p" using assms(1) Suc.prems by simp_all
  have step: "bm_compare s p (int k + int (Suc n) - 1) (int (Suc n) - 1) =
    (if s ! (k + n) = p ! n then bm_compare s p (int k + int n - 1) (int n - 1)
     else Some (int (k + n), int n))"
    unfolding i j using ib
    by (subst bm_compare.simps) (simp del: of_nat_add, simp)
  show ?case
  proof (cases "s ! (k + n) = p ! n")
    case True
    with Suc.IH Suc.prems step show ?thesis
      by (auto simp: less_Suc_eq)
  next
    case False
    with step show ?thesis by (intro disjI2 exI [of _ n]) auto
  qed
qed

text \<open>No alignment that a shift after a mismatch at \<open>j\<close> skips is an occurrence.\<close>

lemma skipped_plausible:
  assumes mis: "s ! (k + j) \<noteq> p ! j" and j: "j < length p"
    and eq: "\<forall>t. j < t \<and> t < length p \<longrightarrow> s ! (k + t) = p ! t"
    and match: "match_at s p (k + d)"
  shows "plausible p j d"
  unfolding plausible_def
proof (intro conjI allI impI)
  have at: "s ! (k + d + t) = p ! t" if "t < length p" for t
    using match that by (simp add: match_at_nth)
  fix t assume t: "j < t \<and> t < length p \<and> d \<le> t"
  then have "s ! (k + t) = p ! (t - d)"
    using at [of "t - d"] by (simp add: less_imp_diff_less)
  with t eq show "p ! (t - d) = p ! t" by simp
next
  assume "d \<le> j"
  moreover have "s ! (k + d + (j - d)) = p ! (j - d)"
    using match j by (simp add: match_at_nth)
  ultimately show "p ! (j - d) \<noteq> p ! j" using mis by simp
qed

lemma skipped_bad_char:
  assumes j: "j < length p" and d: "0 < d" "d \<le> j"
    and v: "length p - 1 + d < j + v"
    and bad: "\<And>t. t < length p - 1 \<Longrightarrow> length p - 1 < t + v \<Longrightarrow> p ! t \<noteq> s ! (k + j)"
  shows "\<not> match_at s p (k + d)"
proof
  assume "match_at s p (k + d)"
  then have "s ! (k + d + (j - d)) = p ! (j - d)"
    using j by (simp add: match_at_nth)
  then have "p ! (j - d) = s ! (k + j)" using d by simp
  then show False using bad [of "j - d"] j d v by simp
qed

lemma bm_loop_spec:
  assumes ne: "p \<noteq> []" and d2: "length p \<le> length u"
    and fits: "length s + 2 * length p < 2 ^ 31" and "\<forall>i<k. \<not> match_at s p i"
  shows "bm_loop s p (delta1_table p) (delta2_table u p) (int k + int (length p) - 1)
    = Some (first_match s p)"
  using assms(4)
proof (induction "Suc (length s) - k" arbitrary: k rule: less_induct)
  case less
  let ?m = "length p" let ?d1 = "delta1_table p" let ?d2 = "delta2_table u p"
  let ?i = "int k + int ?m - 1"
  have m: "0 < ?m" using ne by simp
  show ?case
  proof (cases "k + ?m \<le> length s")
    case False
    have "\<not> match_at s p i" for i
      using less.prems False by (cases "i < k") (auto simp: match_at_def)
    then have "first_match s p = None" by (simp add: first_match_None)
    with False show ?thesis by (subst bm_loop.simps) simp
  next
    case inb: True
    from bm_compare_spec [OF inb order_refl] show ?thesis
    proof (elim disjE exE conjE)
      assume c: "bm_compare s p ?i (int ?m - 1) = Some (int k - 1, - 1)"
        and "\<forall>t<?m. s ! (k + t) = p ! t"
      then have "match_at s p k" using inb by (simp add: match_at_nth)
      with less.prems have "first_match s p = Some k" by (simp add: first_match_Some)
      with c inb show ?thesis by (subst bm_loop.simps) simp
    next
      fix j assume j: "j < ?m" and c: "bm_compare s p ?i (int ?m - 1) = Some (int (k + j), int j)"
        and mis: "s ! (k + j) \<noteq> p ! j"
        and eq: "\<forall>t. j < t \<and> t < ?m \<longrightarrow> s ! (k + t) = p ! t"
      let ?c = "s ! (k + j)" let ?v1 = "?d1 ! unat ?c" let ?v2 = "?d2 ! j"
      let ?v = "if ?v1 < ?v2 then ?v2 else ?v1"
      obtain sh where sh: "?v2 = sh + (?m - 1 - j)" "1 \<le> sh" "sh \<le> ?m"
          "\<forall>s'. 1 \<le> s' \<and> s' < sh \<longrightarrow> \<not> plausible p j s'"
        using delta2_table_spec(2) [OF ne d2 j] by (auto simp: good_shift_def)
      have no1: "\<not> match_at s p (k + d)" if "0 < d" "d < sh" for d
        using skipped_plausible [OF mis j eq] sh(4) that by fastforce
      have no2: "\<not> match_at s p (k + d)" if d: "0 < d" "d + (?m - 1) < j + ?v1" for d
      proof (rule skipped_bad_char [OF j d(1)])
        show "d \<le> j"
          using delta1_table_spec(2) [OF ne, of ?c] d(2) m by linarith
        show "?m - 1 + d < j + ?v1" using d(2) by linarith
        show "p ! t \<noteq> ?c" if "t < ?m - 1" "?m - 1 < t + ?v1" for t
          by (rule delta1_table_spec(3) [OF ne that])
      qed
      define k' where "k' = k + j + ?v - (?m - 1)"
      have k': "k < k'" "k' + (?m - 1) = k + j + ?v"
        using sh j by (auto simp: k'_def)
      have "\<not> match_at s p i" if "i < k'" for i
      proof (cases "i \<le> k")
        case True
        then show ?thesis
          using less.prems mis j by (cases "i = k") (auto simp: match_at_nth)
      next
        case False
        then obtain d where d: "i = k + d" "0 < d" by (metis less_imp_add_positive linorder_not_le)
        with that k' no1 [of d] no2 [of d] sh j show ?thesis
          by (auto split: if_splits)
      qed
      then have IH: "bm_loop s p ?d1 ?d2 (int k' + int ?m - 1) = Some (first_match s p)"
        using k' inb by (intro less.hyps) auto
      have "unat ?c < length ?d1"
        using unsigned_less [of ?c] delta1_table_spec(1) [OF ne] by (simp add: ALPHABET_LEN_def)
      then have "idx ?d1 (int (unat ?c)) = Some ?v1" by (rule idx_int)
      moreover have "idx ?d2 (int j) = Some ?v2"
        using delta2_table_spec(1) [OF ne d2] d2 j by simp
      moreover have "idx s (int (k + j)) = Some ?c" using inb j by (intro idx_int) simp
      moreover have "?v \<le> 2 * ?m"
        using sh(1,3) delta1_table_spec(2) [OF ne, of ?c] by auto
      then have "add_int (int (k + j)) (int ?v) = Some (int k' + int ?m - 1)"
        using k' m inb j fits unfolding add_int_def by (auto simp del: of_nat_add)
      ultimately show ?thesis using c inb m IH
        by (subst bm_loop.simps) (simp del: of_nat_add)
    qed
  qed
qed

lemma boyer_moore_search_spec:
  assumes "length s + 2 * length p < 2 ^ 31"
  shows "boyer_moore_search u s p = Some (first_match s p)"
proof -
  let ?d2 = "map (\<lambda>k. u (ALPHABET_LEN + k)) [0..<length p * 4]"
  have "boyer_moore_search u s p =
      bm_loop s p (delta1_table p) (delta2_table ?d2 p) (int (length p) - 1)"
    by (simp add: boyer_moore_search_def make_delta1_table make_delta2_table)
  also have "\<dots> = Some (first_match s p)"
  proof (cases "p = []")
    case True
    have "first_match s [] = Some 0"
      by (simp add: first_match_Some match_at_def)
    with True show ?thesis
      by (subst bm_loop.simps) (simp add: bm_compare.simps)
  next
    case False
    then show ?thesis
      using bm_loop_spec [of p ?d2 s 0] assms by simp
  qed
  finally show ?thesis .
qed

section \<open>The contract of a pattern search\<close>

text \<open>
  What the callers (the search-and-patch macro and the loader) rely on: the search returns,
  and returns the first match.  A result \<open>None\<close> would be an access outside an array, an
  overflow of an index, or a loop that does not end.
\<close>

locale pattern_search =
  fixes search :: "u8 list \<Rightarrow> u8 list \<Rightarrow> nat option option"
  assumes first: "length s + 2 * length p < 2 ^ 31 \<Longrightarrow> search s p = Some (first_match s p)"
begin

lemma found:
  assumes "length s + 2 * length p < 2 ^ 31" and "search s p = Some (Some k)"
  shows "match_at s p k" "j < k \<Longrightarrow> \<not> match_at s p j" "k + length p \<le> length s"
  using assms first [OF assms(1)] by (auto simp: first_match_Some match_at_def)

lemma absent:
  assumes "length s + 2 * length p < 2 ^ 31"
  shows "search s p = Some None \<longleftrightarrow> (\<forall>k. \<not> match_at s p k)"
  using first [OF assms] by (simp add: first_match_None)

lemma total:
  assumes "length s + 2 * length p < 2 ^ 31"
  shows "\<exists>r. search s p = Some r \<and>
    (case r of None \<Rightarrow> \<forall>k. \<not> match_at s p k
     | Some k \<Rightarrow> match_at s p k \<and> (\<forall>j<k. \<not> match_at s p j))"
  using first [OF assms]
  by (cases "first_match s p") (auto simp: first_match_None first_match_Some)

end

interpretation bm: pattern_search "boyer_moore_search u" for u
  by unfold_locales (rule boyer_moore_search_spec)

text \<open>
  C1. The Boyer-Moore search is totally correct: whatever the uninitialised tables hold, it
  returns without leaving its arrays or overflowing an index, and returns the first place
  the pattern occurs, or not found when there is none.
\<close>

theorem boyer_moore_total:
  assumes "length s + 2 * length p < 2 ^ 31"
  shows "\<exists>r. boyer_moore_search u s p = Some r \<and>
    (case r of None \<Rightarrow> \<forall>k. \<not> match_at s p k
     | Some k \<Rightarrow> match_at s p k \<and> (\<forall>j<k. \<not> match_at s p j))"
  using assms by (rule bm.total)

theorem boyer_moore_total_witness:
  "\<exists>r. boyer_moore_search (\<lambda>_. 7) [1, 2, 1, 2, 3] [1, 2, 3] = Some r \<and>
    (case r of None \<Rightarrow> \<forall>k. \<not> match_at [1 :: u8, 2, 1, 2, 3] [1, 2, 3] k
     | Some k \<Rightarrow> match_at [1 :: u8, 2, 1, 2, 3] [1, 2, 3] k \<and>
         (\<forall>j<k. \<not> match_at [1 :: u8, 2, 1, 2, 3] [1, 2, 3] j))"
  by (rule boyer_moore_total) simp

end
