(* ===== verification/IosElf.thy ===== *)
theory IosElf
  imports Machine
begin

text \<open>
  \<^verbatim>\<open>wafel_core/source/ios_dynamic.c\<close>: the program headers and notes of the IOS image,
  which the loader leaves at \<^verbatim>\<open>0x1D000000\<close>.  The table of \<^verbatim>\<open>Elf32_Phdr\<close> entries starts
  there, its own size is in entry 0, and the notes segment, described by entry 1,
  follows it.  The functions work on these bytes of memory directly; the record
  \<open>phdr\<close> is the decoded form of an entry.
\<close>

section \<open>The structures\<close>

record phdr =
  p_type :: u32
  p_offset :: u32
  p_vaddr :: u32
  p_paddr :: u32
  p_filesz :: u32
  p_memsz :: u32
  p_flags :: u32
  p_align :: u32

definition IPX_ELF_MAGIC :: u32 where "IPX_ELF_MAGIC = 0x7F454C46"

definition IOS_SEG_PHDRS :: nat where "IOS_SEG_PHDRS = 0"
definition IOS_SEG_NOTES :: nat where "IOS_SEG_NOTES = 1"
definition IOS_SEG_ELFINFO :: nat where "IOS_SEG_ELFINFO = 2"

definition UID_INVALID :: u32 where "UID_INVALID = 0xFFFFFFFF"
definition IOS_RWX :: u32 where "IOS_RWX = 7"

definition IOS_PHDR_FLAGS :: "u32 \<Rightarrow> u32 \<Rightarrow> u32" where
  "IOS_PHDR_FLAGS perms uid = perms OR push_bit 20 uid"

datatype ios_uid =
    IOS_KERNEL | IOS_MCP | IOS_BSP | IOS_CRYPTO | IOS_USB | IOS_FS | IOS_PAD | IOS_NET
  | IOS_ACP | IOS_NSEC | IOS_AUXIL | IOS_NIM_BOSS | IOS_FPD | IOS_TEST | COS_KERNEL
  | COS_ROOT | COS_02 | COS_03 | COS_OVERLAY | COS_HBM | COS_ERROR | COS_MASTER

fun uid_val :: "ios_uid \<Rightarrow> u32" where
  "uid_val IOS_KERNEL = 0" | "uid_val IOS_MCP = 1" | "uid_val IOS_BSP = 2"
| "uid_val IOS_CRYPTO = 3" | "uid_val IOS_USB = 4" | "uid_val IOS_FS = 5"
| "uid_val IOS_PAD = 6" | "uid_val IOS_NET = 7" | "uid_val IOS_ACP = 8"
| "uid_val IOS_NSEC = 9" | "uid_val IOS_AUXIL = 10" | "uid_val IOS_NIM_BOSS = 11"
| "uid_val IOS_FPD = 12" | "uid_val IOS_TEST = 13" | "uid_val COS_KERNEL = 14"
| "uid_val COS_ROOT = 15" | "uid_val COS_02 = 16" | "uid_val COS_03 = 17"
| "uid_val COS_OVERLAY = 18" | "uid_val COS_HBM = 19" | "uid_val COS_ERROR = 20"
| "uid_val COS_MASTER = 21"

text \<open>Tags of the auxiliary vector (\<^verbatim>\<open>elf.h\<close>), and the size of an \<^verbatim>\<open>Elf32_Phdr\<close>.\<close>

definition AT_ENTRY :: u32 where "AT_ENTRY = 9"
definition AT_UID :: u32 where "AT_UID = 11"
definition PHDR_SZ :: nat where "PHDR_SZ = 32"

definition PHDRS :: u32 where "PHDRS = 0x1D000000"

text \<open>The address of the field at byte \<open>off\<close> of entry \<open>i\<close>: \<^verbatim>\<open>&phdrs[i].field\<close>.\<close>

definition phdr_addr :: "nat \<Rightarrow> nat \<Rightarrow> u32" where
  "phdr_addr i off = PHDRS + of_nat (PHDR_SZ * i + off)"

definition phdr_fld :: "mem \<Rightarrow> nat \<Rightarrow> nat \<Rightarrow> u32" where
  "phdr_fld m i off = read32 m (phdr_addr i off)"

definition P_TYPE :: nat where "P_TYPE = 0"
definition P_OFFSET :: nat where "P_OFFSET = 4"
definition P_VADDR :: nat where "P_VADDR = 8"
definition P_PADDR :: nat where "P_PADDR = 12"
definition P_FILESZ :: nat where "P_FILESZ = 16"
definition P_MEMSZ :: nat where "P_MEMSZ = 20"
definition P_FLAGS :: nat where "P_FLAGS = 24"
definition P_ALIGN :: nat where "P_ALIGN = 28"

lemmas phdr_offsets [layout_simps] =
  P_TYPE_def P_OFFSET_def P_VADDR_def P_PADDR_def P_FILESZ_def P_MEMSZ_def P_FLAGS_def
  P_ALIGN_def PHDR_SZ_def IOS_SEG_PHDRS_def IOS_SEG_NOTES_def IOS_SEG_ELFINFO_def

definition phdr_get :: "mem \<Rightarrow> nat \<Rightarrow> phdr" where
  "phdr_get m i =
     \<lparr> p_type = phdr_fld m i P_TYPE, p_offset = phdr_fld m i P_OFFSET,
       p_vaddr = phdr_fld m i P_VADDR, p_paddr = phdr_fld m i P_PADDR,
       p_filesz = phdr_fld m i P_FILESZ, p_memsz = phdr_fld m i P_MEMSZ,
       p_flags = phdr_fld m i P_FLAGS, p_align = phdr_fld m i P_ALIGN \<rparr>"

definition phdr_upd :: "mem \<Rightarrow> nat \<Rightarrow> nat \<Rightarrow> (u32 \<Rightarrow> u32) \<Rightarrow> mem" where
  "phdr_upd m i off f = write32 m (phdr_addr i off) (f (phdr_fld m i off))"

definition num_phdrs :: "mem \<Rightarrow> nat" where
  "num_phdrs m = unat (phdr_fld m IOS_SEG_PHDRS P_MEMSZ) div PHDR_SZ"

section \<open>The operations\<close>

text \<open>\<^verbatim>\<open>ios_elf_vaddr_to_paddr\<close>; an address in no segment is returned unchanged.\<close>

definition in_segment :: "mem \<Rightarrow> u32 \<Rightarrow> nat \<Rightarrow> bool" where
  "in_segment m addr i \<longleftrightarrow> phdr_fld m i P_VADDR \<le> addr \<and>
     addr \<le> phdr_fld m i P_VADDR + phdr_fld m i P_MEMSZ"

function vaddr_loop :: "mem \<Rightarrow> u32 \<Rightarrow> nat \<Rightarrow> nat \<Rightarrow> u32" where
  "vaddr_loop m addr n i =
     (if i < n then
        if in_segment m addr i then addr - phdr_fld m i P_VADDR + phdr_fld m i P_PADDR
        else vaddr_loop m addr n (Suc i)
      else addr)"
  by pat_completeness auto
termination
  by (relation "measure (\<lambda>(m, addr, n, i). n - i)") auto

definition ios_elf_vaddr_to_paddr :: "mem \<Rightarrow> u32 \<Rightarrow> u32" where
  "ios_elf_vaddr_to_paddr m addr = vaddr_loop m addr (num_phdrs m) IOS_SEG_ELFINFO"

text \<open>\<^verbatim>\<open>ios_elf_add_phdr\<close>: the new memory and the index of the entry that was opened.\<close>

function add_phdr_pos :: "mem \<Rightarrow> u32 \<Rightarrow> nat \<Rightarrow> nat \<Rightarrow> nat" where
  "add_phdr_pos m addr n i =
     (if i < n then if addr < phdr_fld m i P_VADDR then i else add_phdr_pos m addr n (Suc i)
      else i)"
  by pat_completeness auto
termination
  by (relation "measure (\<lambda>(m, addr, n, i). n - i)") auto

declare vaddr_loop.simps [simp del] add_phdr_pos.simps [simp del]

definition ios_elf_add_phdr :: "mem \<Rightarrow> u32 \<Rightarrow> mem \<times> nat" where
  "ios_elf_add_phdr m addr =
     (let n = num_phdrs m;
          i = add_phdr_pos m addr n IOS_SEG_ELFINFO;
          notes = phdr_fld m IOS_SEG_NOTES P_VADDR;
          m = memmove m (notes + of_nat PHDR_SZ) notes (unat (phdr_fld m IOS_SEG_NOTES P_MEMSZ));
          m = phdr_upd m IOS_SEG_NOTES P_VADDR (\<lambda>v. v + of_nat PHDR_SZ);
          m = phdr_upd m IOS_SEG_NOTES P_PADDR (\<lambda>v. v + of_nat PHDR_SZ);
          m = memmove m (phdr_addr (i + 1) 0) (phdr_addr i 0)
                (unat ((of_nat n - of_nat i) * of_nat PHDR_SZ :: u32));
          m = phdr_upd m IOS_SEG_PHDRS P_MEMSZ (\<lambda>v. v + of_nat PHDR_SZ);
          m = phdr_upd m IOS_SEG_PHDRS P_FILESZ (\<lambda>v. v + of_nat PHDR_SZ);
          m = phdr_upd m IOS_SEG_ELFINFO P_FILESZ (\<lambda>v. v + of_nat PHDR_SZ)
      in (m, i))"

definition ios_elf_get_notes :: "mem \<Rightarrow> u32" where
  "ios_elf_get_notes m = phdr_fld m IOS_SEG_NOTES P_VADDR"

text \<open>
  \<^verbatim>\<open>ios_elf_get_module_entrypoint\<close>.  The notes begin with an \<^verbatim>\<open>Elf32_Nhdr\<close> of twelve
  bytes, whose second word is the size of the (type, value) pairs that follow.
\<close>

definition note_entry :: "mem \<Rightarrow> u32 \<Rightarrow> nat \<Rightarrow> u32 \<times> u32" where
  "note_entry m notes i =
     (read32 m (notes + of_nat (12 + 8 * i)), read32 m (notes + of_nat (16 + 8 * i)))"

fun entry_loop :: "u32 \<Rightarrow> u32 \<Rightarrow> (u32 \<times> u32) list \<Rightarrow> u32" where
  "entry_loop uid cur_uid [] = 0"
| "entry_loop uid cur_uid ((t, v) # es) =
     (let cur_uid = (if t = AT_UID then v else cur_uid)
      in if t = AT_ENTRY \<and> cur_uid = uid then v else entry_loop uid cur_uid es)"

definition ios_elf_get_module_entrypoint :: "mem \<Rightarrow> u32 \<Rightarrow> u32" where
  "ios_elf_get_module_entrypoint m uid =
     (let notes = ios_elf_get_notes m; num_entries = unat (read32 m (notes + 4)) div 8
      in entry_loop uid UID_INVALID (map (note_entry m notes) [0..<num_entries]))"

section \<open>Fields of the table under updates\<close>

definition field_off :: "nat \<Rightarrow> bool" where
  "field_off p \<longleftrightarrow> p < PHDR_SZ \<and> 4 dvd p"

lemma field_offs [simp]:
  "field_off P_TYPE" "field_off P_OFFSET" "field_off P_VADDR" "field_off P_PADDR"
  "field_off P_FILESZ" "field_off P_MEMSZ" "field_off P_FLAGS" "field_off P_ALIGN"
  by (auto simp: field_off_def layout_simps)

lemma offs_distinct [simp]:
  "P_VADDR \<noteq> P_PADDR" "P_VADDR \<noteq> P_FILESZ" "P_VADDR \<noteq> P_MEMSZ"
  "P_PADDR \<noteq> P_VADDR" "P_PADDR \<noteq> P_FILESZ" "P_PADDR \<noteq> P_MEMSZ"
  "P_FILESZ \<noteq> P_VADDR" "P_FILESZ \<noteq> P_PADDR" "P_FILESZ \<noteq> P_MEMSZ"
  "P_MEMSZ \<noteq> P_VADDR" "P_MEMSZ \<noteq> P_PADDR" "P_MEMSZ \<noteq> P_FILESZ"
  by (simp_all add: layout_simps)

lemmas seg_simps = IOS_SEG_PHDRS_def IOS_SEG_NOTES_def IOS_SEG_ELFINFO_def

lemma field_disjoint:
  assumes "field_off p" "field_off q" and "i < 2 ^ 20" "j < 2 ^ 20" and "i \<noteq> j \<or> p \<noteq> q"
  shows "disjoint_regions (phdr_addr i p) 4 (phdr_addr j q) 4"
proof -
  obtain a b where pq: "p = 4 * a" "q = 4 * b" "a < 8" "b < 8"
    using assms by (auto simp: field_off_def layout_simps elim!: dvdE)
  have "i \<noteq> j \<or> a \<noteq> b" using assms(5) pq by auto
  then have "8 * i + a < 8 * j + b \<or> 8 * j + b < 8 * i + a"
    using pq(3,4) by presburger
  then have "32 * i + p + 4 \<le> 32 * j + q \<or> 32 * j + q + 4 \<le> 32 * i + p"
    unfolding pq(1,2) by linarith
  then show ?thesis
    unfolding phdr_addr_def using assms
    by (intro disjoint_nat) (auto simp: layout_simps field_off_def)
qed

lemma phdr_fld_upd:
  assumes "field_off p" "field_off q" and "i < 2 ^ 20" "j < 2 ^ 20"
  shows "phdr_fld (phdr_upd m i p f) j q =
    (if i = j \<and> p = q then f (phdr_fld m i p) else phdr_fld m j q)"
  using field_disjoint [OF assms]
  by (auto simp: phdr_upd_def phdr_fld_def read32_write32_other)

text \<open>A block moved to a place behind entry \<open>j\<close> leaves the entry alone.\<close>

lemma phdr_fld_memmove_behind:
  assumes "field_off q" "j < k" "k < 2 ^ 20" "n \<le> 2 ^ 26"
  shows "phdr_fld (memmove m (phdr_addr k 0) src n) j q = phdr_fld m j q"
  unfolding phdr_fld_def phdr_addr_def using assms
  by (intro read32_memmove_other) (subst disjoint_sym, intro disjoint_nat,
      auto simp: layout_simps field_off_def)

text \<open>Moving entries \<open>i..n-1\<close> up by one.\<close>

lemma phdr_fld_shift:
  assumes "field_off q" "i < j" "j \<le> n" "n < 2 ^ 20"
  shows "phdr_fld (memmove m (phdr_addr (i + 1) 0) (phdr_addr i 0) (PHDR_SZ * (n - i))) j q
    = phdr_fld m (j - 1) q"
proof -
  let ?d = "PHDR_SZ * (j - i - 1) + q"
  have d: "?d + 4 \<le> PHDR_SZ * (n - i)" "?d < 2 ^ 26" "PHDR_SZ * (n - i) < 2 ^ 26"
  proof -
    have "q + 4 \<le> 32" using assms(1) by (auto simp: field_off_def layout_simps elim!: dvdE)
    moreover have "PHDR_SZ * (j - i - 1) + PHDR_SZ = PHDR_SZ * (j - i)"
      using assms by (simp add: layout_simps)
    moreover have "PHDR_SZ * (j - i) \<le> PHDR_SZ * (n - i)"
      using assms by (simp add: layout_simps)
    moreover have "PHDR_SZ * (n - i) < 2 ^ 26" using assms by (simp add: layout_simps)
    ultimately show "?d + 4 \<le> PHDR_SZ * (n - i)" "?d < 2 ^ 26" "PHDR_SZ * (n - i) < 2 ^ 26"
      by (simp_all add: layout_simps)
  qed
  have n1: "PHDR_SZ * (j - 1) + q = PHDR_SZ * i + ?d"
    and n2: "PHDR_SZ * j + q = PHDR_SZ * (i + 1) + ?d"
    using assms by (simp_all add: layout_simps)
  have src: "phdr_addr (j - 1) q = phdr_addr i 0 + of_nat ?d"
    and dst: "phdr_addr j q = phdr_addr (i + 1) 0 + of_nat ?d"
    by (simp_all only: phdr_addr_def n1 n2 of_nat_add add_0_right add.assoc)
  show ?thesis
    unfolding phdr_fld_def src dst using d
    by (intro read32_memmove) (simp_all add: unat_of_nat_u32 del: of_nat_add of_nat_mult)
qed

section \<open>Opening an entry\<close>

text \<open>
  The layout the loader leaves and every insertion keeps: the size in entry 0 is that of
  \<open>n\<close> entries, and the notes follow the table.  The bounds only exclude tables that would
  wrap around the address space.
\<close>

definition phdr_layout :: "mem \<Rightarrow> nat \<Rightarrow> bool" where
  "phdr_layout m n \<longleftrightarrow> 3 \<le> n \<and> n < 2 ^ 16 \<and>
     phdr_fld m IOS_SEG_PHDRS P_MEMSZ = of_nat (PHDR_SZ * n) \<and>
     phdr_fld m IOS_SEG_NOTES P_VADDR = phdr_addr n 0 \<and>
     unat (phdr_fld m IOS_SEG_NOTES P_MEMSZ) < 2 ^ 24"

lemma num_phdrs_layout: "phdr_layout m n \<Longrightarrow> num_phdrs m = n"
  by (simp add: num_phdrs_def phdr_layout_def layout_simps unat_of_nat
      del: of_nat_mult)

lemma add_phdr_pos_spec:
  assumes "i \<le> n"
  shows "i \<le> add_phdr_pos m addr n i \<and> add_phdr_pos m addr n i \<le> n \<and>
    (\<forall>j. i \<le> j \<and> j < add_phdr_pos m addr n i \<longrightarrow> phdr_fld m j P_VADDR \<le> addr) \<and>
    (add_phdr_pos m addr n i < n \<longrightarrow> addr < phdr_fld m (add_phdr_pos m addr n i) P_VADDR)"
  using assms
proof (induction m addr n i rule: add_phdr_pos.induct)
  case (1 m addr n i)
  let ?r = "add_phdr_pos m addr n"
  show ?case
  proof (cases "i < n \<and> \<not> addr < phdr_fld m i P_VADDR")
    case True
    then have eq: "?r i = ?r (Suc i)" by (simp add: add_phdr_pos.simps [of m addr n i])
    have IH: "Suc i \<le> ?r (Suc i)" "?r (Suc i) \<le> n"
      "\<And>j. Suc i \<le> j \<Longrightarrow> j < ?r (Suc i) \<Longrightarrow> phdr_fld m j P_VADDR \<le> addr"
      "?r (Suc i) < n \<Longrightarrow> addr < phdr_fld m (?r (Suc i)) P_VADDR"
      using "1.IH" True by auto
    have "phdr_fld m j P_VADDR \<le> addr" if "i \<le> j" "j < ?r (Suc i)" for j
      using that True IH(3) [of j] by (cases "j = i") auto
    with IH eq show ?thesis by simp
  next
    case False
    then have "?r i = i" by (simp add: add_phdr_pos.simps [of m addr n i])
    with False "1.prems" show ?thesis by auto
  qed
qed

text \<open>
  The increments the insertion makes to the fields of the first three entries, after the
  entries from \<open>i\<close> on have moved.
\<close>

definition phdr_bump :: "nat \<Rightarrow> nat \<Rightarrow> u32" where
  "phdr_bump j p =
     (if j = IOS_SEG_PHDRS \<and> (p = P_MEMSZ \<or> p = P_FILESZ) \<or>
         j = IOS_SEG_NOTES \<and> (p = P_VADDR \<or> p = P_PADDR) \<or>
         j = IOS_SEG_ELFINFO \<and> p = P_FILESZ
      then of_nat PHDR_SZ else 0)"

text \<open>The insertion as the sequence of its stores, over a table that has the layout.\<close>

lemma add_phdr_stages:
  assumes lay: "phdr_layout m n" and add: "ios_elf_add_phdr m addr = (m', i)"
  obtains m1 m3 m4 where
    "2 \<le> i" "i \<le> n" "n < 2 ^ 16" "i = add_phdr_pos m addr n IOS_SEG_ELFINFO"
    "m1 = memmove m (phdr_addr (n + 1) 0) (phdr_addr n 0)
            (unat (phdr_fld m IOS_SEG_NOTES P_MEMSZ))"
    "m3 = phdr_upd (phdr_upd m1 IOS_SEG_NOTES P_VADDR (\<lambda>v. v + of_nat PHDR_SZ))
            IOS_SEG_NOTES P_PADDR (\<lambda>v. v + of_nat PHDR_SZ)"
    "m4 = memmove m3 (phdr_addr (i + 1) 0) (phdr_addr i 0) (PHDR_SZ * (n - i))"
    "m' = phdr_upd (phdr_upd (phdr_upd m4 IOS_SEG_PHDRS P_MEMSZ (\<lambda>v. v + of_nat PHDR_SZ))
      IOS_SEG_PHDRS P_FILESZ (\<lambda>v. v + of_nat PHDR_SZ))
      IOS_SEG_ELFINFO P_FILESZ (\<lambda>v. v + of_nat PHDR_SZ)"
proof -
  let ?notes = "phdr_fld m IOS_SEG_NOTES P_VADDR"
  let ?n1 = "unat (phdr_fld m IOS_SEG_NOTES P_MEMSZ)"
  define m1 where "m1 = memmove m (?notes + of_nat PHDR_SZ) ?notes ?n1"
  define m3 where "m3 = phdr_upd (phdr_upd m1 IOS_SEG_NOTES P_VADDR (\<lambda>v. v + of_nat PHDR_SZ))
            IOS_SEG_NOTES P_PADDR (\<lambda>v. v + of_nat PHDR_SZ)"
  define m4 where "m4 = memmove m3 (phdr_addr (i + 1) 0) (phdr_addr i 0) (PHDR_SZ * (n - i))"
  have i: "2 \<le> i" "i \<le> n" "i = add_phdr_pos m addr n IOS_SEG_ELFINFO" and n: "n < 2 ^ 16"
    using add_phdr_pos_spec [of IOS_SEG_ELFINFO n m addr] add lay num_phdrs_layout [OF lay]
    by (auto simp: ios_elf_add_phdr_def Let_def phdr_layout_def layout_simps)
  have sz: "unat ((of_nat n - of_nat i) * of_nat PHDR_SZ :: u32) = PHDR_SZ * (n - i)"
  proof -
    have "(of_nat n - of_nat i) * of_nat PHDR_SZ = (of_nat (PHDR_SZ * (n - i)) :: u32)"
      using i by (simp add: of_nat_diff mult.commute)
    moreover have "PHDR_SZ * (n - i) < 2 ^ 32" using n by (simp add: layout_simps)
    ultimately show ?thesis by (simp only: unat_of_nat_u32)
  qed
  have m': "m' = phdr_upd (phdr_upd (phdr_upd m4 IOS_SEG_PHDRS P_MEMSZ (\<lambda>v. v + of_nat PHDR_SZ))
      IOS_SEG_PHDRS P_FILESZ (\<lambda>v. v + of_nat PHDR_SZ))
      IOS_SEG_ELFINFO P_FILESZ (\<lambda>v. v + of_nat PHDR_SZ)"
    using add num_phdrs_layout [OF lay] sz
    by (auto simp: ios_elf_add_phdr_def Let_def m1_def m3_def m4_def)
  have nt: "?notes + of_nat PHDR_SZ = phdr_addr (n + 1) 0" "?notes = phdr_addr n 0"
    using lay by (simp_all add: phdr_layout_def phdr_addr_def algebra_simps)
  show thesis
    using that [of m1 m3 m4] i n m' m3_def m4_def m1_def [unfolded nt(1), unfolded nt(2)] by blast
qed

lemma add_phdr_fld:
  assumes lay: "phdr_layout m n" and add: "ios_elf_add_phdr m addr = (m', i)"
    and q: "field_off q" and j: "j \<le> n" "j \<noteq> i"
  shows "phdr_fld m' j q = phdr_fld m (if j < i then j else j - 1) q + phdr_bump j q"
proof -
  obtain m1 m3 m4 where i: "2 \<le> i" "i \<le> n" and n: "n < 2 ^ 16"
    and m1: "m1 = memmove m (phdr_addr (n + 1) 0) (phdr_addr n 0)
            (unat (phdr_fld m IOS_SEG_NOTES P_MEMSZ))"
    and m3: "m3 = phdr_upd (phdr_upd m1 IOS_SEG_NOTES P_VADDR (\<lambda>v. v + of_nat PHDR_SZ))
            IOS_SEG_NOTES P_PADDR (\<lambda>v. v + of_nat PHDR_SZ)"
    and m4: "m4 = memmove m3 (phdr_addr (i + 1) 0) (phdr_addr i 0) (PHDR_SZ * (n - i))"
    and m': "m' = phdr_upd (phdr_upd (phdr_upd m4 IOS_SEG_PHDRS P_MEMSZ (\<lambda>v. v + of_nat PHDR_SZ))
      IOS_SEG_PHDRS P_FILESZ (\<lambda>v. v + of_nat PHDR_SZ))
      IOS_SEG_ELFINFO P_FILESZ (\<lambda>v. v + of_nat PHDR_SZ)"
    by (rule add_phdr_stages [OF lay add]) blast
  have f1: "phdr_fld m1 k p = phdr_fld m k p" if "field_off p" "k \<le> n" for k p
    unfolding m1 using that n lay
    by (intro phdr_fld_memmove_behind) (auto simp: phdr_layout_def)
  have f3: "phdr_fld m3 k p = phdr_fld m k p +
      (if k = IOS_SEG_NOTES \<and> (p = P_VADDR \<or> p = P_PADDR) then of_nat PHDR_SZ else 0)"
    if "field_off p" "k \<le> n" for k p
    using that n f1 [of p k] by (auto simp: m3 phdr_fld_upd seg_simps)
  have bd: "PHDR_SZ * (n - i) \<le> 2 ^ 26" using n by (simp add: layout_simps)
  have f4: "phdr_fld m4 j q = phdr_fld m3 (if j < i then j else j - 1) q"
  proof (cases "j < i")
    case True
    then show ?thesis
      unfolding m4 using i n bd by (simp add: phdr_fld_memmove_behind [OF q])
  next
    case False
    then show ?thesis
      unfolding m4 using phdr_fld_shift [OF q, of i j n m3] j i n by simp
  qed
  show ?thesis
    using f3 [OF q, of "if j < i then j else j - 1"] i j n q f4
    by (auto simp: m' phdr_fld_upd phdr_bump_def seg_simps)
qed

text \<open>Stores to the table leave the bytes behind it alone.\<close>

lemma phdr_upd_outside:
  assumes "field_off p" "j < k" "k < 2 ^ 20" "PHDR_SZ * k \<le> adist PHDRS x"
  shows "phdr_upd m j p f x = m x"
proof -
  let ?o = "PHDR_SZ * j + p"
  have o: "?o + 4 \<le> PHDR_SZ * k"
    using assms(1,2) by (auto simp: field_off_def layout_simps elim!: dvdE)
  then have "adist (PHDRS + of_nat ?o) x = adist PHDRS x - ?o"
    using assms(4) by (intro adist_offset) simp
  with o assms(4) show ?thesis
    unfolding phdr_upd_def phdr_addr_def by (intro write32_other) simp
qed

lemma memmove_outside:
  assumes "PHDR_SZ * j + n \<le> adist PHDRS x"
  shows "memmove m (phdr_addr j 0) src n x = m x"
proof -
  have "adist (PHDRS + of_nat (PHDR_SZ * j)) x = adist PHDRS x - PHDR_SZ * j"
    using assms by (intro adist_offset) simp
  with assms show ?thesis
    unfolding phdr_addr_def add_0_right by (intro memmove_other) simp
qed

lemma add_phdr_outside:
  assumes lay: "phdr_layout m n" and add: "ios_elf_add_phdr m addr = (m', i)"
    and x: "PHDR_SZ * (n + 1) \<le> adist PHDRS x"
  shows "m' x = memmove m (phdr_addr (n + 1) 0) (phdr_addr n 0)
           (unat (phdr_fld m IOS_SEG_NOTES P_MEMSZ)) x"
proof -
  obtain m1 m3 m4 where i: "2 \<le> i" "i \<le> n" and n: "n < 2 ^ 16"
    and m1: "m1 = memmove m (phdr_addr (n + 1) 0) (phdr_addr n 0)
            (unat (phdr_fld m IOS_SEG_NOTES P_MEMSZ))"
    and m3: "m3 = phdr_upd (phdr_upd m1 IOS_SEG_NOTES P_VADDR (\<lambda>v. v + of_nat PHDR_SZ))
            IOS_SEG_NOTES P_PADDR (\<lambda>v. v + of_nat PHDR_SZ)"
    and m4: "m4 = memmove m3 (phdr_addr (i + 1) 0) (phdr_addr i 0) (PHDR_SZ * (n - i))"
    and m': "m' = phdr_upd (phdr_upd (phdr_upd m4 IOS_SEG_PHDRS P_MEMSZ (\<lambda>v. v + of_nat PHDR_SZ))
      IOS_SEG_PHDRS P_FILESZ (\<lambda>v. v + of_nat PHDR_SZ))
      IOS_SEG_ELFINFO P_FILESZ (\<lambda>v. v + of_nat PHDR_SZ)"
    by (rule add_phdr_stages [OF lay add]) blast
  have n1: "n + 1 < 2 ^ 20" using n by simp
  have eq: "PHDR_SZ * (i + 1) + PHDR_SZ * (n - i) = PHDR_SZ * (n + 1)"
    using i by (simp add: layout_simps)
  have out: "phdr_upd mm j p f x = mm x" if "field_off p" "j < n + 1" for mm j p f
    by (rule phdr_upd_outside [OF that n1 x])
  have ix: "IOS_SEG_PHDRS < n + 1" "IOS_SEG_NOTES < n + 1" "IOS_SEG_ELFINFO < n + 1"
    using i by (simp_all add: seg_simps)
  have "m4 x = m3 x" unfolding m4 using eq x by (intro memmove_outside) simp
  then show ?thesis using ix by (simp add: m' m3 m1 out)
qed

lemma phdr_addr_Suc: "phdr_addr (n + 1) 0 = phdr_addr n 0 + of_nat PHDR_SZ"
  by (simp add: phdr_addr_def algebra_simps)

lemma adist_behind_table:
  assumes "n < 2 ^ 17" "k < 2 ^ 25"
  shows "adist PHDRS (phdr_addr n 0 + of_nat k) = PHDR_SZ * n + k"
proof -
  have "phdr_addr n 0 + of_nat k - PHDRS = of_nat (PHDR_SZ * n + k)"
    by (simp add: phdr_addr_def)
  moreover have "PHDR_SZ * n + k < 2 ^ 32" using assms by (simp add: layout_simps)
  ultimately show ?thesis by (simp only: unat_of_nat_u32)
qed

lemma add_phdr_notes:
  assumes lay: "phdr_layout m n" and add: "ios_elf_add_phdr m addr = (m', i)"
    and k: "k < unat (phdr_fld m IOS_SEG_NOTES P_MEMSZ)"
  shows "m' (phdr_addr (n + 1) 0 + of_nat k) = m (phdr_addr n 0 + of_nat k)"
proof -
  have n: "n + 1 < 2 ^ 17" and k2: "k < 2 ^ 25"
    using lay k by (simp_all add: phdr_layout_def)
  have "m' (phdr_addr (n + 1) 0 + of_nat k) = memmove m (phdr_addr (n + 1) 0) (phdr_addr n 0)
           (unat (phdr_fld m IOS_SEG_NOTES P_MEMSZ)) (phdr_addr (n + 1) 0 + of_nat k)"
    using adist_behind_table [OF n k2]
    by (intro add_phdr_outside [OF lay add]) (simp del: of_nat_add of_nat_mult)
  then show ?thesis
    using k k2 by (simp add: memmove_def unat_of_nat_u32)
qed

lemma add_phdr_layout:
  assumes lay: "phdr_layout m n" and add: "ios_elf_add_phdr m addr = (m', i)"
    and n: "n + 1 < 2 ^ 16"
  shows "phdr_layout m' (n + 1)"
proof -
  have i: "2 \<le> i"
    by (rule add_phdr_stages [OF lay add])
  note f = add_phdr_fld [OF lay add]
  have "phdr_fld m' IOS_SEG_PHDRS P_MEMSZ
      = phdr_fld m IOS_SEG_PHDRS P_MEMSZ + of_nat PHDR_SZ"
    "phdr_fld m' IOS_SEG_NOTES P_VADDR
      = phdr_fld m IOS_SEG_NOTES P_VADDR + of_nat PHDR_SZ"
    "phdr_fld m' IOS_SEG_NOTES P_MEMSZ = phdr_fld m IOS_SEG_NOTES P_MEMSZ"
    using i lay f [of P_MEMSZ IOS_SEG_PHDRS] f [of P_VADDR IOS_SEG_NOTES]
      f [of P_MEMSZ IOS_SEG_NOTES]
    by (simp_all add: phdr_bump_def seg_simps phdr_layout_def)
  then show ?thesis
    using lay n unfolding phdr_layout_def phdr_addr_Suc by (simp add: algebra_simps)
qed

text \<open>The virtual addresses stay sorted once the caller has filled in the opened entry.\<close>

definition vaddr_sorted :: "mem \<Rightarrow> nat \<Rightarrow> bool" where
  "vaddr_sorted m n \<longleftrightarrow>
     (\<forall>j<n. \<forall>k<j. IOS_SEG_ELFINFO \<le> k \<longrightarrow> phdr_fld m k P_VADDR \<le> phdr_fld m j P_VADDR)"

lemma add_phdr_sorted:
  assumes lay: "phdr_layout m n" and add: "ios_elf_add_phdr m addr = (m', i)"
    and srt: "vaddr_sorted m n"
  shows "vaddr_sorted (write32 m' (phdr_addr i P_VADDR) addr) (n + 1)"
proof -
  obtain i: "2 \<le> i" "i \<le> n" "n < 2 ^ 16" "i = add_phdr_pos m addr n IOS_SEG_ELFINFO"
    by (rule add_phdr_stages [OF lay add])
  have below: "phdr_fld m j P_VADDR \<le> addr" if "2 \<le> j" "j < i" for j
    using add_phdr_pos_spec [of IOS_SEG_ELFINFO n m addr] that i by (simp add: seg_simps)
  have above: "addr < phdr_fld m j P_VADDR" if "i \<le> j" "j < n" for j
  proof -
    have "addr < phdr_fld m i P_VADDR"
      using add_phdr_pos_spec [of IOS_SEG_ELFINFO n m addr] that i by (simp add: seg_simps)
    also have "\<dots> \<le> phdr_fld m j P_VADDR"
      using srt that i by (cases "j = i") (auto simp: vaddr_sorted_def seg_simps)
    finally show ?thesis .
  qed
  let ?v = "\<lambda>j. phdr_fld (write32 m' (phdr_addr i P_VADDR) addr) j P_VADDR"
  have v: "?v j = (if j = i then addr else phdr_fld m (if j < i then j else j - 1) P_VADDR)"
    if "2 \<le> j" "j \<le> n" for j
    using that i add_phdr_fld [OF lay add, of P_VADDR j]
      phdr_fld_upd [of P_VADDR P_VADDR i j m' "\<lambda>_. addr"]
    by (auto simp: phdr_upd_def phdr_bump_def seg_simps)
  have "?v k \<le> ?v j" if "2 \<le> k" "k < j" "j < n + 1" for j k
  proof -
    have kj: "2 \<le> j" "j \<le> n" "k \<le> n" using that by simp_all
    consider "j < i" | "j = i" | "k < i" "i < j" | "k = i" "i < j" | "i < k"
      using that by linarith
    then show ?thesis
      using srt that below [of k] above [of "j - 1"] i
      unfolding v [OF that(1) kj(3)] v [OF kj(1,2)]
      by cases (auto simp: vaddr_sorted_def seg_simps intro: less_imp_le)
  qed
  then show ?thesis by (simp add: vaddr_sorted_def seg_simps)
qed

section \<open>Looking up the entry point of a module\<close>

text \<open>What the loop finds: the entry point of the last identifier that precedes it.\<close>

lemma entry_loop_hit:
  "entry_loop uid cur ((AT_UID, uid) # (AT_ENTRY, v) # es) = v"
  by (simp add: AT_ENTRY_def AT_UID_def)

lemma entry_loop_other:
  assumes "\<forall>(t, v) \<in> set es. t = AT_UID \<longrightarrow> v \<noteq> uid" and "cur \<noteq> uid"
  shows "\<exists>cur'. cur' \<noteq> uid \<and> entry_loop uid cur (es @ fs) = entry_loop uid cur' fs"
  using assms
proof (induction es arbitrary: cur)
  case Nil
  then show ?case by auto
next
  case (Cons e es)
  obtain t v where e: "e = (t, v)" by force
  have "\<exists>cur'. cur' \<noteq> uid \<and>
    entry_loop uid (if t = AT_UID then v else cur) (es @ fs) = entry_loop uid cur' fs"
    using Cons.prems by (intro Cons.IH) (auto simp: e)
  then show ?case
    using Cons.prems by (auto simp: e Let_def)
qed

lemma note_read32:
  assumes "\<And>k. k < len \<Longrightarrow> m' (b' + of_nat k) = m (b + of_nat k)"
    and "o' + 4 \<le> len"
  shows "read32 m' (b' + of_nat o') = read32 m (b + of_nat o')"
  using assms(1) [of o'] assms(1) [of "o' + 1"] assms(1) [of "o' + 2"] assms(1) [of "o' + 3"]
    assms(2)
  by (simp add: read32_def add.assoc add.commute add.left_commute)

definition notes_wf :: "mem \<Rightarrow> bool" where
  "notes_wf m \<longleftrightarrow> 12 + unat (read32 m (ios_elf_get_notes m + 4))
     \<le> unat (phdr_fld m IOS_SEG_NOTES P_MEMSZ)"

lemma module_entrypoint_add_phdr:
  assumes lay: "phdr_layout m n" and add: "ios_elf_add_phdr m addr = (m', i)"
    and n: "n + 1 < 2 ^ 16" and wf: "notes_wf m"
  shows "ios_elf_get_module_entrypoint m' uid = ios_elf_get_module_entrypoint m uid"
proof -
  let ?len = "unat (phdr_fld m IOS_SEG_NOTES P_MEMSZ)"
  have b: "ios_elf_get_notes m = phdr_addr n 0" "ios_elf_get_notes m' = phdr_addr (n + 1) 0"
    using lay add_phdr_layout [OF lay add n]
    by (simp_all add: ios_elf_get_notes_def phdr_layout_def)
  have rd: "read32 m' (phdr_addr (n + 1) 0 + of_nat k) = read32 m (phdr_addr n 0 + of_nat k)"
    if "k + 4 \<le> ?len" for k
    using that by (rule note_read32 [rotated]) (rule add_phdr_notes [OF lay add])
  have dsz: "read32 m' (ios_elf_get_notes m' + 4) = read32 m (ios_elf_get_notes m + 4)"
    using rd [of 4] wf by (simp add: b notes_wf_def)
  have "note_entry m' (ios_elf_get_notes m') k = note_entry m (ios_elf_get_notes m) k"
    if "k < unat (read32 m (ios_elf_get_notes m + 4)) div 8" for k
  proof -
    have "8 * (k + 1) \<le> unat (read32 m (ios_elf_get_notes m + 4))"
      using that by (simp add: less_eq_div_iff_mult_less_eq flip: Suc_le_eq)
    then have "16 + 8 * k + 4 \<le> ?len" "12 + 8 * k + 4 \<le> ?len"
      using wf by (simp_all add: notes_wf_def)
    then show ?thesis unfolding note_entry_def b by (metis rd)
  qed
  then show ?thesis
    unfolding ios_elf_get_module_entrypoint_def Let_def dsz
    by (intro arg_cong [where f = "entry_loop uid UID_INVALID"] map_cong) auto
qed

section \<open>Translating addresses\<close>

lemma vaddr_loop_spec:
  "(\<exists>j. i \<le> j \<and> j < n \<and> in_segment m addr j \<and> (\<forall>k. i \<le> k \<and> k < j \<longrightarrow> \<not> in_segment m addr k) \<and>
      vaddr_loop m addr n i = addr - phdr_fld m j P_VADDR + phdr_fld m j P_PADDR) \<or>
   (\<forall>k. i \<le> k \<and> k < n \<longrightarrow> \<not> in_segment m addr k) \<and> vaddr_loop m addr n i = addr"
proof (induction m addr n i rule: vaddr_loop.induct)
  case (1 m addr n i)
  show ?case
  proof (cases "i < n")
    case False
    then show ?thesis by (intro disjI2 conjI) (auto simp: vaddr_loop.simps)
  next
    case lt: True
    show ?thesis
    proof (cases "in_segment m addr i")
      case True
      with lt show ?thesis
        by (intro disjI1 exI [of _ i]) (auto simp: vaddr_loop.simps)
    next
      case False
      have eq: "vaddr_loop m addr n i = vaddr_loop m addr n (Suc i)"
        using lt False by (subst vaddr_loop.simps) simp
      have ge: "i \<le> k \<longleftrightarrow> k = i \<or> Suc i \<le> k" for k by auto
      show ?thesis
        using "1.IH" [OF lt False] False lt unfolding eq ge by (auto 4 3)
    qed
  qed
qed

lemma vaddr_loop_first:
  assumes "i \<le> j" "j < n" "in_segment m addr j" "\<And>k. i \<le> k \<Longrightarrow> k < j \<Longrightarrow> \<not> in_segment m addr k"
  shows "vaddr_loop m addr n i = addr - phdr_fld m j P_VADDR + phdr_fld m j P_PADDR"
proof -
  from vaddr_loop_spec [of i n m addr] consider
      j' where "i \<le> j'" "j' < n" "in_segment m addr j'"
        "\<forall>k. i \<le> k \<and> k < j' \<longrightarrow> \<not> in_segment m addr k"
        "vaddr_loop m addr n i = addr - phdr_fld m j' P_VADDR + phdr_fld m j' P_PADDR"
    | "\<forall>k. i \<le> k \<and> k < n \<longrightarrow> \<not> in_segment m addr k"
    by blast
  then show ?thesis
  proof cases
    case 1
    then have "j' = j" using assms by (meson linorder_neqE_nat)
    with 1 show ?thesis by simp
  qed (use assms in blast)
qed

section \<open>The contract of the header table\<close>

text \<open>
  What the loader relies on when it opens entries: an operation \<open>add\<close> that keeps the layout
  of the table, the order of the addresses once the new entry is filled in, and the answers
  of a query \<open>entry\<close> over the notes behind the table.
\<close>

locale header_table =
  fixes add :: "mem \<Rightarrow> u32 \<Rightarrow> mem \<times> nat"
    and entry :: "mem \<Rightarrow> u32 \<Rightarrow> u32"
  assumes keep: "phdr_layout m n \<Longrightarrow> n + 1 < 2 ^ 16 \<Longrightarrow> add m a = (m', i) \<Longrightarrow> phdr_layout m' (n + 1)"
    and keep_entry: "phdr_layout m n \<Longrightarrow> n + 1 < 2 ^ 16 \<Longrightarrow> notes_wf m \<Longrightarrow> add m a = (m', i) \<Longrightarrow>
      notes_wf m' \<and> entry m' uid = entry m uid"
begin

text \<open>Any number of insertions keeps the layout and the answers.\<close>

fun adds :: "mem \<Rightarrow> u32 list \<Rightarrow> mem" where
  "adds m [] = m"
| "adds m (a # as) = adds (fst (add m a)) as"

lemma adds_keep:
  assumes "phdr_layout m n" "notes_wf m" "n + length as < 2 ^ 16"
  shows "phdr_layout (adds m as) (n + length as) \<and> notes_wf (adds m as) \<and>
    entry (adds m as) uid = entry m uid"
  using assms
proof (induction as arbitrary: m n)
  case (Cons a as)
  obtain m' i where add: "add m a = (m', i)" by force
  have "phdr_layout m' (n + 1)" "notes_wf m' \<and> entry m' uid = entry m uid"
    using keep [OF Cons.prems(1) _ add] keep_entry [OF Cons.prems(1) _ Cons.prems(2) add]
      Cons.prems(3) by simp_all
  then show ?case using Cons.IH [of m' "n + 1"] Cons.prems(3) add by simp
qed simp

end

lemma add_phdr_notes_wf:
  assumes lay: "phdr_layout m n" and add: "ios_elf_add_phdr m addr = (m', i)"
    and n: "n + 1 < 2 ^ 16" and wf: "notes_wf m"
  shows "notes_wf m'"
proof -
  have i: "2 \<le> i"
    by (rule add_phdr_stages [OF lay add])
  have b: "ios_elf_get_notes m = phdr_addr n 0" "ios_elf_get_notes m' = phdr_addr (n + 1) 0"
    using lay add_phdr_layout [OF lay add n]
    by (simp_all add: ios_elf_get_notes_def phdr_layout_def)
  have "read32 m' (phdr_addr (n + 1) 0 + of_nat 4) = read32 m (phdr_addr n 0 + of_nat 4)"
    by (rule note_read32 [of "unat (phdr_fld m IOS_SEG_NOTES P_MEMSZ)"])
       (use add_phdr_notes [OF lay add] wf in \<open>auto simp: notes_wf_def\<close>)
  moreover have "phdr_fld m' IOS_SEG_NOTES P_MEMSZ = phdr_fld m IOS_SEG_NOTES P_MEMSZ"
    using add_phdr_fld [OF lay add, of P_MEMSZ IOS_SEG_NOTES] i lay
    by (simp add: phdr_bump_def seg_simps phdr_layout_def)
  ultimately show ?thesis using wf by (simp add: notes_wf_def b)
qed

interpretation ht: header_table ios_elf_add_phdr ios_elf_get_module_entrypoint
proof unfold_locales
  fix m n a m' i uid
  assume lay: "phdr_layout m n" and n: "n + 1 < 2 ^ 16" and add: "ios_elf_add_phdr m a = (m', i)"
  show "phdr_layout m' (n + 1)" by (rule add_phdr_layout [OF lay add n])
  assume wf: "notes_wf m"
  show "notes_wf m' \<and> ios_elf_get_module_entrypoint m' uid = ios_elf_get_module_entrypoint m uid"
    using add_phdr_notes_wf [OF lay add n wf] module_entrypoint_add_phdr [OF lay add n wf] by simp
qed

section \<open>Properties\<close>

text \<open>
  C4. Opening a program header inserts one entry: the entries below keep their place, the
  others move up by one, the sizes and the address of the notes are adjusted, and the
  layout of the table holds for one entry more.
\<close>

theorem add_phdr_inserts:
  assumes "phdr_layout m n" and "n + 1 < 2 ^ 16" and "ios_elf_add_phdr m addr = (m', i)"
  shows "2 \<le> i \<and> i \<le> n \<and> phdr_layout m' (n + 1) \<and>
    (\<forall>j\<le>n. \<forall>q. j \<noteq> i \<and> field_off q \<longrightarrow>
       phdr_fld m' j q = phdr_fld m (if j < i then j else j - 1) q + phdr_bump j q)"
proof -
  obtain "2 \<le> i" "i \<le> n" by (rule add_phdr_stages [OF assms(1,3)])
  then show ?thesis
    using add_phdr_layout [OF assms(1,3,2)] add_phdr_fld [OF assms(1,3)] by auto
qed

text \<open>A table of three entries with an empty notes segment.\<close>

definition demo_table :: mem where
  "demo_table = (\<lambda>a. if a = PHDRS + 23 then 96 else if a = PHDRS + 40 then 0x1D
     else if a = PHDRS + 43 then 96 else if a = PHDRS + 55 then 32 else 0)"

lemma demo_layout: "phdr_layout demo_table 3"
  by (simp add: phdr_layout_def phdr_fld_def phdr_addr_def read32_def demo_table_def
      layout_simps PHDRS_def)

theorem add_phdr_inserts_witness:
  "phdr_layout (fst (ios_elf_add_phdr demo_table 0x05000000)) 4"
  using add_phdr_inserts [OF demo_layout, where addr = "0x05000000"] by (cases "ios_elf_add_phdr demo_table 0x05000000") auto

text \<open>
  C8. Module entry points survive the loader's insertions: the notes move with the table,
  so looking up the entry point of any module gives the same answer as before.
\<close>

theorem entrypoint_stable:
  assumes "phdr_layout m n" and "notes_wf m" and "n + 1 < 2 ^ 16"
    and "ios_elf_add_phdr m addr = (m', i)"
  shows "ios_elf_get_module_entrypoint m' uid = ios_elf_get_module_entrypoint m uid"
  using ht.keep_entry [OF assms(1,3,2,4)] by simp

lemma demo_notes: "notes_wf demo_table"
  by (simp add: notes_wf_def phdr_fld_def phdr_addr_def read32_def demo_table_def
      layout_simps PHDRS_def ios_elf_get_notes_def)

theorem entrypoint_stable_witness:
  "ios_elf_get_module_entrypoint (fst (ios_elf_add_phdr demo_table 0x05000000)) 5
     = ios_elf_get_module_entrypoint demo_table 5"
  using entrypoint_stable [OF demo_layout demo_notes, where addr = "0x05000000"]
  by (cases "ios_elf_add_phdr demo_table 0x05000000") auto

text \<open>
  The table stays sorted: when the entries from the third on are sorted by virtual
  address, they are after an insertion whose caller writes the address it asked for.
\<close>

lemma add_phdr_keeps_sorted:
  assumes "phdr_layout m n" and "vaddr_sorted m n" and "ios_elf_add_phdr m addr = (m', i)"
  shows "vaddr_sorted (write32 m' (phdr_addr i P_VADDR) addr) (n + 1)"
  by (rule add_phdr_sorted [OF assms(1,3,2)])

theorem add_phdr_keeps_sorted_witness:
  "\<exists>m' i. ios_elf_add_phdr demo_table 0x05000000 = (m', i) \<and>
     vaddr_sorted (write32 m' (phdr_addr i P_VADDR) 0x05000000) 4"
proof -
  have "vaddr_sorted demo_table 3" by (auto simp: vaddr_sorted_def seg_simps)
  then show ?thesis
    using add_phdr_keeps_sorted [OF demo_layout, where addr = "0x05000000"]
    by (cases "ios_elf_add_phdr demo_table 0x05000000") auto
qed

text \<open>
  The address translation uses the first segment that holds the address, bounds
  included on both sides, and returns an address of no segment unchanged.
\<close>

lemma vaddr_to_paddr_first:
  "(\<exists>j. IOS_SEG_ELFINFO \<le> j \<and> j < num_phdrs m \<and> in_segment m addr j \<and>
      (\<forall>k. IOS_SEG_ELFINFO \<le> k \<and> k < j \<longrightarrow> \<not> in_segment m addr k) \<and>
      ios_elf_vaddr_to_paddr m addr = addr - phdr_fld m j P_VADDR + phdr_fld m j P_PADDR) \<or>
   (\<forall>k. IOS_SEG_ELFINFO \<le> k \<and> k < num_phdrs m \<longrightarrow> \<not> in_segment m addr k) \<and>
   ios_elf_vaddr_to_paddr m addr = addr"
  unfolding ios_elf_vaddr_to_paddr_def by (rule vaddr_loop_spec)

lemma vaddr_to_paddr_first_witness:
  "(\<exists>j. IOS_SEG_ELFINFO \<le> j \<and> j < num_phdrs demo_table \<and> in_segment demo_table 0x1234 j \<and>
      (\<forall>k. IOS_SEG_ELFINFO \<le> k \<and> k < j \<longrightarrow> \<not> in_segment demo_table 0x1234 k) \<and>
      ios_elf_vaddr_to_paddr demo_table 0x1234
        = 0x1234 - phdr_fld demo_table j P_VADDR + phdr_fld demo_table j P_PADDR) \<or>
   (\<forall>k. IOS_SEG_ELFINFO \<le> k \<and> k < num_phdrs demo_table \<longrightarrow> \<not> in_segment demo_table 0x1234 k) \<and>
   ios_elf_vaddr_to_paddr demo_table 0x1234 = 0x1234"
  by (rule vaddr_to_paddr_first)

end
