(* ===== verification/Patch.thy ===== *)
theory Patch
  imports IosElf BoyerMoore
begin

text \<open>
  \<^verbatim>\<open>wafel_core/include/wafel/patch.h\<close>: the instruction encodings the patch macros
  write (ARM \<^verbatim>\<open>BL\<close> and \<^verbatim>\<open>B\<close>, Thumb \<^verbatim>\<open>BL\<close>), the two ways of storing a patch, before
  and after the MMU is switched on, and the search-and-patch macro.  The decoders of
  \<^verbatim>\<open>trampoline.c\<close> stand beside the encoders, with the round trips and their limits.
\<close>

lemma sdiv_mult: "0 < k \<Longrightarrow> (k * q) sdiv k = (q :: int)"
  by (simp add: signed_divide_int_def abs_mult sgn_mult sgn_mult_abs)

section \<open>Encodings\<close>

definition arm_off :: "u32 \<Rightarrow> u32 \<Rightarrow> u32" where
  "arm_off addr dst = s32_div (dst - addr - 8) 4"

definition bl_insn :: "u32 \<Rightarrow> u32 \<Rightarrow> u32" where
  "bl_insn addr dst = 0xEB000000 OR (arm_off addr dst AND 0xFFFFFF)"

definition branch_insn :: "u32 \<Rightarrow> u32 \<Rightarrow> u32" where
  "branch_insn addr dst = 0xEA000000 OR (arm_off addr dst AND 0xFFFFFF)"

definition thumb_off :: "u32 \<Rightarrow> u32 \<Rightarrow> u32" where
  "thumb_off addr dst = s32_div (dst - addr - 4) 2"

definition bl_t_insn :: "u32 \<Rightarrow> u32 \<Rightarrow> u32" where
  "bl_t_insn addr dst =
     (let off = thumb_off addr dst
      in 0xF000F800 OR (off AND 0x7FF) OR push_bit 16 (drop_bit 11 off AND 0x3FF))"

section \<open>Decodings\<close>

definition extract_target :: "u32 \<Rightarrow> u32 \<Rightarrow> u32" where
  "extract_target addr ins =
     (let off = push_bit 2 (ins AND 0xFFFFFF); m = BIT 25; soff = (off XOR m) - m
      in addr + soff + 8)"

text \<open>The value of a Thumb \<^verbatim>\<open>BL\<close> pair at \<open>addr\<close>, 0 when the halfwords are something else.\<close>

definition bl_t_target :: "u32 \<Rightarrow> u16 \<Rightarrow> u16 \<Rightarrow> u32" where
  "bl_t_target addr ins1 ins2 =
     (if drop_bit 11 ins1 \<noteq> 0b11110 \<or> drop_bit 11 ins2 \<noteq> 0b11111 then 0
      else let off1 = push_bit 21 (ucast ins1); off2 = push_bit 10 (ucast (ins2 AND 0x7FF));
               soff = signed_drop_bit 9 (off1 OR off2)
           in (addr + soff + 4) OR 1)"

section \<open>Arithmetic of the offsets\<close>

text \<open>Sign extension by xor and subtract.\<close>

lemma xor_sub_sign:
  fixes x :: u32
  shows "(x XOR BIT k) - BIT k = (if bit x k then x - 2 * BIT k else x)"
proof (cases "bit x k")
  case True
  let ?y = "x XOR BIT k"
  have "?y AND BIT k = 0"
    using True by (auto intro!: bit_word_eqI simp: BIT_def bit_simps)
  then have "?y + BIT k = ?y XOR BIT k"
    by (simp add: disjunctive_xor_eq_or plus_and_or [symmetric] flip: disjunctive_add_eq_or)
  then have "?y = x - BIT k" by (simp add: eq_diff_eq xor.assoc)
  then show ?thesis using True by simp
next
  case False
  then have "x AND BIT k = 0"
    by (auto intro!: bit_word_eqI simp: BIT_def bit_simps)
  then have "x XOR BIT k = x + BIT k"
    by (simp add: disjunctive_xor_eq_or disjunctive_add_eq_or)
  then show ?thesis using False by simp
qed

text \<open>
  The offset field of \<open>n\<close> bits recovers a displacement \<open>2 ^ s * q\<close> whenever \<open>q\<close> fits the
  field as a signed number.
\<close>

lemma sign_field:
  fixes q :: int
  assumes q: "- (2 ^ (n - 1)) \<le> q" "q < 2 ^ (n - 1)" and n: "0 < n" "n + s \<le> 32"
  shows "(push_bit s (take_bit n (word_of_int q)) XOR BIT (n + s - 1)) - BIT (n + s - 1)
    = (word_of_int (2 ^ s * q) :: u32)"
proof -
  define r where "r = q mod 2 ^ n"
  obtain k where k: "n = Suc k" using n(1) gr0_implies_Suc by blast
  have r: "r = (if q < 0 then q + 2 ^ n else q)"
  proof (cases "q < 0")
    case True
    have "(q + 2 ^ n) mod 2 ^ n = q + 2 ^ n"
      using q True by (intro mod_pos_pos_trivial) (auto simp: k)
    with True show ?thesis by (simp add: r_def)
  next
    case False
    have "(2::int) ^ k < 2 ^ n" by (simp add: k)
    with False show ?thesis unfolding r_def using q by (simp add: k)
  qed
  let ?x = "push_bit s (take_bit n (word_of_int q)) :: u32"
  have "?x = word_of_int (push_bit s (take_bit n q))"
    by (simp only: take_bit_of_int push_bit_of_int)
  then have x: "?x = word_of_int (2 ^ s * r)"
    by (simp only: push_bit_eq_mult take_bit_eq_mod r_def mult.commute)
  have "bit ?x (n + s - 1) \<longleftrightarrow> odd (2 ^ s * r div 2 ^ (k + s))"
    unfolding x bit_word_of_int_iff using n by (simp add: bit_iff_odd k)
  also have "2 ^ s * r div 2 ^ (k + s) = r div 2 ^ k"
    by (simp add: power_add mult.commute)
  also have "odd (r div 2 ^ k) \<longleftrightarrow> q < 0"
  proof (cases "q < 0")
    case True
    have "(q + 2 ^ n) div 2 ^ k = 1"
      using q True by (intro div_pos_pos_trivial [THEN trans] int_div_pos_eq [of _ _ _ "q + 2 ^ k"])
        (auto simp: k)
    with True show ?thesis by (simp add: r)
  next
    case False
    with q show ?thesis by (simp add: r k)
  qed
  finally have b: "bit ?x (n + s - 1) \<longleftrightarrow> q < 0" .
  have two: "2 * BIT (n + s - 1) = (word_of_int (2 ^ (n + s)) :: u32)"
    by (simp add: BIT_def push_bit_eq_mult k)
  show ?thesis
  proof (cases "q < 0")
    case True
    then have "(2::int) ^ s * r = 2 ^ s * q + 2 ^ (n + s)"
      by (simp add: r power_add algebra_simps)
    then have "?x - 2 * BIT (n + s - 1) = word_of_int (2 ^ s * q)"
      unfolding x two by (simp only: of_int_add add_diff_cancel_right')
    with True b show ?thesis by (simp only: xor_sub_sign if_True)
  next
    case False
    with b x show ?thesis by (simp only: xor_sub_sign r if_False)
  qed
qed

section \<open>Round trips\<close>

text \<open>
  A destination is in reach of a branch at \<open>addr\<close> when its displacement from the
  prefetching program counter is a multiple of the instruction size and fits the field.
\<close>

definition arm_reach :: "u32 \<Rightarrow> u32 \<Rightarrow> bool" where
  "arm_reach addr dst \<longleftrightarrow> (let d = sint (dst - addr - 8) in 4 dvd d \<and> - (2 ^ 25) \<le> d \<and> d < 2 ^ 25)"

definition thumb_reach :: "u32 \<Rightarrow> u32 \<Rightarrow> bool" where
  "thumb_reach addr dst \<longleftrightarrow>
     (let d = sint (dst - addr - 4) in 2 dvd d \<and> - (2 ^ 22) \<le> d \<and> d < 2 ^ 22)"

lemma arm_field:
  assumes "c AND 0xFFFFFF = 0"
  shows "(c OR (w AND 0xFFFFFF)) AND 0xFFFFFF = take_bit 24 (w :: u32)"
proof -
  have "(0xFFFFFF :: u32) = mask 24" by (simp add: mask_eq_exp_minus_1)
  then show ?thesis
    using assms by (simp add: bit.conj_disj_distrib2 and.assoc take_bit_eq_mask)
qed

lemma extract_arm:
  assumes "arm_reach addr dst" and c: "c AND 0xFFFFFF = 0"
  shows "extract_target addr (c OR (arm_off addr dst AND 0xFFFFFF)) = dst"
proof -
  let ?d = "sint (dst - addr - 8)"
  from assms(1) obtain q where q: "?d = 4 * q"
    and b: "- (2 ^ 25) \<le> ?d" "?d < 2 ^ 25"
    by (auto simp: arm_reach_def Let_def elim!: dvdE)
  have "arm_off addr dst = word_of_int q"
    by (simp add: arm_off_def s32_div_def q sdiv_mult)
  moreover have "(push_bit 2 (take_bit 24 (word_of_int q)) XOR BIT 25) - BIT 25
      = (word_of_int (4 * q) :: u32)"
    using sign_field [of 24 q 2] b q by simp
  moreover have "word_of_int (4 * q) = dst - addr - 8"
    unfolding q [symmetric] by (simp only: of_int_sint scast_id)
  ultimately show ?thesis
    by (simp add: extract_target_def Let_def arm_field [OF c])
qed

lemma extract_bl: "arm_reach addr dst \<Longrightarrow> extract_target addr (bl_insn addr dst) = dst"
  unfolding bl_insn_def by (rule extract_arm) simp_all

lemma extract_b: "arm_reach addr dst \<Longrightarrow> extract_target addr (branch_insn addr dst) = dst"
  unfolding branch_insn_def by (rule extract_arm) simp_all

lemma insn_top:
  "drop_bit 24 (bl_insn addr dst) = 0xEB" "drop_bit 24 (branch_insn addr dst) = 0xEA"
proof -
  have "drop_bit 24 (w AND (0xFFFFFF :: u32)) = 0" for w
    by (rule bit_word_eqI) (auto simp: bit_simps)
  then show "drop_bit 24 (bl_insn addr dst) = 0xEB" "drop_bit 24 (branch_insn addr dst) = 0xEA"
    by (simp_all add: bl_insn_def branch_insn_def drop_bit_or)
qed

text \<open>
  The Thumb pair: the encoder keeps 10 bits of the high half of the offset, the decoder
  reads 11.  Destinations ahead of the call are recovered, destinations behind it come
  back \<open>2 ^ 22\<close> bytes too high.
\<close>

definition hi16 :: "u32 \<Rightarrow> u16" where "hi16 w = ucast (drop_bit 16 w)"
definition lo16 :: "u32 \<Rightarrow> u16" where "lo16 w = ucast w"

lemma thumb_consts:
  "(0xF000F800 :: u32) = push_bit 28 (mask 4) OR push_bit 11 (mask 5)"
  "(0x7FF :: u32) = mask 11" "(0x3FF :: u32) = mask 10" "(0x7FF :: u16) = mask 11"
  "(0b11111 :: u16) = mask 5"
  by (simp_all add: mask_eq_exp_minus_1)

lemma bit_11110: "bit (0b11110 :: u16) n \<longleftrightarrow> 1 \<le> n \<and> n < 5"
proof -
  have "(0b11110 :: u16) = push_bit 1 (mask 4)" by (simp add: mask_eq_exp_minus_1)
  then show ?thesis
    by (simp only: bit_push_bit_iff bit_mask_iff) auto
qed

lemma thumb_soff:
  fixes off :: u32
  defines "i \<equiv> 0xF000F800 OR (off AND 0x7FF) OR push_bit 16 (drop_bit 11 off AND 0x3FF)"
  shows "drop_bit 11 (hi16 i) = 0b11110" "drop_bit 11 (lo16 i) = 0b11111"
    "signed_drop_bit 9 (push_bit 21 (ucast (hi16 i)) OR push_bit 10 (ucast (lo16 i AND 0x7FF)))
      = push_bit 1 (take_bit 21 off)"
proof -
  show "drop_bit 11 (hi16 i) = 0b11110"
    unfolding thumb_consts i_def hi16_def
    by (rule bit_word_eqI) (unfold bit_11110, auto simp: bit_simps)
  show "drop_bit 11 (lo16 i) = 0b11111"
    unfolding thumb_consts i_def lo16_def
    by (rule bit_word_eqI) (auto simp: bit_simps)
  have 1: "push_bit 21 (ucast (hi16 i)) = (push_bit 21 (take_bit 10 (drop_bit 11 off)) :: u32)"
    unfolding thumb_consts i_def hi16_def
    by (rule bit_word_eqI) (auto simp: bit_simps)
  have 2: "push_bit 10 (ucast (lo16 i AND 0x7FF)) = (push_bit 10 (take_bit 11 off) :: u32)"
    unfolding thumb_consts i_def lo16_def
    by (rule bit_word_eqI) (auto simp: bit_simps)
  have 3: "push_bit 21 (take_bit 10 (drop_bit 11 off)) OR push_bit 10 (take_bit 11 off)
      = (push_bit 10 (take_bit 21 off) :: u32)"
    by (rule bit_word_eqI) (auto simp: bit_simps)
  have 4: "signed_drop_bit 9 (push_bit 10 (take_bit 21 off)) = push_bit 1 (take_bit 21 off)"
    by (rule bit_word_eqI)
       (unfold bit_signed_drop_bit_iff bit_push_bit_iff bit_take_bit_iff, auto)
  show "signed_drop_bit 9 (push_bit 21 (ucast (hi16 i)) OR push_bit 10 (ucast (lo16 i AND 0x7FF)))
      = push_bit 1 (take_bit 21 off)"
    unfolding 1 2 3 by (rule 4)
qed

lemma thumb_decode:
  assumes "thumb_reach addr dst"
  defines "i \<equiv> bl_t_insn addr dst"
  shows "bl_t_target addr (hi16 i) (lo16 i) =
    (if 0 \<le> sint (dst - addr - 4) then dst OR 1 else (dst + 0x400000) OR 1)"
proof -
  let ?d = "sint (dst - addr - 4)"
  from assms(1) obtain q where q: "?d = 2 * q"
    and b: "- (2 ^ 22) \<le> ?d" "?d < 2 ^ 22"
    by (auto simp: thumb_reach_def Let_def elim!: dvdE)
  have off: "thumb_off addr dst = word_of_int q"
    by (simp add: thumb_off_def s32_div_def q sdiv_mult)
  have "push_bit 1 (take_bit 21 (word_of_int q)) = (word_of_int (2 * (q mod 2 ^ 21)) :: u32)"
    by (simp only: take_bit_of_int push_bit_of_int) (simp only: push_bit_eq_mult take_bit_eq_mod, simp)
  moreover have "q mod 2 ^ 21 = (if 0 \<le> q then q else q + 2 ^ 21)"
  proof (cases "0 \<le> q")
    case False
    have "(q + 2 ^ 21) mod 2 ^ 21 = q + 2 ^ 21"
      using q b False by (intro mod_pos_pos_trivial) auto
    with False show ?thesis by simp
  qed (use q b in simp)
  moreover have w: "word_of_int (2 * q) = dst - addr - 4"
    unfolding q [symmetric] by (simp only: of_int_sint scast_id)
  moreover have "word_of_int (2 * (q + 2 ^ 21)) = dst - addr - 4 + 0x400000"
    using w by (simp add: algebra_simps)
  ultimately have "push_bit 1 (take_bit 21 (thumb_off addr dst)) =
      (if 0 \<le> ?d then dst - addr - 4 else dst - addr - 4 + 0x400000)"
    by (simp add: off q split del: if_split) (simp split: if_splits)
  then show ?thesis
    using thumb_soff [of "thumb_off addr dst"]
    by (simp add: bl_t_target_def i_def bl_t_insn_def Let_def algebra_simps split: if_splits)
qed

section \<open>Storing patches\<close>

text \<open>
  A 32-bit value is stored through \<^verbatim>\<open>memcpy16\<close> from a local variable, that is as its two
  halfwords in ascending order.  Before the MMU is on the target is translated with the
  program headers; afterwards it is used as it is, and the flush of the data cache that
  follows does not change what memory holds.
\<close>

definition store_halves :: "mem \<Rightarrow> u32 \<Rightarrow> u32 \<Rightarrow> mem" where
  "store_halves m p val = write16 (write16 m p (hi16 val)) (p + 2) (lo16 val)"

definition patch_u32_k :: "mem \<Rightarrow> u32 \<Rightarrow> u32 \<Rightarrow> mem" where
  "patch_u32_k m addr val = store_halves m (ios_elf_vaddr_to_paddr m addr) val"

definition patch_copy_k :: "mem \<Rightarrow> u32 \<Rightarrow> u32 \<Rightarrow> u32 \<Rightarrow> mem" where
  "patch_copy_k m dst src sz = memcpy16 m (ios_elf_vaddr_to_paddr m dst) src sz"

definition patch_u32 :: "mem \<Rightarrow> u32 \<Rightarrow> u32 \<Rightarrow> mem" where
  "patch_u32 m addr val = store_halves m addr val"

definition patch_copy :: "mem \<Rightarrow> u32 \<Rightarrow> u32 \<Rightarrow> u32 \<Rightarrow> mem" where
  "patch_copy m dst src sz = memcpy16 m dst src sz"

definition BL_TRAMPOLINE_K :: "mem \<Rightarrow> u32 \<Rightarrow> u32 \<Rightarrow> mem" where
  "BL_TRAMPOLINE_K m addr dst = patch_u32_k m addr (bl_insn addr dst)"

definition BL_T_TRAMPOLINE_K :: "mem \<Rightarrow> u32 \<Rightarrow> u32 \<Rightarrow> mem" where
  "BL_T_TRAMPOLINE_K m addr dst = patch_u32_k m addr (bl_t_insn addr dst)"

definition BRANCH_PATCH_K :: "mem \<Rightarrow> u32 \<Rightarrow> u32 \<Rightarrow> mem" where
  "BRANCH_PATCH_K m addr dst = patch_u32_k m addr (branch_insn addr dst)"

text \<open>
  \<^verbatim>\<open>_SEARCH_PATCH\<close>: the patch \<open>next\<close> is applied at the address the search returns; a
  pattern that is not found, or found at address 0, ends in \<^verbatim>\<open>while(1)\<close>, here \<open>None\<close>.
  \<open>u\<close> is the uninitialised stack the search uses for its table.
\<close>

definition search_patch ::
  "(nat \<Rightarrow> nat) \<Rightarrow> mem \<Rightarrow> u8 list \<Rightarrow> u32 \<Rightarrow> (mem \<Rightarrow> u32 \<Rightarrow> mem) \<Rightarrow> mem option" where
  "search_patch u m search start next =
     (case boyer_moore_search u (load_bytes m start 0x200000) search of
        Some (Some k) \<Rightarrow> (let addr = start + of_nat k in if addr = 0 then None else Some (next m addr))
      | _ \<Rightarrow> None)"

lemma store_halves_write32: "store_halves m p v = write32 m p v"
proof -
  have "ucast (drop_bit 8 (hi16 v)) = (ucast (drop_bit 24 v) :: u8)"
    "ucast (hi16 v) = (ucast (drop_bit 16 v) :: u8)"
    "ucast (drop_bit 8 (lo16 v)) = (ucast (drop_bit 8 v) :: u8)"
    "ucast (lo16 v) = (ucast v :: u8)"
    by (auto intro!: bit_word_eqI simp: hi16_def lo16_def bit_simps)
  then show ?thesis
    by (simp add: store_halves_def write16_def write32_def fun_eq_iff add.assoc)
qed

lemma read16_store_halves [simp]:
  "read16 (store_halves m p v) p = hi16 v" "read16 (store_halves m p v) (p + 2) = lo16 v"
proof -
  have "disjoint_regions (p + 2) 2 p 2" by (simp add: disjoint_regions_def)
  then show "read16 (store_halves m p v) p = hi16 v"
    by (simp add: store_halves_def read16_write16_other)
qed (simp add: store_halves_def)

lemma read32_halves: "read16 m a = hi16 (read32 m a)" "read16 m (a + 2) = lo16 (read32 m a)"
  by (auto intro!: bit_word_eqI simp: hi16_def lo16_def read16_def read32_def bit_simps add.assoc)

section \<open>The translation under stores\<close>

text \<open>The translation reads the table of program headers only.\<close>

definition same_table :: "mem \<Rightarrow> mem \<Rightarrow> bool" where
  "same_table m m' \<longleftrightarrow> phdr_fld m' IOS_SEG_PHDRS P_MEMSZ = phdr_fld m IOS_SEG_PHDRS P_MEMSZ \<and>
     (\<forall>j < num_phdrs m. \<forall>p. field_off p \<longrightarrow> phdr_fld m' j p = phdr_fld m j p)"

lemma vaddr_loop_cong:
  assumes "\<And>j p. j < n \<Longrightarrow> field_off p \<Longrightarrow> phdr_fld m' j p = phdr_fld m j p"
  shows "vaddr_loop m' a n i = vaddr_loop m a n i"
  using assms
proof (induction m a n i rule: vaddr_loop.induct)
  case (1 m a n i)
  have "in_segment m' a i = in_segment m a i" if "i < n"
    using "1.prems" that by (simp add: in_segment_def)
  then show ?case
    using "1.IH" "1.prems" vaddr_loop.simps [of m a n i] vaddr_loop.simps [of m' a n i]
    by (cases "i < n") auto
qed

lemma xlate_cong: "same_table m m' \<Longrightarrow> ios_elf_vaddr_to_paddr m' a = ios_elf_vaddr_to_paddr m a"
  unfolding ios_elf_vaddr_to_paddr_def
  using vaddr_loop_cong [of "num_phdrs m" m' m a IOS_SEG_ELFINFO]
  by (simp add: same_table_def num_phdrs_def)

lemma same_table_refl [simp]: "same_table m m"
  by (simp add: same_table_def)

lemma same_table_trans: "same_table m m' \<Longrightarrow> same_table m' m'' \<Longrightarrow> same_table m m''"
  by (simp add: same_table_def num_phdrs_def)

text \<open>
  A region that avoids the table, which has at least one entry because entry 0 is always
  there: stores to it leave the translation as it was.
\<close>

definition off_table :: "mem \<Rightarrow> u32 \<Rightarrow> nat \<Rightarrow> bool" where
  "off_table m a n \<longleftrightarrow> num_phdrs m < 2 ^ 16 \<and>
     disjoint_regions PHDRS (PHDR_SZ * max 1 (num_phdrs m)) a n"

lemma phdr_addr_in_table:
  assumes "field_off p" "j < k" "k < 2 ^ 20" "disjoint_regions PHDRS (PHDR_SZ * k) a n"
  shows "disjoint_regions (phdr_addr j p) 4 a n"
proof -
  let ?o = "PHDR_SZ * j + p"
  have o: "?o + 4 \<le> PHDR_SZ * k"
    using assms(1,2) by (auto simp: field_off_def layout_simps elim!: dvdE)
  have k: "PHDR_SZ * k < 2 ^ 26" "0 < PHDR_SZ * k" using assms(2,3) by (simp_all add: layout_simps)
  show ?thesis
  proof (cases "n = 0")
    case False
    then have d: "PHDR_SZ * k \<le> adist PHDRS a" "n \<le> adist a PHDRS"
      using assms(4) k(2) by (auto simp: disjoint_regions_def)
    have "adist (phdr_addr j p) a = adist PHDRS a - ?o"
      unfolding phdr_addr_def using o d by (intro adist_offset) simp
    moreover have "n \<le> adist a (phdr_addr j p)"
    proof -
      have *: "adist PHDRS (phdr_addr j p) = ?o"
        unfolding phdr_addr_def add_sub_swap using o k by (intro unat_of_nat_u32) simp
      have "adist PHDRS (phdr_addr j p) < PHDR_SZ * k" unfolding * using o by simp
      with assms(4) show ?thesis by (rule disjoint_regionsD)
    qed
    moreover have "4 \<le> adist PHDRS a - ?o"
      using o d(1) by (intro le_diff_conv2 [THEN iffD2]) (auto simp: add.commute)
    ultimately show ?thesis by (simp add: disjoint_regions_def)
  qed (simp add: disjoint_regions_def)
qed

lemma same_table_off:
  assumes "off_table m a n" and "\<And>x. n \<le> adist a x \<Longrightarrow> m' x = m x"
  shows "same_table m m'"
proof -
  let ?k = "max 1 (num_phdrs m)"
  have "phdr_fld m' j p = phdr_fld m j p" if "field_off p" "j < ?k" for j p
    unfolding phdr_fld_def
  proof (rule read32_cong)
    fix x assume x: "adist (phdr_addr j p) x < 4"
    have "disjoint_regions (phdr_addr j p) 4 a n"
      using assms(1) that by (intro phdr_addr_in_table [of p j ?k]) (auto simp: off_table_def)
    then have "n \<le> adist a x" using x by (rule disjoint_regionsD)
    then show "m' x = m x" by (rule assms(2))
  qed
  then show ?thesis by (simp add: same_table_def seg_simps)
qed

lemma same_table_write32: "off_table m a 4 \<Longrightarrow> same_table m (write32 m a v)"
  by (rule same_table_off) (auto intro: write32_other)

lemma same_table_memmove: "off_table m a n \<Longrightarrow> same_table m (memmove m a b n)"
  by (rule same_table_off) (auto intro: memmove_other)

lemma off_table_cong: "same_table m m' \<Longrightarrow> off_table m' a n = off_table m a n"
  by (simp add: off_table_def same_table_def num_phdrs_def)

lemma patch_u32_k_eq: "patch_u32_k m addr v = write32 m (ios_elf_vaddr_to_paddr m addr) v"
  by (simp add: patch_u32_k_def store_halves_write32)

lemma read_patched:
  assumes "off_table m (ios_elf_vaddr_to_paddr m addr) 4"
  shows "read32 (patch_u32_k m addr v) (ios_elf_vaddr_to_paddr (patch_u32_k m addr v) addr) = v"
proof -
  have "same_table m (patch_u32_k m addr v)"
    unfolding patch_u32_k_eq using assms by (rule same_table_write32)
  then show ?thesis by (simp add: xlate_cong patch_u32_k_eq)
qed

text \<open>The search-and-patch macro changes exactly the first place the pattern occurs.\<close>

lemma search_patch_first:
  assumes "length pat < 2 ^ 29"
  shows "search_patch u m pat start next =
    (case first_match (load_bytes m start 0x200000) pat of
       None \<Rightarrow> None
     | Some k \<Rightarrow> if start + of_nat k = 0 then None else Some (next m (start + of_nat k)))"
proof -
  have "boyer_moore_search u (load_bytes m start 0x200000) pat
      = Some (first_match (load_bytes m start 0x200000) pat)"
    using assms by (intro boyer_moore_search_spec) simp
  then show ?thesis
    by (simp add: search_patch_def Let_def split: option.split)
qed

section \<open>The contract of a branch encoding\<close>

text \<open>
  The hooks rely on a pair of an encoder and a decoder: within reach the decoder returns
  the destination, and the opcode identifies the instruction.
\<close>

locale branch_codec =
  fixes enc :: "u32 \<Rightarrow> u32 \<Rightarrow> u32"
    and opcode :: u32
  assumes dec_enc: "arm_reach addr dst \<Longrightarrow> extract_target addr (enc addr dst) = dst"
    and op_enc: "drop_bit 24 (enc addr dst) = opcode"
begin

lemma enc_inj: "arm_reach addr d \<Longrightarrow> arm_reach addr d' \<Longrightarrow> enc addr d = enc addr d' \<Longrightarrow> d = d'"
  by (metis dec_enc)

lemma patched_target:
  assumes "off_table m (ios_elf_vaddr_to_paddr m addr) 4" and "arm_reach addr dst"
  defines "m' \<equiv> patch_u32_k m addr (enc addr dst)"
  defines "ins \<equiv> read32 m' (ios_elf_vaddr_to_paddr m' addr)"
  shows "drop_bit 24 ins = opcode \<and> extract_target addr ins = dst"
proof -
  have "ins = enc addr dst"
    unfolding ins_def m'_def by (rule read_patched [OF assms(1)])
  then show ?thesis using dec_enc [OF assms(2)] op_enc by simp
qed

end

interpretation arm_bl: branch_codec bl_insn "0xEB"
  by unfold_locales (simp_all add: extract_bl insn_top)

interpretation arm_b: branch_codec branch_insn "0xEA"
  by unfold_locales (simp_all add: extract_b insn_top)

section \<open>Properties\<close>

text \<open>
  C9. ARM branches round trip: within the reach of the 24-bit field the decoder recovers the
  destination that a \<^verbatim>\<open>BL\<close> or \<^verbatim>\<open>B\<close> was encoded for, and the opcodes tell them apart.
\<close>

theorem arm_branch_roundtrip:
  assumes "arm_reach addr dst"
  shows "extract_target addr (bl_insn addr dst) = dst \<and> drop_bit 24 (bl_insn addr dst) = 0xEB \<and>
    extract_target addr (branch_insn addr dst) = dst \<and> drop_bit 24 (branch_insn addr dst) = 0xEA"
  using arm_bl.dec_enc [OF assms] arm_b.dec_enc [OF assms] arm_bl.op_enc arm_b.op_enc by simp

theorem arm_branch_roundtrip_witness:
  "extract_target 0x05000000 (bl_insn 0x05000000 0x04000010) = 0x04000010"
proof -
  have "arm_reach 0x05000000 0x04000010" by code_simp
  then show ?thesis using arm_branch_roundtrip by blast
qed

text \<open>
  Thumb calls: within 4 MiB a destination ahead of the call is recovered with its mode
  bit, a destination behind it decodes to an address 4 MiB too high, because the encoder
  keeps 10 bits of the high half where the instruction has 11.
\<close>

lemma thumb_call_decode:
  assumes "thumb_reach addr dst"
  shows "bl_t_target addr (hi16 (bl_t_insn addr dst)) (lo16 (bl_t_insn addr dst)) =
    (if 0 \<le> sint (dst - addr - 4) then dst OR 1 else (dst + 0x400000) OR 1)"
  using assms by (rule thumb_decode)

lemma thumb_call_decode_witness:
  "bl_t_target 0x05000000 (hi16 (bl_t_insn 0x05000000 0x04FFF000)) (lo16 (bl_t_insn 0x05000000 0x04FFF000))
     = 0x053FF001"
proof -
  have "thumb_reach 0x05000000 0x04FFF000" by code_simp
  moreover have "sint ((0x04FFF000 :: u32) - 0x05000000 - 4) < 0" by simp
  ultimately show ?thesis using thumb_call_decode [where addr = "0x05000000" and dst = "0x04FFF000"] by simp
qed

text \<open>
  A patched call is found again: after a \<^verbatim>\<open>BL\<close> is stored through the translated
  address, reading the instruction back through the translation decodes to the destination.
\<close>

lemma patched_call_found:
  assumes "off_table m (ios_elf_vaddr_to_paddr m addr) 4" and "arm_reach addr dst"
  defines "m' \<equiv> BL_TRAMPOLINE_K m addr dst"
  shows "extract_target addr (read32 m' (ios_elf_vaddr_to_paddr m' addr)) = dst"
  using arm_bl.patched_target [OF assms(1,2)] by (simp add: m'_def BL_TRAMPOLINE_K_def)

lemma patched_call_found_witness:
  "let m' = BL_TRAMPOLINE_K (\<lambda>_. 0) 0x05000000 0x05001000
   in extract_target 0x05000000 (read32 m' (ios_elf_vaddr_to_paddr m' 0x05000000)) = 0x05001000"
proof -
  have z: "num_phdrs (\<lambda>_. 0) = 0" by (simp add: num_phdrs_def phdr_fld_def read32_def)
  then have "off_table (\<lambda>_. 0) (ios_elf_vaddr_to_paddr (\<lambda>_. 0) 0x05000000) 4"
    by (simp add: off_table_def disjoint_regions_def ios_elf_vaddr_to_paddr_def vaddr_loop.simps
        PHDRS_def PHDR_SZ_def)
  moreover have "arm_reach 0x05000000 0x05001000" by code_simp
  ultimately show ?thesis by (simp add: patched_call_found Let_def)
qed

text \<open>
  Search and patch: for patterns of any size the macro can hold, the patch is applied at
  the first occurrence in the two megabytes searched, and the program stops when there is
  none.
\<close>

lemma search_patch_exact:
  assumes "length pat < 2 ^ 29"
  shows "search_patch u m pat start next =
    (case first_match (load_bytes m start 0x200000) pat of
       None \<Rightarrow> None
     | Some k \<Rightarrow> if start + of_nat k = 0 then None else Some (next m (start + of_nat k)))"
  using assms by (rule search_patch_first)

theorem search_patch_exact_witness:
  "search_patch (\<lambda>_. 3) (\<lambda>_. 0) [1, 2] 0x05000000 (\<lambda>m a. patch_u32 m a 7) =
    (case first_match (load_bytes (\<lambda>_. 0) 0x05000000 0x200000) [1, 2] of
       None \<Rightarrow> None
     | Some k \<Rightarrow> if 0x05000000 + of_nat k = (0 :: u32) then None
                 else Some (patch_u32 (\<lambda>_. 0) (0x05000000 + of_nat k) 7))"
  by (rule search_patch_exact) simp

end
