(* ===== verification/Trampoline.thy ===== *)
theory Trampoline
  imports Patch "HOL-Library.Monad_Syntax"
begin

text \<open>
  \<^verbatim>\<open>wafel_core/source/trampoline.c\<close>: hooking a function by copying a prototype from
  \<^verbatim>\<open>trampoline_asm.S\<close> to the trampoline buffer and patching a branch to it over the
  hooked instruction.  The state is memory and \<^verbatim>\<open>trampoline_next\<close>; the addresses the
  linker chooses (the prototypes, the end of the buffer) and the load address of the
  plugin are an environment.  The byte offsets of the words inside a prototype are those
  of the assembly listing.  \<^verbatim>\<open>crash_and_burn\<close> does not return: it is the value \<open>None\<close>.
\<close>

section \<open>State and constants\<close>

record hook_env =
  buffer_end :: u32
  base_addr :: u32
  blre_proto :: u32
  blre_regs_proto :: u32
  hookbefore_proto :: u32
  hookbefore_lr_proto :: u32
  t_blre_proto :: u32
  t_blre_regs_proto :: u32
  t_hookbefore_proto :: u32
  t_hookbefore_bl_proto :: u32

record tstate =
  tmem :: mem
  tnext :: u32

definition MCP_ALT_BASE :: u32 where "MCP_ALT_BASE = 0x05200000"
definition FS_ALT_BASE :: u32 where "FS_ALT_BASE = 0x10600000"
definition NET_ALT_BASE :: u32 where "NET_ALT_BASE = 0x12200000"
definition NSEC_ALT_BASE :: u32 where "NSEC_ALT_BASE = 0xE1300000"
definition BSP_ALT_BASE :: u32 where "BSP_ALT_BASE = 0xE5F00000"
definition KERN_ALT_BASE :: u32 where "KERN_ALT_BASE = 0x08200000"

text \<open>\<^verbatim>\<open>MCP_ALTBASE_ADDR\<close> and its siblings.\<close>

definition ALTBASE_ADDR :: "u32 \<Rightarrow> u32 \<Rightarrow> u32 \<Rightarrow> u32" where
  "ALTBASE_ADDR base alt a = a - base + alt"

section \<open>Finding and decoding\<close>

definition align :: "u32 \<Rightarrow> u32 \<Rightarrow> u32" where
  "align x to = x + (to - 1) - (x - 1) mod to"

definition extract_bl_target :: "mem \<Rightarrow> u32 \<Rightarrow> u32" where
  "extract_bl_target m addr =
     (let ins = read32 m (ios_elf_vaddr_to_paddr m addr)
      in if drop_bit 24 ins \<noteq> 0xEB then 0 else extract_target addr ins)"

definition extract_b_target :: "mem \<Rightarrow> u32 \<Rightarrow> u32" where
  "extract_b_target m addr =
     (let ins = read32 m (ios_elf_vaddr_to_paddr m addr)
      in if drop_bit 24 ins \<noteq> 0xEA then 0 else extract_target addr ins)"

definition extract_bl_t_target :: "mem \<Rightarrow> u32 \<Rightarrow> u32" where
  "extract_bl_t_target m addr =
     (let paddr = ios_elf_vaddr_to_paddr m addr
      in bl_t_target addr (read16 m paddr) (read16 m (paddr + 2)))"

text \<open>The mirrors of an address, in the order in which they are tried.\<close>

definition mirrors :: "hook_env \<Rightarrow> u32 \<Rightarrow> u32 list" where
  "mirrors env a =
     [a, ALTBASE_ADDR (base_addr env) MCP_ALT_BASE a, ALTBASE_ADDR (base_addr env) FS_ALT_BASE a,
      ALTBASE_ADDR (base_addr env) NET_ALT_BASE a, ALTBASE_ADDR (base_addr env) NSEC_ALT_BASE a,
      ALTBASE_ADDR (base_addr env) BSP_ALT_BASE a, ALTBASE_ADDR (base_addr env) KERN_ALT_BASE a]"

definition trampoline_find_mapping :: "hook_env \<Rightarrow> u32 \<Rightarrow> u32 \<Rightarrow> nat \<Rightarrow> u32 option" where
  "trampoline_find_mapping env addr tramp offset_bits =
     find (\<lambda>alt. drop_bit offset_bits alt = drop_bit offset_bits addr) (mirrors env tramp)"

section \<open>Installing\<close>

definition trampoline_copy :: "hook_env \<Rightarrow> tstate \<Rightarrow> u32 \<Rightarrow> u32 \<Rightarrow> (tstate \<times> u32) option" where
  "trampoline_copy env st tramp tramp_end =
     (let r = align (tnext st) 4; sz = tramp_end - tramp
      in if buffer_end env \<le> r + sz then None
         else Some (\<lparr> tmem = memcpy16 (tmem st) r tramp sz, tnext = r + sz \<rparr>, r))"

definition trampoline_install :: "hook_env \<Rightarrow> tstate \<Rightarrow> u32 \<Rightarrow> u32 \<Rightarrow> u32 \<Rightarrow> (tstate \<times> u32) option" where
  "trampoline_install env st addr tramp tramp_end =
     do { (st, inst) \<leftarrow> trampoline_copy env st tramp tramp_end;
          alt \<leftarrow> trampoline_find_mapping env addr inst 26;
          Some (st\<lparr>tmem := BL_TRAMPOLINE_K (tmem st) addr alt\<rparr>, inst) }"

definition trampoline_install_nolink ::
  "hook_env \<Rightarrow> tstate \<Rightarrow> u32 \<Rightarrow> u32 \<Rightarrow> u32 \<Rightarrow> (tstate \<times> u32) option" where
  "trampoline_install_nolink env st addr tramp tramp_end =
     do { (st, inst) \<leftarrow> trampoline_copy env st tramp tramp_end;
          alt \<leftarrow> trampoline_find_mapping env addr inst 26;
          Some (st\<lparr>tmem := BRANCH_PATCH_K (tmem st) addr alt\<rparr>, inst) }"

definition trampoline_t_install :: "hook_env \<Rightarrow> tstate \<Rightarrow> u32 \<Rightarrow> u32 \<Rightarrow> u32 \<Rightarrow> (tstate \<times> u32) option" where
  "trampoline_t_install env st addr tramp tramp_end =
     do { (st, inst) \<leftarrow> trampoline_copy env st tramp tramp_end;
          alt \<leftarrow> trampoline_find_mapping env addr inst 23;
          Some (st\<lparr>tmem := BL_T_TRAMPOLINE_K (tmem st) addr alt\<rparr>, inst) }"

section \<open>The hooks\<close>

text \<open>
  The prototypes: the offset of each labelled word and the length, as the listing in
  \<^verbatim>\<open>trampoline_asm.S\<close> lays them out (4 bytes per ARM instruction, 2 per Thumb
  instruction, words aligned).
\<close>

definition BLRE_TARGET :: u32 where "BLRE_TARGET = 24"
definition BLRE_CHAIN :: u32 where "BLRE_CHAIN = 28"
definition BLRE_END :: u32 where "BLRE_END = 32"
definition BLRE_REGS_TARGET :: u32 where "BLRE_REGS_TARGET = 28"
definition BLRE_REGS_CHAIN :: u32 where "BLRE_REGS_CHAIN = 32"
definition BLRE_REGS_END :: u32 where "BLRE_REGS_END = 36"
definition HB_ORGINS :: u32 where "HB_ORGINS = 20"
definition HB_CHAIN :: u32 where "HB_CHAIN = 24"
definition HB_TARGET :: u32 where "HB_TARGET = 28"
definition HB_END :: u32 where "HB_END = 32"
definition HB_LR_ORGINS :: u32 where "HB_LR_ORGINS = 28"
definition HB_LR_TARGET :: u32 where "HB_LR_TARGET = 36"
definition HB_LR_RET :: u32 where "HB_LR_RET = 40"
definition HB_LR_END :: u32 where "HB_LR_END = 44"
definition T_BLRE_TARGET :: u32 where "T_BLRE_TARGET = 20"
definition T_BLRE_CHAIN :: u32 where "T_BLRE_CHAIN = 24"
definition T_BLRE_END :: u32 where "T_BLRE_END = 28"
definition T_HB_ORGINS :: u32 where "T_HB_ORGINS = 16"
definition T_HB_TARGET :: u32 where "T_HB_TARGET = 24"
definition T_HB_END :: u32 where "T_HB_END = 28"
definition T_HB_BL_CHAIN :: u32 where "T_HB_BL_CHAIN = 20"
definition T_HB_BL_TARGET :: u32 where "T_HB_BL_TARGET = 24"
definition T_HB_BL_END :: u32 where "T_HB_BL_END = 28"

lemmas proto_offsets =
  BLRE_TARGET_def BLRE_CHAIN_def BLRE_END_def BLRE_REGS_TARGET_def BLRE_REGS_CHAIN_def
  BLRE_REGS_END_def HB_ORGINS_def HB_CHAIN_def HB_TARGET_def HB_END_def HB_LR_ORGINS_def
  HB_LR_TARGET_def HB_LR_RET_def HB_LR_END_def T_BLRE_TARGET_def T_BLRE_CHAIN_def
  T_BLRE_END_def T_HB_ORGINS_def T_HB_TARGET_def T_HB_END_def T_HB_BL_CHAIN_def
  T_HB_BL_TARGET_def T_HB_BL_END_def

definition trampoline_blreplace :: "hook_env \<Rightarrow> tstate \<Rightarrow> u32 \<Rightarrow> u32 \<Rightarrow> tstate option" where
  "trampoline_blreplace env st addr target =
     (let p = blre_proto env;
          m = write32 (tmem st) (p + BLRE_CHAIN) (extract_bl_target (tmem st) addr);
          m = write32 m (p + BLRE_TARGET) target
      in map_option fst (trampoline_install env (st\<lparr>tmem := m\<rparr>) addr p (p + BLRE_END)))"

definition trampoline_blreplace_with_regs :: "hook_env \<Rightarrow> tstate \<Rightarrow> u32 \<Rightarrow> u32 \<Rightarrow> tstate option" where
  "trampoline_blreplace_with_regs env st addr target =
     (let p = blre_regs_proto env;
          m = write32 (tmem st) (p + BLRE_REGS_CHAIN) (extract_bl_target (tmem st) addr);
          m = write32 m (p + BLRE_REGS_TARGET) target
      in map_option fst (trampoline_install env (st\<lparr>tmem := m\<rparr>) addr p (p + BLRE_REGS_END)))"

definition trampoline_hook_before :: "hook_env \<Rightarrow> tstate \<Rightarrow> u32 \<Rightarrow> u32 \<Rightarrow> tstate option" where
  "trampoline_hook_before env st addr target =
     (let p = hookbefore_proto env; m = tmem st;
          bl_target = extract_bl_target m addr;
          orgins = read32 m (ios_elf_vaddr_to_paddr m addr);
          m = write32 m (p + HB_TARGET) target
      in do { (st, tramp_base) \<leftarrow> trampoline_install env (st\<lparr>tmem := m\<rparr>) addr p (p + HB_END);
              Some (if bl_target \<noteq> 0
                then st\<lparr>tmem := write32 (tmem st) (tramp_base + HB_CHAIN) bl_target\<rparr>
                else st\<lparr>tmem := write32 (tmem st) (tramp_base + HB_ORGINS) orgins\<rparr>) })"

definition trampoline_hook_before_v2 :: "hook_env \<Rightarrow> tstate \<Rightarrow> u32 \<Rightarrow> u32 \<Rightarrow> tstate option" where
  "trampoline_hook_before_v2 env st addr target =
     (let p = hookbefore_lr_proto env; m = tmem st;
          b_target = extract_bl_target m addr;
          is_bl = (b_target \<noteq> 0);
          b_target = (if b_target = 0 then extract_b_target m addr else b_target);
          orgins = read32 m (ios_elf_vaddr_to_paddr m addr);
          m = write32 m (p + HB_LR_TARGET) target;
          m = write32 m (p + HB_LR_RET) (if b_target \<noteq> 0 then b_target else addr + 4);
          st = st\<lparr>tmem := m\<rparr>
      in do { (st, tramp_base) \<leftarrow>
                (if is_bl then trampoline_install env st addr p (p + HB_LR_END)
                 else trampoline_install_nolink env st addr p (p + HB_LR_END));
              Some (if b_target = 0
                then st\<lparr>tmem := write32 (tmem st) (tramp_base + HB_LR_ORGINS) orgins\<rparr>
                else st) })"

definition trampoline_t_blreplace :: "hook_env \<Rightarrow> tstate \<Rightarrow> u32 \<Rightarrow> u32 \<Rightarrow> tstate option" where
  "trampoline_t_blreplace env st addr target =
     (let p = t_blre_proto env;
          m = write32 (tmem st) (p + T_BLRE_CHAIN) (extract_bl_t_target (tmem st) addr);
          m = write32 m (p + T_BLRE_TARGET) target
      in map_option fst (trampoline_t_install env (st\<lparr>tmem := m\<rparr>) addr p (p + T_BLRE_END)))"

definition trampoline_t_blreplace_with_regs :: "hook_env \<Rightarrow> tstate \<Rightarrow> u32 \<Rightarrow> u32 \<Rightarrow> tstate option" where
  "trampoline_t_blreplace_with_regs env st addr target =
     (let p = t_blre_regs_proto env;
          m = write32 (tmem st) (p + T_BLRE_CHAIN) (extract_bl_t_target (tmem st) addr);
          m = write32 m (p + T_BLRE_TARGET) target
      in map_option fst (trampoline_t_install env (st\<lparr>tmem := m\<rparr>) addr p (p + T_BLRE_END)))"

definition trampoline_t_hook_before_ins :: "hook_env \<Rightarrow> tstate \<Rightarrow> u32 \<Rightarrow> u32 \<Rightarrow> tstate option" where
  "trampoline_t_hook_before_ins env st addr target =
     (let p = t_hookbefore_proto env; m = tmem st;
          orgins = ios_elf_vaddr_to_paddr m addr;
          m = write32 m (p + T_HB_TARGET) target;
          m = write16 m (p + T_HB_ORGINS) (read16 m orgins);
          m = write16 m (p + T_HB_ORGINS + 2) (read16 m (orgins + 2))
      in map_option fst (trampoline_t_install env (st\<lparr>tmem := m\<rparr>) addr p (p + T_HB_END)))"

definition trampoline_t_hook_before_bl :: "hook_env \<Rightarrow> tstate \<Rightarrow> u32 \<Rightarrow> u32 \<Rightarrow> u32 \<Rightarrow> tstate option" where
  "trampoline_t_hook_before_bl env st addr target chain =
     (let p = t_hookbefore_bl_proto env;
          m = write32 (tmem st) (p + T_HB_BL_TARGET) target;
          m = write32 m (p + T_HB_BL_CHAIN) chain
      in map_option fst (trampoline_t_install env (st\<lparr>tmem := m\<rparr>) addr p (p + T_HB_BL_END)))"

definition trampoline_t_hook_before :: "hook_env \<Rightarrow> tstate \<Rightarrow> u32 \<Rightarrow> u32 \<Rightarrow> tstate option" where
  "trampoline_t_hook_before env st addr target =
     (let bl_target = extract_bl_t_target (tmem st) addr
      in if bl_target \<noteq> 0 then trampoline_t_hook_before_bl env st addr target bl_target
         else trampoline_t_hook_before_ins env st addr target)"

section \<open>Aligning\<close>

lemma align4: "align x 4 = x + (- x) mod 4"
proof -
  have "(x - 1) mod 4 + (- x) mod 4 = 3"
  proof -
    have a: "y mod 4 = y AND 3" for y :: u32
      using take_bit_eq_mod [of 2 y] by (simp add: take_bit_eq_mask mask_eq_exp_minus_1)
    have "(- x) AND 3 = NOT (x - 1) AND 3" by (simp add: minus_eq_not_minus_1)
    also have "\<dots> = 3 - ((x - 1) AND 3)"
    proof -
      have "(NOT (x - 1) AND 3) + ((x - 1) AND 3) = (3 :: u32)"
        by (subst disjunctive_add_eq_or) (auto intro!: bit_word_eqI simp: bit_simps)
      then show ?thesis by (simp add: eq_diff_eq)
    qed
    finally show ?thesis by (simp add: a)
  qed
  then show ?thesis
    by (simp add: align_def algebra_simps)
qed

section \<open>What an installation does\<close>

text \<open>
  The regions of one installation: the copy, the prototype, the hooked instruction and the
  table of program headers do not overlap.
\<close>

definition hook_regions :: "mem \<Rightarrow> u32 \<Rightarrow> u32 \<Rightarrow> u32 \<Rightarrow> nat \<Rightarrow> bool" where
  "hook_regions m addr r tramp n \<longleftrightarrow> n \<le> 2 ^ 16 \<and> even n \<and>
     disjoint_regions r n tramp n \<and> off_table m r n \<and> off_table m tramp n \<and>
     off_table m (ios_elf_vaddr_to_paddr m addr) 4 \<and>
     disjoint_regions (ios_elf_vaddr_to_paddr m addr) 4 r n"

lemma memcpy16_eq_memmove:
  assumes "disjoint_regions dst n src n" "even n" "n < 2 ^ 32"
  shows "memcpy16 m dst src (of_nat n) = memmove m dst src n"
proof -
  have "unat (drop_bit 1 (of_nat n :: u32)) = n div 2"
    using assms(3) by (simp add: drop_bit_eq_div unat_div unat_of_nat_u32)
  then show ?thesis
    using copy16_eq_memmove [of dst "n div 2" src m] assms by (simp add: memcpy16_def)
qed

lemma hook_regions_cong:
  "same_table m m' \<Longrightarrow> hook_regions m' addr r tramp n = hook_regions m addr r tramp n"
  by (simp add: hook_regions_def off_table_cong xlate_cong)

text \<open>
  The contract of an installer: the prototype is copied to the aligned end of the used
  part of the buffer, inside the buffer, and a branch with encoding \<open>enc\<close> to a mirror of
  the copy in the same \<open>2 ^ bits\<close> bytes replaces the hooked instruction.
\<close>

locale installer =
  fixes inst :: "hook_env \<Rightarrow> tstate \<Rightarrow> u32 \<Rightarrow> u32 \<Rightarrow> u32 \<Rightarrow> (tstate \<times> u32) option"
    and enc :: "u32 \<Rightarrow> u32 \<Rightarrow> u32"
    and bits :: nat
  assumes effect:
    "hook_regions (tmem st) addr (align (tnext st) 4) tramp n \<Longrightarrow>
     inst env st addr tramp (tramp + of_nat n) = Some (st', r) \<Longrightarrow>
     r = align (tnext st) 4 \<and> tnext st' = r + of_nat n \<and> r + of_nat n < buffer_end env \<and>
     (\<exists>alt \<in> set (mirrors env r). drop_bit bits alt = drop_bit bits addr \<and>
        tmem st' = write32 (memmove (tmem st) r tramp n)
                     (ios_elf_vaddr_to_paddr (tmem st) addr) (enc addr alt))"
begin

lemma in_buffer:
  "hook_regions (tmem st) addr (align (tnext st) 4) tramp n \<Longrightarrow>
   inst env st addr tramp (tramp + of_nat n) = Some (st', r) \<Longrightarrow>
   r = align (tnext st) 4 \<and> tnext st' = r + of_nat n \<and> tnext st' < buffer_end env"
  using effect by fastforce

lemma copied_word:
  assumes "hook_regions (tmem st) addr (align (tnext st) 4) tramp n"
    and "inst env st addr tramp (tramp + of_nat n) = Some (st', r)" and "d + 4 \<le> n"
  shows "read32 (tmem st') (r + of_nat d) = read32 (tmem st) (tramp + of_nat d)"
proof -
  obtain alt where r: "r = align (tnext st) 4"
    and m: "tmem st' = write32 (memmove (tmem st) r tramp n)
                     (ios_elf_vaddr_to_paddr (tmem st) addr) (enc addr alt)"
    using effect [OF assms(1,2)] by blast
  have n: "n \<le> 2 ^ 16" using assms(1) by (simp add: hook_regions_def)
  have "disjoint_regions (ios_elf_vaddr_to_paddr (tmem st) addr) 4 (r + of_nat d) 4"
    using assms(1,3) r by (intro disjoint_sub [of _ _ r n]) (simp_all add: hook_regions_def)
  then have "read32 (tmem st') (r + of_nat d) = read32 (memmove (tmem st) r tramp n) (r + of_nat d)"
    by (simp add: m read32_write32_other)
  also have "\<dots> = read32 (tmem st) (tramp + of_nat d)"
    using assms(3) n by (intro read32_memmove) (simp_all add: unat_of_nat_u32)
  finally show ?thesis .
qed

lemma hooked:
  assumes "hook_regions (tmem st) addr (align (tnext st) 4) tramp n"
    and "inst env st addr tramp (tramp + of_nat n) = Some (st', r)"
  shows "same_table (tmem st) (tmem st')"
    "\<exists>alt \<in> set (mirrors env r). drop_bit bits alt = drop_bit bits addr \<and>
      read32 (tmem st') (ios_elf_vaddr_to_paddr (tmem st') addr) = enc addr alt"
proof -
  let ?p = "ios_elf_vaddr_to_paddr (tmem st) addr"
  obtain alt where r: "r = align (tnext st) 4"
    and alt: "alt \<in> set (mirrors env r)" "drop_bit bits alt = drop_bit bits addr"
    and m: "tmem st' = write32 (memmove (tmem st) r tramp n) ?p (enc addr alt)"
    using effect [OF assms] by blast
  have 1: "same_table (tmem st) (memmove (tmem st) r tramp n)"
    using assms(1) r by (intro same_table_memmove) (simp add: hook_regions_def)
  have "same_table (memmove (tmem st) r tramp n) (tmem st')"
    unfolding m using assms(1)
    by (intro same_table_write32) (simp add: hook_regions_def off_table_cong [OF 1])
  with 1 show same: "same_table (tmem st) (tmem st')" by (rule same_table_trans)
  show "\<exists>alt \<in> set (mirrors env r). drop_bit bits alt = drop_bit bits addr \<and>
      read32 (tmem st') (ios_elf_vaddr_to_paddr (tmem st') addr) = enc addr alt"
    unfolding xlate_cong [OF same] using alt m by auto
qed

lemma copied_word_end:
  assumes "hook_regions (tmem st) addr (align (tnext st) 4) tramp n"
    and "inst env st addr tramp (tramp + of_nat n) = Some (st', r)" and "d + 4 \<le> n"
    and "d' + 4 \<le> n" and "d + 4 \<le> d' \<or> d' + 4 \<le> d"
  shows "read32 (write32 (tmem st') (r + of_nat d) v) (r + of_nat d')
    = read32 (tmem st) (tramp + of_nat d')"
proof -
  have "n \<le> 2 ^ 16" using assms(1) by (simp add: hook_regions_def)
  then have "disjoint_regions (r + of_nat d) 4 (r + of_nat d') 4"
    using assms(3-5) by (intro disjoint_nat) auto
  then show ?thesis
    using copied_word [OF assms(1,2,4)] by (simp add: read32_write32_other)
qed

end

lemma install_effect:
  assumes "hook_regions (tmem st) addr (align (tnext st) 4) tramp n"
    and "do { (st, inst) \<leftarrow> trampoline_copy env st tramp (tramp + of_nat n);
              alt \<leftarrow> trampoline_find_mapping env addr inst bits;
              Some (st\<lparr>tmem := patch_u32_k (tmem st) addr (enc addr alt)\<rparr>, inst) } = Some (st', r)"
  shows "r = align (tnext st) 4 \<and> tnext st' = r + of_nat n \<and> r + of_nat n < buffer_end env \<and>
     (\<exists>alt \<in> set (mirrors env r). drop_bit bits alt = drop_bit bits addr \<and>
        tmem st' = write32 (memmove (tmem st) r tramp n)
                     (ios_elf_vaddr_to_paddr (tmem st) addr) (enc addr alt))"
proof -
  let ?r = "align (tnext st) 4"
  have cp: "memcpy16 (tmem st) ?r tramp (of_nat n) = memmove (tmem st) ?r tramp n"
    using assms(1) by (intro memcpy16_eq_memmove) (simp_all add: hook_regions_def)
  obtain alt where fm: "trampoline_find_mapping env addr ?r bits = Some alt"
    and st': "r = ?r" "tnext st' = ?r + of_nat n" "?r + of_nat n < buffer_end env"
      "tmem st' = patch_u32_k (memmove (tmem st) ?r tramp n) addr (enc addr alt)"
    using assms(2) cp
    by (auto simp: trampoline_copy_def Let_def not_le split: if_splits bind_splits)
  have "alt \<in> set (mirrors env ?r)" "drop_bit bits alt = drop_bit bits addr"
    using fm by (auto simp: trampoline_find_mapping_def find_Some_iff)
  moreover have "same_table (tmem st) (memmove (tmem st) ?r tramp n)"
    using assms(1) by (intro same_table_memmove) (simp add: hook_regions_def)
  ultimately show ?thesis
    using st' by (auto simp: patch_u32_k_eq xlate_cong)
qed

interpretation inst_bl: installer trampoline_install bl_insn 26
  by unfold_locales
     (rule install_effect, auto simp: trampoline_install_def BL_TRAMPOLINE_K_def)

interpretation inst_b: installer trampoline_install_nolink branch_insn 26
  by unfold_locales
     (rule install_effect, auto simp: trampoline_install_nolink_def BRANCH_PATCH_K_def)

interpretation inst_t: installer trampoline_t_install bl_t_insn 23
  by unfold_locales
     (rule install_effect, auto simp: trampoline_t_install_def BL_T_TRAMPOLINE_K_def)

section \<open>What the hooks do\<close>

lemma off_table_sub:
  assumes "off_table m a n" "d + k \<le> n"
  shows "off_table m (a + of_nat d) k"
  using assms by (auto simp: off_table_def intro: disjoint_sub)

text \<open>Two words of the prototype are set before it is copied.\<close>

definition set_words :: "mem \<Rightarrow> u32 \<Rightarrow> nat \<Rightarrow> u32 \<Rightarrow> nat \<Rightarrow> u32 \<Rightarrow> mem" where
  "set_words m p c vc t vt = write32 (write32 m (p + of_nat c) vc) (p + of_nat t) vt"

lemma set_words_regions:
  assumes "hook_regions m addr r p n" "c + 4 \<le> n" "t + 4 \<le> n"
  shows "same_table m (set_words m p c vc t vt)"
    "hook_regions (set_words m p c vc t vt) addr r p n"
proof -
  have o: "off_table m p n" using assms(1) by (simp add: hook_regions_def)
  have 1: "same_table m (write32 m (p + of_nat c) vc)"
    using off_table_sub [OF o assms(2)] by (rule same_table_write32)
  have "off_table (write32 m (p + of_nat c) vc) (p + of_nat t) 4"
    using off_table_sub [OF o assms(3)] off_table_cong [OF 1] by simp
  then show same: "same_table m (set_words m p c vc t vt)"
    unfolding set_words_def using 1 same_table_trans same_table_write32 by blast
  show "hook_regions (set_words m p c vc t vt) addr r p n"
    using assms(1) by (simp add: hook_regions_cong [OF same])
qed

lemma set_words_read:
  assumes "c < 2 ^ 16" "t < 2 ^ 16" "c + 4 \<le> t \<or> t + 4 \<le> c"
  shows "read32 (set_words m p c vc t vt) (p + of_nat t) = vt"
    "read32 (set_words m p c vc t vt) (p + of_nat c) = vc"
proof -
  have "disjoint_regions (p + of_nat t) 4 (p + of_nat c) 4"
    using assms by (intro disjoint_nat) auto
  then show "read32 (set_words m p c vc t vt) (p + of_nat c) = vc"
    by (simp add: set_words_def read32_write32_other)
qed (simp add: set_words_def)

context installer
begin

lemma two_words:
  assumes reg: "hook_regions (tmem st) addr (align (tnext st) 4) p n"
    and run: "inst env (st\<lparr>tmem := set_words (tmem st) p c vc t vt\<rparr>) addr p (p + of_nat n)
      = Some (st', r)"
    and off: "c + 4 \<le> n" "t + 4 \<le> n" "c + 4 \<le> t \<or> t + 4 \<le> c"
  shows "r = align (tnext st) 4" "tnext st' = r + of_nat n" "tnext st' < buffer_end env"
    "read32 (tmem st') (r + of_nat c) = vc" "read32 (tmem st') (r + of_nat t) = vt"
    "same_table (tmem st) (tmem st')"
    "\<exists>alt \<in> set (mirrors env r). drop_bit bits alt = drop_bit bits addr \<and>
      read32 (tmem st') (ios_elf_vaddr_to_paddr (tmem st') addr) = enc addr alt"
proof -
  let ?st = "st\<lparr>tmem := set_words (tmem st) p c vc t vt\<rparr>"
  have reg': "hook_regions (tmem ?st) addr (align (tnext ?st) 4) p n"
    using set_words_regions(2) [OF reg off(1,2)] by simp
  have n: "n \<le> 2 ^ 16" using reg by (simp add: hook_regions_def)
  note rd = set_words_read [of c t "tmem st" p vc vt]
  show "r = align (tnext st) 4" "tnext st' = r + of_nat n" "tnext st' < buffer_end env"
    using in_buffer [OF reg' run] by auto
  show "read32 (tmem st') (r + of_nat c) = vc" "read32 (tmem st') (r + of_nat t) = vt"
    using copied_word [OF reg' run off(1)] copied_word [OF reg' run off(2)] rd off n by simp_all
  show "same_table (tmem st) (tmem st')"
    using set_words_regions(1) [OF reg off(1,2)] hooked(1) [OF reg' run]
    by (auto intro: same_table_trans)
  show "\<exists>alt \<in> set (mirrors env r). drop_bit bits alt = drop_bit bits addr \<and>
      read32 (tmem st') (ios_elf_vaddr_to_paddr (tmem st') addr) = enc addr alt"
    by (rule hooked(2) [OF reg' run])
qed

end

text \<open>A word of the copy that is set after the installation.\<close>

lemma late_word:
  fixes v :: u32
  assumes reg: "hook_regions m addr r p n" and same: "same_table m m1" and d: "d + 4 \<le> n"
  defines "m2 \<equiv> write32 m1 (r + of_nat d) v"
  shows "same_table m m2"
    "read32 m2 (ios_elf_vaddr_to_paddr m2 addr) = read32 m1 (ios_elf_vaddr_to_paddr m1 addr)"
    "read32 m2 (r + of_nat d) = v"
    "d' + 4 \<le> n \<Longrightarrow> d + 4 \<le> d' \<or> d' + 4 \<le> d \<Longrightarrow> read32 m2 (r + of_nat d') = read32 m1 (r + of_nat d')"
proof -
  have o: "off_table m r n" and n: "n \<le> 2 ^ 16"
    and dj: "disjoint_regions (ios_elf_vaddr_to_paddr m addr) 4 r n"
    using reg by (simp_all add: hook_regions_def)
  have "off_table m1 (r + of_nat d) 4"
    using off_table_sub [OF o d] by (simp add: off_table_cong [OF same])
  then have "same_table m1 m2" unfolding m2_def by (rule same_table_write32)
  with same show same2: "same_table m m2" by (rule same_table_trans)
  have "disjoint_regions (r + of_nat d) 4 (ios_elf_vaddr_to_paddr m addr) 4"
    using disjoint_sub [OF dj d] by (simp add: disjoint_sym)
  then have "read32 m2 (ios_elf_vaddr_to_paddr m addr) = read32 m1 (ios_elf_vaddr_to_paddr m addr)"
    unfolding m2_def by (rule read32_write32_other)
  then show "read32 m2 (ios_elf_vaddr_to_paddr m2 addr) = read32 m1 (ios_elf_vaddr_to_paddr m1 addr)"
    by (simp only: xlate_cong [OF same2] xlate_cong [OF same])
  show "read32 m2 (r + of_nat d) = v" by (simp add: m2_def)
  show "read32 m2 (r + of_nat d') = read32 m1 (r + of_nat d')"
    if "d' + 4 \<le> n" "d + 4 \<le> d' \<or> d' + 4 \<le> d"
    unfolding m2_def using that n d by (intro read32_write32_other disjoint_nat) auto
qed

lemma set_one_word:
  "write32 m (p + of_nat t) vt = set_words m p c (read32 m (p + of_nat c)) t vt"
  by (simp add: set_words_def)

text \<open>
  Replacing a called function: after \<^verbatim>\<open>trampoline_blreplace\<close> the copy of the
  prototype inside the buffer holds the new target and the old callee, and the hooked
  instruction is a \<^verbatim>\<open>BL\<close> to a mirror of the copy, decoded as such when it is in reach.
\<close>

lemma blreplace_hooked:
  assumes "hook_regions (tmem st) addr (align (tnext st) 4) (blre_proto env) 32"
    and "trampoline_blreplace env st addr target = Some st'"
  shows "read32 (tmem st') (align (tnext st) 4 + BLRE_TARGET) = target \<and>
    read32 (tmem st') (align (tnext st) 4 + BLRE_CHAIN) = extract_bl_target (tmem st) addr \<and>
    tnext st' = align (tnext st) 4 + BLRE_END \<and> tnext st' < buffer_end env \<and>
    (\<exists>alt \<in> set (mirrors env (align (tnext st) 4)). drop_bit 26 alt = drop_bit 26 addr \<and>
      (arm_reach addr alt \<longrightarrow> extract_bl_target (tmem st') addr = alt))"
proof -
  obtain r where run: "trampoline_install env (st\<lparr>tmem := set_words (tmem st) (blre_proto env)
      28 (extract_bl_target (tmem st) addr) 24 target\<rparr>) addr (blre_proto env)
      (blre_proto env + of_nat 32) = Some (st', r)"
    using assms(2) by (auto simp: trampoline_blreplace_def set_words_def proto_offsets Let_def)
  note w = inst_bl.two_words [OF assms(1) run]
  have t: "tnext st' = r + 32" "r = align (tnext st) 4" "tnext st' < buffer_end env"
    "read32 (tmem st') (r + 28) = extract_bl_target (tmem st) addr"
    "read32 (tmem st') (r + 24) = target"
    using w(1-5) by simp_all
  obtain alt where "alt \<in> set (mirrors env r)" "drop_bit 26 alt = drop_bit 26 addr"
    and i: "read32 (tmem st') (ios_elf_vaddr_to_paddr (tmem st') addr) = bl_insn addr alt"
    using w(7) by auto
  moreover have "arm_reach addr alt \<longrightarrow> extract_bl_target (tmem st') addr = alt"
    by (simp add: extract_bl_target_def Let_def i insn_top extract_bl)
  ultimately show ?thesis using t by (auto simp: proto_offsets)
qed

definition demo_env :: hook_env where
  "demo_env = \<lparr> buffer_end = 0x27F01000, base_addr = 0x27F00000, blre_proto = 0x27F00100,
     blre_regs_proto = 0x27F00200, hookbefore_proto = 0x27F00300,
     hookbefore_lr_proto = 0x27F00400, t_blre_proto = 0x27F00500,
     t_blre_regs_proto = 0x27F00600, t_hookbefore_proto = 0x27F00700,
     t_hookbefore_bl_proto = 0x27F00800 \<rparr>"

definition demo_st :: tstate where
  "demo_st = \<lparr> tmem = (\<lambda>_. 0), tnext = 0x27F00A02 \<rparr>"

lemma blank_memory [simp]:
  "read32 (\<lambda>_. 0) a = 0" "num_phdrs (\<lambda>_. 0) = 0" "ios_elf_vaddr_to_paddr (\<lambda>_. 0) a = a"
  by (simp_all add: read32_def num_phdrs_def phdr_fld_def ios_elf_vaddr_to_paddr_def vaddr_loop.simps)

lemma install_ok:
  assumes "align (tnext st) 4 + of_nat n < buffer_end env"
    and "trampoline_find_mapping env addr (align (tnext st) 4) 26 \<noteq> None"
  shows "\<exists>st' r. trampoline_install env (st\<lparr>tmem := m\<rparr>) addr p (p + of_nat n) = Some (st', r)"
    "\<exists>st' r. trampoline_install_nolink env (st\<lparr>tmem := m\<rparr>) addr p (p + of_nat n) = Some (st', r)"
  using assms
  by (auto simp: trampoline_install_def trampoline_install_nolink_def trampoline_copy_def
      Let_def not_le [symmetric])

lemma t_install_ok:
  assumes "align (tnext st) 4 + of_nat n < buffer_end env"
    and "trampoline_find_mapping env addr (align (tnext st) 4) 23 \<noteq> None"
  shows "\<exists>st' r. trampoline_t_install env (st\<lparr>tmem := m\<rparr>) addr p (p + of_nat n) = Some (st', r)"
  using assms
  by (auto simp: trampoline_t_install_def trampoline_copy_def Let_def not_le [symmetric])

lemma demo_map:
  "align (tnext demo_st) 4 + of_nat 32 < buffer_end demo_env"
  "trampoline_find_mapping demo_env 0x05100000 (align (tnext demo_st) 4) 26 \<noteq> None"
  by code_simp+

lemma demo_align: "align (tnext demo_st) 4 = 0x27F00A04"
  by code_simp

lemma demo_regions:
  "hook_regions (tmem demo_st) 0x05100000 (align (tnext demo_st) 4) (blre_proto demo_env) 32"
  "hook_regions (tmem demo_st) 0x05100000 (align (tnext demo_st) 4) (hookbefore_proto demo_env) 32"
  "hook_regions (tmem demo_st) 0x05100000 (align (tnext demo_st) 4) (hookbefore_lr_proto demo_env) 44"
  "hook_regions (tmem demo_st) 0x05100000 (align (tnext demo_st) 4) (t_blre_proto demo_env) 28"
  by (simp_all add: hook_regions_def disjoint_regions_def off_table_def demo_st_def demo_env_def
      align_def PHDRS_def PHDR_SZ_def)

lemma blreplace_demo:
  "\<exists>st'. trampoline_blreplace demo_env demo_st 0x05100000 0x0800 = Some st' \<and>
     read32 (tmem st') (0x27F00A04 + BLRE_TARGET) = 0x0800"
proof -
  obtain st' where run: "trampoline_blreplace demo_env demo_st 0x05100000 0x0800 = Some st'"
    using install_ok(1) [OF demo_map]
    by (fastforce simp: trampoline_blreplace_def Let_def proto_offsets)
  show ?thesis using blreplace_hooked [OF demo_regions(1) run] run demo_align by auto
qed

text \<open>
  Hooking before an instruction: a hooked \<^verbatim>\<open>BL\<close> becomes a jump through the chain
  word to the old callee, any other instruction is executed in the copy and followed by
  the prototype's \<^verbatim>\<open>bx lr\<close>; in both cases the hook's target is in its word.
\<close>

lemma hook_before_hooked:
  assumes reg: "hook_regions (tmem st) addr (align (tnext st) 4) (hookbefore_proto env) 32"
    and run: "trampoline_hook_before env st addr target = Some st'"
  defines "r \<equiv> align (tnext st) 4" and "p \<equiv> hookbefore_proto env"
    and "callee \<equiv> extract_bl_target (tmem st) addr"
  shows "read32 (tmem st') (r + HB_TARGET) = target \<and>
    (if callee \<noteq> 0
     then read32 (tmem st') (r + HB_CHAIN) = callee \<and>
          read32 (tmem st') (r + HB_ORGINS) = read32 (tmem st) (p + HB_ORGINS)
     else read32 (tmem st') (r + HB_CHAIN) = read32 (tmem st) (p + HB_CHAIN) \<and>
          read32 (tmem st') (r + HB_ORGINS)
            = read32 (tmem st) (ios_elf_vaddr_to_paddr (tmem st) addr)) \<and>
    tnext st' = r + HB_END \<and> tnext st' < buffer_end env \<and>
    (\<exists>alt \<in> set (mirrors env r). drop_bit 26 alt = drop_bit 26 addr \<and>
      (arm_reach addr alt \<longrightarrow> extract_bl_target (tmem st') addr = alt))"
proof -
  let ?w = "\<lambda>c. set_words (tmem st) p c (read32 (tmem st) (p + of_nat c)) 28 target"
  obtain r' st1 where run1: "trampoline_install env (st\<lparr>tmem := write32 (tmem st) (p + of_nat 28) target\<rparr>)
        addr p (p + of_nat 32) = Some (st1, r')"
    and st': "st' = (if callee \<noteq> 0
        then st1\<lparr>tmem := write32 (tmem st1) (r' + of_nat 24) callee\<rparr>
        else st1\<lparr>tmem := write32 (tmem st1) (r' + of_nat 20)
               (read32 (tmem st) (ios_elf_vaddr_to_paddr (tmem st) addr))\<rparr>)"
    using run by (auto simp: trampoline_hook_before_def proto_offsets Let_def p_def callee_def
        split: bind_splits)
  note w = inst_bl.two_words [OF reg [folded p_def] run1 [unfolded set_one_word [of _ _ _ _ 24]]]
  note w' = inst_bl.two_words [OF reg [folded p_def] run1 [unfolded set_one_word [of _ _ _ _ 20]]]
  have r: "r' = r" using w(1) by (simp add: r_def)
  have words: "read32 (tmem st1) (r + of_nat 24) = read32 (tmem st) (p + of_nat 24)"
    "read32 (tmem st1) (r + of_nat 20) = read32 (tmem st) (p + of_nat 20)"
    "read32 (tmem st1) (r + of_nat 28) = target"
    using w(4,5) w'(4) by (simp_all add: r)
  have same: "same_table (tmem st) (tmem st1)" using w(6) by simp
  note late = late_word [OF reg [folded p_def r_def] same]
  obtain alt where "alt \<in> set (mirrors env r)" "drop_bit 26 alt = drop_bit 26 addr"
    and i: "read32 (tmem st1) (ios_elf_vaddr_to_paddr (tmem st1) addr) = bl_insn addr alt"
    using w(7) by (auto simp: r)
  moreover have i': "read32 (tmem st') (ios_elf_vaddr_to_paddr (tmem st') addr) = bl_insn addr alt"
    using late(2) [of 24] late(2) [of 20] i by (simp add: st' r)
  have "arm_reach addr alt \<longrightarrow> extract_bl_target (tmem st') addr = alt"
    by (simp add: extract_bl_target_def Let_def i' insn_top extract_bl)
  moreover have "tnext st' = r + HB_END \<and> tnext st' < buffer_end env"
    using w(2,3) by (simp add: st' r proto_offsets)
  ultimately show ?thesis
    using late(3) [of 24] late(3) [of 20] late(4) [where d = 24 and d' = 28]
      late(4) [where d = 24 and d' = 20] late(4) [where d = 20 and d' = 28]
      late(4) [where d = 20 and d' = 24] words
    by (auto simp: st' r proto_offsets)
qed

lemma hook_before_demo:
  "\<exists>st'. trampoline_hook_before demo_env demo_st 0x05100000 0x0800 = Some st' \<and>
     read32 (tmem st') (0x27F00A04 + HB_TARGET) = 0x0800"
proof -
  obtain st' where run: "trampoline_hook_before demo_env demo_st 0x05100000 0x0800 = Some st'"
    using install_ok(1) [OF demo_map, of "write32 (tmem demo_st) (hookbefore_proto demo_env + 28) 0x0800"
        "hookbefore_proto demo_env"]
    by (auto simp: trampoline_hook_before_def Let_def proto_offsets)
  show ?thesis using hook_before_hooked [OF demo_regions(2) run] run demo_align by auto
qed

text \<open>
  The second hook: the return word is the destination of the hooked branch, or the
  next instruction; an instruction that is no branch is executed in the copy; the call
  to the copy links exactly when the hooked instruction did.
\<close>

lemma hook_before_v2_hooked:
  assumes reg: "hook_regions (tmem st) addr (align (tnext st) 4) (hookbefore_lr_proto env) 44"
    and run: "trampoline_hook_before_v2 env st addr target = Some st'"
  defines "r \<equiv> align (tnext st) 4" and "m \<equiv> tmem st"
    and "b \<equiv> (if extract_bl_target (tmem st) addr \<noteq> 0 then extract_bl_target (tmem st) addr
              else extract_b_target (tmem st) addr)"
  shows "read32 (tmem st') (r + HB_LR_TARGET) = target \<and>
    read32 (tmem st') (r + HB_LR_RET) = (if b \<noteq> 0 then b else addr + 4) \<and>
    (b = 0 \<longrightarrow> read32 (tmem st') (r + HB_LR_ORGINS) = read32 m (ios_elf_vaddr_to_paddr m addr)) \<and>
    (\<exists>alt \<in> set (mirrors env r). drop_bit 26 alt = drop_bit 26 addr \<and>
      (arm_reach addr alt \<longrightarrow>
        (if extract_bl_target m addr \<noteq> 0 then extract_bl_target (tmem st') addr = alt
         else extract_b_target (tmem st') addr = alt)))"
proof -
  let ?p = "hookbefore_lr_proto env"
  let ?inst = "if extract_bl_target m addr \<noteq> 0 then trampoline_install else trampoline_install_nolink"
  let ?enc = "if extract_bl_target m addr \<noteq> 0 then bl_insn else branch_insn"
  define st0 where "st0 = st\<lparr>tmem := set_words (tmem st) ?p 36 target 40 (if b \<noteq> 0 then b else addr + 4)\<rparr>"
  obtain r' st1 where run1: "?inst env st0 addr ?p (?p + of_nat 44) = Some (st1, r')"
    and st': "st' = (if b = 0 then st1\<lparr>tmem := write32 (tmem st1) (r' + of_nat 28)
               (read32 m (ios_elf_vaddr_to_paddr m addr))\<rparr> else st1)"
    using run unfolding st0_def b_def m_def
    by (auto simp: trampoline_hook_before_v2_def set_words_def proto_offsets Let_def
        split: bind_splits if_splits)
  have w: "r' = r" "read32 (tmem st1) (r + of_nat 36) = target"
      "read32 (tmem st1) (r + of_nat 40) = (if b \<noteq> 0 then b else addr + 4)"
      "same_table (tmem st) (tmem st1)"
      "\<exists>alt \<in> set (mirrors env r). drop_bit 26 alt = drop_bit 26 addr \<and>
        read32 (tmem st1) (ios_elf_vaddr_to_paddr (tmem st1) addr) = ?enc addr alt"
  proof -
    note b1 = inst_bl.two_words [OF reg, where c = 36 and vc = target and t = 40
      and vt = "if b \<noteq> 0 then b else addr + 4" and st' = st1 and r = r']
    note b2 = inst_b.two_words [OF reg, where c = 36 and vc = target and t = 40
      and vt = "if b \<noteq> 0 then b else addr + 4" and st' = st1 and r = r']
    have "r' = r" using run1 b1(1) b2(1) by (auto simp: st0_def r_def split: if_splits)
    then show "r' = r" "read32 (tmem st1) (r + of_nat 36) = target"
      "read32 (tmem st1) (r + of_nat 40) = (if b \<noteq> 0 then b else addr + 4)"
      "same_table (tmem st) (tmem st1)"
      "\<exists>alt \<in> set (mirrors env r). drop_bit 26 alt = drop_bit 26 addr \<and>
        read32 (tmem st1) (ios_elf_vaddr_to_paddr (tmem st1) addr) = ?enc addr alt"
      using run1 b1(4-7) b2(4-7) by (simp_all add: st0_def split: if_splits)
  qed
  note late = late_word [OF reg [folded r_def] w(4)]
  obtain alt where "alt \<in> set (mirrors env r)" "drop_bit 26 alt = drop_bit 26 addr"
    and i: "read32 (tmem st1) (ios_elf_vaddr_to_paddr (tmem st1) addr) = ?enc addr alt"
    using w(5) by auto
  moreover have i': "read32 (tmem st') (ios_elf_vaddr_to_paddr (tmem st') addr) = ?enc addr alt"
    using late(2) [of 28] i by (simp add: st' w(1))
  have "arm_reach addr alt \<longrightarrow>
        (if extract_bl_target m addr \<noteq> 0 then extract_bl_target (tmem st') addr = alt
         else extract_b_target (tmem st') addr = alt)"
    using i' by (simp add: extract_bl_target_def [of "tmem st'"] extract_b_target_def Let_def
        insn_top extract_bl extract_b)
  ultimately show ?thesis
    using late(3) [of 28] late(4) [where d = 28 and d' = 36] late(4) [where d = 28 and d' = 40] w(2,3)
    by (auto simp: st' w(1) proto_offsets)
qed

lemma hook_before_v2_demo:
  "\<exists>st'. trampoline_hook_before_v2 demo_env demo_st 0x05100000 0x0800 = Some st' \<and>
     read32 (tmem st') (0x27F00A04 + HB_LR_RET) = 0x05100004"
proof -
  have m: "align (tnext demo_st) 4 + of_nat 44 < buffer_end demo_env" by code_simp
  have z: "extract_bl_target (tmem demo_st) a = 0" "extract_b_target (tmem demo_st) a = 0" for a
    by (simp_all add: extract_bl_target_def extract_b_target_def demo_st_def Let_def)
  obtain st' where run: "trampoline_hook_before_v2 demo_env demo_st 0x05100000 0x0800 = Some st'"
    using install_ok(2) [OF m demo_map(2), of "set_words (tmem demo_st) (hookbefore_lr_proto demo_env)
        36 0x0800 40 0x05100004" "hookbefore_lr_proto demo_env"]
    by (auto simp: trampoline_hook_before_v2_def set_words_def Let_def proto_offsets z)
  show ?thesis using hook_before_v2_hooked [OF demo_regions(3) run] run demo_align by (auto simp: z)
qed

text \<open>
  Thumb hooks reach forward only: after \<^verbatim>\<open>trampoline_t_blreplace\<close> the hooked pair of
  halfwords decodes to the copy when the copy lies ahead of it, and to an address
  4 MiB above the copy when it lies behind.
\<close>

lemma t_blreplace_hooked:
  assumes reg: "hook_regions (tmem st) addr (align (tnext st) 4) (t_blre_proto env) 28"
    and run: "trampoline_t_blreplace env st addr target = Some st'"
  defines "r \<equiv> align (tnext st) 4"
  shows "read32 (tmem st') (r + T_BLRE_TARGET) = target \<and>
    read32 (tmem st') (r + T_BLRE_CHAIN) = extract_bl_t_target (tmem st) addr \<and>
    (\<exists>alt \<in> set (mirrors env r). drop_bit 23 alt = drop_bit 23 addr \<and>
      (thumb_reach addr alt \<longrightarrow> extract_bl_t_target (tmem st') addr =
        (if 0 \<le> sint (alt - addr - 4) then alt OR 1 else (alt + 0x400000) OR 1)))"
proof -
  let ?p = "t_blre_proto env"
  obtain r' where run1: "trampoline_t_install env (st\<lparr>tmem := set_words (tmem st) ?p
      24 (extract_bl_t_target (tmem st) addr) 20 target\<rparr>) addr ?p (?p + of_nat 28) = Some (st', r')"
    using run by (auto simp: trampoline_t_blreplace_def set_words_def proto_offsets Let_def)
  note w = inst_t.two_words [OF reg run1]
  have t: "r' = r" "read32 (tmem st') (r' + 24) = extract_bl_t_target (tmem st) addr"
    "read32 (tmem st') (r' + 20) = target"
    using w(1,4,5) by (simp_all add: r_def)
  obtain alt where "alt \<in> set (mirrors env r)" "drop_bit 23 alt = drop_bit 23 addr"
    and i: "read32 (tmem st') (ios_elf_vaddr_to_paddr (tmem st') addr) = bl_t_insn addr alt"
    using w(7) t(1) by auto
  moreover have "thumb_reach addr alt \<longrightarrow> extract_bl_t_target (tmem st') addr =
        (if 0 \<le> sint (alt - addr - 4) then alt OR 1 else (alt + 0x400000) OR 1)"
    using thumb_decode [of addr alt]
    by (simp add: extract_bl_t_target_def Let_def i
        read32_halves [of "tmem st'" "ios_elf_vaddr_to_paddr (tmem st') addr"])
  ultimately show ?thesis using t by (auto simp: proto_offsets)
qed

lemma t_blreplace_demo:
  "\<exists>st'. trampoline_t_blreplace demo_env demo_st 0x05100000 0x0801 = Some st' \<and>
     read32 (tmem st') (0x27F00A04 + T_BLRE_TARGET) = 0x0801"
proof -
  have m: "align (tnext demo_st) 4 + of_nat 28 < buffer_end demo_env"
    "trampoline_find_mapping demo_env 0x05100000 (align (tnext demo_st) 4) 23 \<noteq> None"
    by code_simp+
  obtain st' where run: "trampoline_t_blreplace demo_env demo_st 0x05100000 0x0801 = Some st'"
    using t_install_ok [OF m] by (fastforce simp: trampoline_t_blreplace_def Let_def proto_offsets)
  show ?thesis using t_blreplace_hooked [OF demo_regions(4) run] run demo_align by auto
qed

text \<open>
  Being in the same 64 MiB (8 MiB) is not being in reach of a branch: the check of
  \<^verbatim>\<open>trampoline_find_mapping\<close> accepts copies whose branch lands elsewhere.
\<close>

lemma same_region_not_in_reach:
  "trampoline_find_mapping demo_env 0x24000000 0x27F00A04 26 = Some 0x27F00A04 \<and>
   extract_target 0x24000000 (bl_insn 0x24000000 0x27F00A04) = 0x23F00A04 \<and>
   trampoline_find_mapping demo_env 0x27800000 0x27F00A04 23 = Some 0x27F00A04 \<and>
   bl_t_target 0x27800000 (hi16 (bl_t_insn 0x27800000 0x27F00A04))
     (lo16 (bl_t_insn 0x27800000 0x27F00A04)) \<noteq> 0x27F00A05"
  by code_simp

end
