(* ===== verification/TrampolineRun.thy ===== *)
theory TrampolineRun
  imports Trampoline
begin

text \<open>
  The prototypes of \<^verbatim>\<open>trampoline_asm.S\<close> as programs, and what a processor does when it runs a
  copy that \<^verbatim>\<open>trampoline.c\<close> has filled in.  The registers are numbered as the processor numbers
  them: 13 is the stack pointer, 14 the link register, 15 the program counter.

  The words of a copy are read through their labels: the copy is executed at a mirror address,
  and its loads are relative to the program counter.  The code of the hook and of the functions
  it is chained to is a function \<open>code\<close> on states, which starts at an address and returns to the
  link register; \<open>orig\<close> is the effect of an instruction that was moved into the copy, at the address
  at which it is executed: it goes on behind itself or, when it writes the program counter, elsewhere.
\<close>

section \<open>The processor\<close>

record cpu =
  reg :: "nat \<Rightarrow> u32"
  cmem :: mem
  zflag :: bool

datatype insn =
    PUSH "nat list" | POP "nat list"
  | LDR nat string | LDRNE nat string
  | BLX nat | BX nat
  | MOV nat nat | ADDSP nat
  | LDRSP nat nat | STRSP nat nat
  | CMP0 nat | NOP | ORIG

datatype effect = Next cpu | Jump cpu

text \<open>Registers are stored and loaded at increasing addresses from \<open>a + 4 * k\<close> on.\<close>

fun store_regs :: "nat list \<Rightarrow> (nat \<Rightarrow> u32) \<Rightarrow> u32 \<Rightarrow> nat \<Rightarrow> mem \<Rightarrow> mem" where
  "store_regs [] r a k m = m"
| "store_regs (x # xs) r a k m = store_regs xs r a (Suc k) (write32 m (a + of_nat (4 * k)) (r x))"

fun load_regs :: "nat list \<Rightarrow> mem \<Rightarrow> u32 \<Rightarrow> nat \<Rightarrow> (nat \<Rightarrow> u32) \<Rightarrow> nat \<Rightarrow> u32" where
  "load_regs [] m a k r = r"
| "load_regs (x # xs) m a k r = load_regs xs m a (Suc k) (r(x := read32 m (a + of_nat (4 * k))))"

definition set_reg :: "nat \<Rightarrow> u32 \<Rightarrow> cpu \<Rightarrow> cpu" where
  "set_reg x v c = c\<lparr>reg := (reg c)(x := v)\<rparr>"

definition push :: "nat list \<Rightarrow> cpu \<Rightarrow> cpu" where
  "push xs c =
     (let sp = reg c 13 - of_nat (4 * length xs)
      in set_reg 13 sp (c\<lparr>cmem := store_regs xs (reg c) sp 0 (cmem c)\<rparr>))"

definition pop :: "nat list \<Rightarrow> cpu \<Rightarrow> cpu" where
  "pop xs c =
     c\<lparr>reg := (load_regs xs (cmem c) (reg c 13) 0 (reg c))(13 := reg c 13 + of_nat (4 * length xs))\<rparr>"

text \<open>
  A program runs until an instruction writes the program counter.  Instructions have \<open>sz\<close>
  bytes, \<open>pos\<close> is the address of the next one; a call from Thumb code links with the low bit set.
\<close>

fun run ::
  "(u32 \<Rightarrow> cpu \<Rightarrow> cpu) \<Rightarrow> (u32 \<Rightarrow> cpu \<Rightarrow> effect) \<Rightarrow> (string \<Rightarrow> u32) \<Rightarrow> nat \<Rightarrow> u32 \<Rightarrow> insn list \<Rightarrow> cpu \<Rightarrow> cpu option" where
  "run code orig lit sz pos [] c = None"
| "run code orig lit sz pos (PUSH xs # is) c = run code orig lit sz (pos + of_nat sz) is (push xs c)"
| "run code orig lit sz pos (POP xs # is) c =
     (if 15 \<in> set xs then Some (pop xs c) else run code orig lit sz (pos + of_nat sz) is (pop xs c))"
| "run code orig lit sz pos (LDR x l # is) c =
     (let c = set_reg x (lit l) c in if x = 15 then Some c else run code orig lit sz (pos + of_nat sz) is c)"
| "run code orig lit sz pos (LDRNE x l # is) c =
     (if zflag c then run code orig lit sz (pos + of_nat sz) is c
      else let c = set_reg x (lit l) c in if x = 15 then Some c else run code orig lit sz (pos + of_nat sz) is c)"
| "run code orig lit sz pos (BLX x # is) c =
     run code orig lit sz (pos + of_nat sz) is
       (code (reg c x) (set_reg 14 ((pos + of_nat sz) OR (if sz = 2 then 1 else 0)) c))"
| "run code orig lit sz pos (BX x # is) c = Some (set_reg 15 (reg c x) c)"
| "run code orig lit sz pos (MOV x y # is) c = run code orig lit sz (pos + of_nat sz) is (set_reg x (reg c y) c)"
| "run code orig lit sz pos (ADDSP n # is) c =
     run code orig lit sz (pos + of_nat sz) is (set_reg 13 (reg c 13 + of_nat n) c)"
| "run code orig lit sz pos (LDRSP x n # is) c =
     run code orig lit sz (pos + of_nat sz) is (set_reg x (read32 (cmem c) (reg c 13 + of_nat n)) c)"
| "run code orig lit sz pos (STRSP x n # is) c =
     run code orig lit sz (pos + of_nat sz) is (c\<lparr>cmem := write32 (cmem c) (reg c 13 + of_nat n) (reg c x)\<rparr>)"
| "run code orig lit sz pos (CMP0 x # is) c = run code orig lit sz (pos + of_nat sz) is (c\<lparr>zflag := reg c x = 0\<rparr>)"
| "run code orig lit sz pos (NOP # is) c = run code orig lit sz (pos + of_nat sz) is c"
| "run code orig lit sz pos (ORIG # is) c =
     (case orig pos c of Next c \<Rightarrow> run code orig lit sz (pos + of_nat sz) is c | Jump c \<Rightarrow> Some c)"

section \<open>The prototypes\<close>

text \<open>A listing: instructions and words, some with a label.\<close>

datatype item = Ins insn | Lab string insn | Word string | Align4

fun offsets :: "nat \<Rightarrow> nat \<Rightarrow> item list \<Rightarrow> (string \<times> nat) list" where
  "offsets sz p [] = [(''end'', p)]"
| "offsets sz p (Ins i # xs) = offsets sz (p + sz) xs"
| "offsets sz p (Lab l i # xs) = (l, p) # offsets sz (p + sz) xs"
| "offsets sz p (Word l # xs) = (l, p) # offsets sz (p + 4) xs"
| "offsets sz p (Align4 # xs) = offsets sz ((p + 3) div 4 * 4) xs"

fun insns :: "item list \<Rightarrow> insn list" where
  "insns [] = []"
| "insns (Ins i # xs) = i # insns xs"
| "insns (Lab l i # xs) = i # insns xs"
| "insns (Word l # xs) = insns xs"
| "insns (Align4 # xs) = insns xs"

definition label_of :: "nat \<Rightarrow> item list \<Rightarrow> string \<Rightarrow> u32" where
  "label_of sz xs l = of_nat (the (map_of (offsets sz 0 xs) l))"

text \<open>The registers a hook saves: r0 to r12 and lr, in Thumb code r0 to r7 and lr.\<close>

definition frame :: "nat list" where "frame = [0, 1, 2, 3, 4, 5, 6, 7, 8, 9, 10, 11, 12, 14]"

definition t_frame :: "nat list" where "t_frame = [0, 1, 2, 3, 4, 5, 6, 7, 14]"

definition trampoline_blre :: "item list" where
  "trampoline_blre =
     [Ins (PUSH [14]), Ins (LDR 14 ''chain''), Ins (PUSH [14]), Ins (LDR 14 ''target''), Ins (BLX 14),
      Ins (POP [14, 15]), Word ''target'', Word ''chain'']"

definition trampoline_blre_regs :: "item list" where
  "trampoline_blre_regs =
     [Ins (PUSH [14]), Ins (LDR 14 ''chain''), Ins (PUSH [4, 5, 6, 7, 8, 9, 10, 11, 12, 14]),
      Ins (LDR 14 ''target''), Ins (BLX 14), Ins (ADDSP 36), Ins (POP [14, 15]), Word ''target'', Word ''chain'']"

definition trampoline_hookbefore :: "item list" where
  "trampoline_hookbefore =
     [Ins (PUSH frame), Ins (MOV 0 13), Ins (LDR 14 ''target''), Ins (BLX 14),
      Ins (POP frame), Lab ''orgins'' (LDR 15 ''chain''), Lab ''chain'' (BX 14),
      Word ''target'']"

definition trampoline_hookbefore_lr :: "item list" where
  "trampoline_hookbefore_lr =
     [Ins (PUSH frame), Ins (MOV 0 13), Ins (LDR 14 ''target''), Ins (BLX 14),
      Ins (CMP0 0), Ins (POP frame), Ins (LDRNE 15 ''ret''),
      Lab ''orgins'' NOP, Ins (LDR 15 ''ret''), Word ''target'', Word ''ret'']"

definition trampoline_t_blre :: "item list" where
  "trampoline_t_blre =
     [Ins (PUSH [0, 1, 14]), Ins (LDR 0 ''target''), Ins (MOV 14 0), Ins (LDR 0 ''chain''), Ins (STRSP 0 4),
      Ins (POP [0]), Ins (BLX 14), Ins (ADDSP 4), Ins (POP [15]), Align4, Word ''target'', Word ''chain'']"

definition trampoline_t_blre_regs :: "item list" where
  "trampoline_t_blre_regs =
     [Ins (PUSH [14]), Ins (PUSH [0, 4, 5, 6, 7, 14]), Ins (LDR 0 ''target''), Ins (MOV 14 0), Ins (LDR 0 ''chain''),
      Ins (STRSP 0 20), Ins (POP [0]), Ins (BLX 14), Ins (ADDSP 4), Ins (POP [15]), Align4, Word ''target'', Word ''chain'']"

definition trampoline_t_hookbefore :: "item list" where
  "trampoline_t_hookbefore =
     [Ins (PUSH t_frame), Ins (LDR 7 ''target''), Ins (MOV 0 13), Ins (BLX 7), Ins (LDRSP 0 32),
      Ins (MOV 14 0), Ins (POP [0, 1, 2, 3, 4, 5, 6, 7]), Ins (ADDSP 4), Lab ''orgins'' NOP, Ins NOP, Ins (BX 14),
      Ins NOP, Word ''target'']"

definition trampoline_t_hookbefore_bl :: "item list" where
  "trampoline_t_hookbefore_bl =
     [Ins (PUSH t_frame), Ins (LDR 7 ''target''), Ins (MOV 0 13), Ins (BLX 7), Ins (LDRSP 0 32),
      Ins (MOV 14 0), Ins (LDR 1 ''chain''), Ins (STRSP 1 32), Ins (POP [0, 1, 2, 3, 4, 5, 6, 7, 15]), Align4,
      Word ''chain'', Word ''target'']"

text \<open>The offsets of \<open>Trampoline\<close> are those of the listings.\<close>

lemma listing_offsets:
  "label_of 4 trampoline_blre ''target'' = BLRE_TARGET" "label_of 4 trampoline_blre ''chain'' = BLRE_CHAIN"
  "label_of 4 trampoline_blre ''end'' = BLRE_END"
  "label_of 4 trampoline_blre_regs ''target'' = BLRE_REGS_TARGET" "label_of 4 trampoline_blre_regs ''chain'' = BLRE_REGS_CHAIN"
  "label_of 4 trampoline_blre_regs ''end'' = BLRE_REGS_END"
  "label_of 4 trampoline_hookbefore ''orgins'' = HB_ORGINS" "label_of 4 trampoline_hookbefore ''chain'' = HB_CHAIN"
  "label_of 4 trampoline_hookbefore ''target'' = HB_TARGET" "label_of 4 trampoline_hookbefore ''end'' = HB_END"
  "label_of 4 trampoline_hookbefore_lr ''orgins'' = HB_LR_ORGINS" "label_of 4 trampoline_hookbefore_lr ''target'' = HB_LR_TARGET"
  "label_of 4 trampoline_hookbefore_lr ''ret'' = HB_LR_RET" "label_of 4 trampoline_hookbefore_lr ''end'' = HB_LR_END"
  "label_of 2 trampoline_t_blre ''target'' = T_BLRE_TARGET" "label_of 2 trampoline_t_blre ''chain'' = T_BLRE_CHAIN"
  "label_of 2 trampoline_t_blre ''end'' = T_BLRE_END"
  "label_of 2 trampoline_t_blre_regs ''target'' = T_BLRE_TARGET" "label_of 2 trampoline_t_blre_regs ''chain'' = T_BLRE_CHAIN"
  "label_of 2 trampoline_t_blre_regs ''end'' = T_BLRE_END"
  "label_of 2 trampoline_t_hookbefore ''orgins'' = T_HB_ORGINS" "label_of 2 trampoline_t_hookbefore ''target'' = T_HB_TARGET"
  "label_of 2 trampoline_t_hookbefore ''end'' = T_HB_END"
  "label_of 2 trampoline_t_hookbefore_bl ''chain'' = T_HB_BL_CHAIN" "label_of 2 trampoline_t_hookbefore_bl ''target'' = T_HB_BL_TARGET"
  "label_of 2 trampoline_t_hookbefore_bl ''end'' = T_HB_BL_END"
  by code_simp+

section \<open>Saving and restoring registers\<close>

lemma read32_store_regs:
  assumes "k + length xs \<le> 2 ^ 20" and "j \<le> 2 ^ 20"
  shows "read32 (store_regs xs r a k m) (a + of_nat (4 * j)) =
    (if k \<le> j \<and> j < k + length xs then r (xs ! (j - k)) else read32 m (a + of_nat (4 * j)))"
  using assms
proof (induction xs arbitrary: k m)
  case (Cons x xs)
  have other: "read32 (write32 m (a + of_nat (4 * k)) v) (a + of_nat (4 * j)) = read32 m (a + of_nat (4 * j))"
    if "j \<noteq> k" for v
    using that Cons.prems by (intro read32_write32_other disjoint_nat) auto
  show ?case
  proof (cases "j = k")
    case False
    then show ?thesis using Cons.prems by (simp add: Cons.IH other nth_Cons' del: of_nat_mult)
  next
    case True
    then show ?thesis using Cons.prems by (simp add: Cons.IH True [symmetric] del: of_nat_mult)
  qed
qed auto

lemma store_regs_other:
  assumes "4 * (k + length xs) \<le> adist a x"
  shows "store_regs xs r a k m x = m x"
  using assms
proof (induction xs arbitrary: k m)
  case (Cons y xs)
  have "4 * k \<le> adist a x" using Cons.prems by simp
  then have "adist (a + of_nat (4 * k)) x = adist a x - 4 * k" by (rule adist_offset)
  then have "4 \<le> adist (a + of_nat (4 * k)) x" using Cons.prems by simp
  then have "write32 m (a + of_nat (4 * k)) (r y) x = m x" by (rule write32_other)
  then show ?case using Cons.prems by (simp add: Cons.IH del: of_nat_mult)
qed simp

lemma load_regs_other [simp]: "x \<notin> set xs \<Longrightarrow> load_regs xs m a k r x = r x"
  by (induction xs arbitrary: k r) auto

lemma load_regs_nth:
  "distinct xs \<Longrightarrow> i < length xs \<Longrightarrow> load_regs xs m a k r (xs ! i) = read32 m (a + of_nat (4 * (k + i)))"
proof (induction xs arbitrary: k r i)
  case (Cons x xs)
  then show ?case by (cases i) (auto simp: ac_simps simp del: of_nat_mult)
qed simp

text \<open>Words at fixed offsets below one address.\<close>

lemma disjoint_below:
  "disjoint_regions (x - a) n (x - b) k \<longleftrightarrow> n = 0 \<or> k = 0 \<or> n \<le> unat (a - b) \<and> k \<le> unat (b - a)"
  by (simp add: disjoint_regions_def)

lemmas cpu_simps = push_def pop_def set_reg_def Let_def

text \<open>
  The frame of a hook: the registers 0 to 12 and the link register.  The hook's argument is a
  \<^verbatim>\<open>trampoline_state *\<close> to it, a Thumb hook's a \<^verbatim>\<open>trampoline_t_state *\<close> with 8 registers.
\<close>

definition state_r :: "mem \<Rightarrow> u32 \<Rightarrow> nat \<Rightarrow> u32" where
  "state_r m s i = read32 m (s + of_nat (4 * i))"

definition state_lr :: "mem \<Rightarrow> u32 \<Rightarrow> u32" where
  "state_lr m s = read32 m (s + 52)"

definition t_state_lr :: "mem \<Rightarrow> u32 \<Rightarrow> u32" where
  "t_state_lr m s = read32 m (s + 32)"

lemma frame_facts: "length frame = 14" "distinct frame" "i < 13 \<Longrightarrow> frame ! i = i" "frame ! 13 = 14"
  "15 \<notin> set frame"
  by (auto simp: frame_def nth_Cons split: nat.split)

lemma frame_saved:
  assumes "i < 13"
  shows "state_r (store_regs frame r a 0 m) a i = r i"
    and "state_lr (store_regs frame r a 0 m) a = r 14"
  using assms read32_store_regs [of 0 frame i r a m] read32_store_regs [of 0 frame 13 r a m]
  by (simp_all add: frame_facts state_r_def state_lr_def)

lemma frame_restored:
  assumes "i < 13"
  shows "reg (pop frame c) i = state_r (cmem c) (reg c 13) i"
    and "reg (pop frame c) 14 = state_lr (cmem c) (reg c 13)"
    and "reg (pop frame c) 13 = reg c 13 + 56"
  using load_regs_nth [of frame i "cmem c" "reg c 13" 0 "reg c"]
    load_regs_nth [of frame 13 "cmem c" "reg c 13" 0 "reg c"] assms
  by (simp_all add: frame_facts pop_def state_r_def state_lr_def)

section \<open>Replaced calls\<close>

text \<open>
  The state in which the replacement of a called function starts: the old callee is on top of
  the stack, where a fifth argument is expected, and the return address below it.
\<close>

definition replacement_entry :: "u32 \<Rightarrow> u32 \<Rightarrow> cpu \<Rightarrow> cpu" where
  "replacement_entry callee link c =
     c\<lparr>reg := (reg c)(13 := reg c 13 - 8, 14 := link),
       cmem := write32 (write32 (cmem c) (reg c 13 - 4) (reg c 14)) (reg c 13 - 8) callee\<rparr>"

lemma run_blre:
  "run code orig lit 4 pos (insns trampoline_blre) c =
   Some (pop [14, 15] (code (lit ''target'') (replacement_entry (lit ''chain'') (pos + 20) c)))"
  by (cases c) (simp add: trampoline_blre_def replacement_entry_def cpu_simps fun_upd_twist ac_simps)

lemma run_blre_regs:
  "run code orig lit 4 pos (insns trampoline_blre_regs) c =
   (let c1 = c\<lparr>reg := (reg c)(13 := reg c 13 - 44, 14 := pos + 20),
               cmem := store_regs [4, 5, 6, 7, 8, 9, 10, 11, 12, 14] ((reg c)(14 := lit ''chain'')) (reg c 13 - 44) 0
                         (write32 (cmem c) (reg c 13 - 4) (reg c 14))\<rparr>;
        d = code (lit ''target'') c1
    in Some (pop [14, 15] (set_reg 13 (reg d 13 + 36) d)))"
  by (cases c) (simp add: trampoline_blre_regs_def push_def set_reg_def Let_def fun_upd_twist, simp add: add.commute)

lemma run_t_blre:
  "run code orig lit 2 pos (insns trampoline_t_blre) c =
   (let c1 = c\<lparr>reg := (reg c)(13 := reg c 13 - 8, 14 := (pos + 14) OR 1),
               cmem := write32 (store_regs [0, 1, 14] (reg c) (reg c 13 - 12) 0 (cmem c)) (reg c 13 - 8) (lit ''chain'')\<rparr>;
        d = code (lit ''target'') c1
    in Some (d\<lparr>reg := (reg d)(13 := reg d 13 + 8, 15 := read32 (cmem d) (reg d 13 + 4))\<rparr>))"
  by (cases c) (simp add: trampoline_t_blre_def cpu_simps fun_upd_twist read32_write32_other disjoint_below fun_upd_idem,
      simp add: add.commute)

lemma run_t_blre_regs:
  "run code orig lit 2 pos (insns trampoline_t_blre_regs) c =
   (let c1 = c\<lparr>reg := (reg c)(13 := reg c 13 - 24, 14 := (pos + 16) OR 1),
               cmem := write32 (store_regs [0, 4, 5, 6, 7, 14] (reg c) (reg c 13 - 28) 0
                         (write32 (cmem c) (reg c 13 - 4) (reg c 14))) (reg c 13 - 8) (lit ''chain'')\<rparr>;
        d = code (lit ''target'') c1
    in Some (d\<lparr>reg := (reg d)(13 := reg d 13 + 8, 15 := read32 (cmem d) (reg d 13 + 4))\<rparr>))"
  by (cases c) (simp add: trampoline_t_blre_regs_def cpu_simps fun_upd_twist read32_write32_other disjoint_below fun_upd_idem,
      simp add: add.commute)

section \<open>Hooks before an instruction\<close>

text \<open>The state in which a hook starts: its argument points to the saved registers.\<close>

definition hook_entry :: "nat list \<Rightarrow> u32 \<Rightarrow> cpu \<Rightarrow> cpu" where
  "hook_entry saved link c =
     (let s = reg c 13 - of_nat (4 * length saved)
      in c\<lparr>cmem := store_regs saved (reg c) s 0 (cmem c), reg := (reg c)(13 := s, 0 := s, 14 := link)\<rparr>)"

text \<open>A copy in which the hooked instruction was placed.\<close>

definition placed :: "item list \<Rightarrow> item list" where
  "placed = map (\<lambda>x. case x of Lab l i \<Rightarrow> Lab l (if l = ''orgins'' then ORIG else i) | _ \<Rightarrow> x)"

lemma run_hookbefore:
  "run code orig lit 4 pos (insns trampoline_hookbefore) c =
     Some (set_reg 15 (lit ''chain'') (pop frame (code (lit ''target'') (hook_entry frame (pos + 16) c))))"
  "run code orig lit 4 pos (insns (placed trampoline_hookbefore)) c =
     (case orig (pos + 20) (pop frame (code (lit ''target'') (hook_entry frame (pos + 16) c))) of
        Next e \<Rightarrow> Some (set_reg 15 (reg e 14) e) | Jump e \<Rightarrow> Some e)"
  by (simp_all add: trampoline_hookbefore_def placed_def hook_entry_def frame_facts add.commute [of pos]
      push_def set_reg_def Let_def split: effect.split)

lemma run_hookbefore_lr:
  fixes code c
  defines "d \<equiv> \<lambda>t l. code t (hook_entry frame l c)"
  defines "e \<equiv> \<lambda>t l. pop frame ((d t l)\<lparr>zflag := reg (d t l) 0 = 0\<rparr>)"
  shows "run code orig lit 4 pos (insns trampoline_hookbefore_lr) c =
      Some (set_reg 15 (lit ''ret'') (e (lit ''target'') (pos + 16)))"
    and "run code orig lit 4 pos (insns (placed trampoline_hookbefore_lr)) c =
      (if reg (d (lit ''target'') (pos + 16)) 0 \<noteq> 0 then Some (set_reg 15 (lit ''ret'') (e (lit ''target'') (pos + 16)))
       else case orig (pos + 28) (e (lit ''target'') (pos + 16)) of
          Next f \<Rightarrow> Some (set_reg 15 (lit ''ret'') f) | Jump f \<Rightarrow> Some f)"
  unfolding d_def e_def
  by (simp_all add: trampoline_hookbefore_lr_def placed_def hook_entry_def frame_facts add.commute [of pos]
      push_def set_reg_def Let_def pop_def split: effect.split)

text \<open>
  The Thumb prototypes load the target through r7, which they have saved, and restore the link
  register through r0.
\<close>

definition t_hook_entry :: "u32 \<Rightarrow> u32 \<Rightarrow> cpu \<Rightarrow> cpu" where
  "t_hook_entry target link c = set_reg 7 target (hook_entry t_frame link c)"

lemma run_t_hook_entry:
  "run code orig lit 2 pos (PUSH t_frame # LDR 7 ''target'' # MOV 0 13 # BLX 7 # is) c =
   run code orig lit 2 (pos + 8) is
     (code (lit ''target'') (t_hook_entry (lit ''target'') ((pos + 8) OR 1) c))"
  by (cases c)
    (simp add: t_hook_entry_def hook_entry_def push_def set_reg_def Let_def add.commute [of pos] t_frame_def fun_upd_twist)

lemma run_t_hook_exit:
  "run code orig lit 2 pos (LDRSP 0 32 # MOV 14 0 # POP [0, 1, 2, 3, 4, 5, 6, 7] # ADDSP 4 # is) d =
   run code orig lit 2 (pos + 8) is (pop t_frame d)"
  by (cases d) (simp add: pop_def set_reg_def Let_def t_frame_def fun_upd_twist, simp add: add.commute)

lemma run_t_hook_exit_bl:
  "run code orig lit 2 pos [LDRSP 0 32, MOV 14 0, LDR 1 ''chain'', STRSP 1 32, POP [0, 1, 2, 3, 4, 5, 6, 7, 15]] d =
   Some (set_reg 15 (lit ''chain'')
     ((pop t_frame d)\<lparr>cmem := write32 (cmem d) (reg d 13 + 32) (lit ''chain'')\<rparr>))"
  by (cases d) (simp add: pop_def set_reg_def Let_def t_frame_def fun_upd_twist read32_write32_other
      disjoint_regions_def)

lemma run_t_hookbefore:
  "run code orig lit 2 pos (insns (placed trampoline_t_hookbefore)) c =
     (case orig (pos + 16) (pop t_frame (code (lit ''target'') (t_hook_entry (lit ''target'') ((pos + 8) OR 1) c))) of
        Next e \<Rightarrow> Some (set_reg 15 (reg e 14) e) | Jump e \<Rightarrow> Some e)"
proof -
  have listing: "insns (placed trampoline_t_hookbefore) =
      PUSH t_frame # LDR 7 ''target'' # MOV 0 13 # BLX 7 #
      LDRSP 0 32 # MOV 14 0 # POP [0, 1, 2, 3, 4, 5, 6, 7] # ADDSP 4 # [ORIG, NOP, BX 14, NOP]"
    by (simp add: trampoline_t_hookbefore_def placed_def)
  show ?thesis by (simp only: listing run_t_hook_entry run_t_hook_exit) (simp add: add.commute [of pos] split: effect.split)
qed

lemma run_t_hookbefore_bl:
  fixes code lit pos c
  defines "d \<equiv> code (lit ''target'') (t_hook_entry (lit ''target'') ((pos + 8) OR 1) c)"
  shows "run code orig lit 2 pos (insns trampoline_t_hookbefore_bl) c =
     Some (set_reg 15 (lit ''chain'') ((pop t_frame d)\<lparr>cmem := write32 (cmem d) (reg d 13 + 32) (lit ''chain'')\<rparr>))"
  unfolding d_def
  by (simp only: trampoline_t_hookbefore_bl_def insns.simps run_t_hook_entry run_t_hook_exit_bl)

section \<open>Hooked code runs through the copy\<close>

text \<open>
  C2. A function replaced by \<^verbatim>\<open>trampoline_blreplace\<close> runs: when control reaches the installed
  copy, the replacement is entered with every argument register of the call, the old callee on top of
  the stack and the return address below it; when it returns with the stack pointer it was
  given and that slot intact, control is back at the caller with the caller's stack pointer.
\<close>

theorem blreplace_runs:
  fixes c :: cpu
  assumes reg: "hook_regions (tmem st) addr (align (tnext st) 4) (blre_proto env) 32"
    and run: "trampoline_blreplace env st addr target = Some st'"
  defines "lit \<equiv> \<lambda>l. read32 (tmem st') (align (tnext st) 4 + label_of 4 trampoline_blre l)"
    and "c1 \<equiv> \<lambda>pos. replacement_entry (extract_bl_target (tmem st) addr) (pos + 20) c"
  assumes sp: "\<And>pos. reg (code target (c1 pos)) 13 = reg c 13 - 8"
    and slot: "\<And>pos. read32 (cmem (code target (c1 pos))) (reg c 13 - 4) = reg c 14"
  shows "\<exists>alt \<in> set (mirrors env (align (tnext st) 4)). drop_bit 26 alt = drop_bit 26 addr \<and>
      (arm_reach addr alt \<longrightarrow> extract_bl_target (tmem st') addr = alt) \<and>
      (\<exists>c2. run code orig lit 4 alt (insns trampoline_blre) c = Some c2 \<and>
        reg c2 15 = reg c 14 \<and> reg c2 13 = reg c 13 \<and> cmem c2 = cmem (code target (c1 alt)) \<and>
        (\<forall>i<13. reg c2 i = reg (code target (c1 alt)) i \<and> reg (c1 alt) i = reg c i))"
proof -
  note h = blreplace_hooked [OF reg run]
  obtain alt where alt: "alt \<in> set (mirrors env (align (tnext st) 4))" "drop_bit 26 alt = drop_bit 26 addr"
    "arm_reach addr alt \<longrightarrow> extract_bl_target (tmem st') addr = alt"
    using h by blast
  have "lit ''target'' = target" "lit ''chain'' = extract_bl_target (tmem st) addr"
    using h by (simp_all add: lit_def listing_offsets)
  then have "run code orig lit 4 alt (insns trampoline_blre) c = Some (pop [14, 15] (code target (c1 alt)))"
    by (simp add: run_blre c1_def)
  moreover have "reg (pop [14, 15] (code target (c1 alt))) 15 = reg c 14"
    using sp [of alt] slot [of alt] by (simp add: pop_def)
  ultimately show ?thesis using alt sp [of alt]
    by (intro bexI [of _ alt]) (auto simp: pop_def c1_def replacement_entry_def)
qed

definition demo_cpu :: cpu where
  "demo_cpu = \<lparr>reg = (\<lambda>i. if i = 13 then 0x1000 else 0x05100004), cmem = (\<lambda>_. 0), zflag = False\<rparr>"

theorem blreplace_runs_witness:
  "\<exists>st' c2. trampoline_blreplace demo_env demo_st 0x05100000 0x0800 = Some st' \<and>
     run (\<lambda>t c. c) (\<lambda>p c. Next c) (\<lambda>l. read32 (tmem st') (0x27F00A04 + label_of 4 trampoline_blre l)) 4 0x27F00A04
       (insns trampoline_blre) demo_cpu = Some c2 \<and>
     reg c2 15 = 0x05100004 \<and> reg c2 13 = 0x1000"
proof -
  obtain st' where run: "trampoline_blreplace demo_env demo_st 0x05100000 0x0800 = Some st'"
    using blreplace_demo by blast
  have slot: "read32 (cmem (replacement_entry v l demo_cpu)) (reg demo_cpu 13 - 4) = reg demo_cpu 14"
    and sp: "reg (replacement_entry v l demo_cpu) 13 = reg demo_cpu 13 - 8" for v l
    by (simp_all add: replacement_entry_def demo_cpu_def read32_write32_other disjoint_regions_def)
  obtain alt c2 where "run (\<lambda>t c. c) (\<lambda>p c. Next c) (\<lambda>l. read32 (tmem st') (0x27F00A04 + label_of 4 trampoline_blre l)) 4 alt
       (insns trampoline_blre) demo_cpu = Some c2" "reg c2 15 = reg demo_cpu 14" "reg c2 13 = reg demo_cpu 13"
    using blreplace_runs [OF demo_regions(1) run, where code = "\<lambda>t c. c" and c = demo_cpu and orig = "\<lambda>p c. Next c"] slot sp
    unfolding demo_align by blast
  moreover have "run (\<lambda>t c. c) (\<lambda>p c. Next c) lit 4 alt (insns trampoline_blre) demo_cpu = Some c2 \<Longrightarrow>
      \<exists>c3. run (\<lambda>t c. c) (\<lambda>p c. Next c) lit 4 alt' (insns trampoline_blre) demo_cpu = Some c3 \<and> reg c3 15 = reg c2 15 \<and> reg c3 13 = reg c2 13"
    for lit alt alt' c2
    by (auto simp: run_blre pop_def replacement_entry_def)
  ultimately show ?thesis using run unfolding demo_cpu_def by fastforce
qed

text \<open>
  C7. A hook installed by \<^verbatim>\<open>trampoline_hook_before\<close> runs: it is given the registers of the
  interrupted code as a \<^verbatim>\<open>trampoline_state\<close>, and what it leaves there is what that code
  continues with; a hooked \<^verbatim>\<open>BL\<close> then calls the old callee.  Any other instruction is executed with
  those registers at its place in the copy.  One that neither reads nor writes the program
  counter, which is what the documentation asks for, has the effect it has at its own place, and
  the copy returns to the link register; one that writes it leaves the copy where it jumps to.
\<close>

theorem hook_before_runs:
  fixes c :: cpu and code exec
  assumes reg: "hook_regions (tmem st) addr (align (tnext st) 4) (hookbefore_proto env) 32"
    and run: "trampoline_hook_before env st addr target = Some st'"
  defines "lit \<equiv> \<lambda>l. read32 (tmem st') (align (tnext st) 4 + label_of 4 trampoline_hookbefore l)"
    and "callee \<equiv> extract_bl_target (tmem st) addr"
    and "insn \<equiv> read32 (tmem st) (ios_elf_vaddr_to_paddr (tmem st) addr)"
    and "s \<equiv> reg c 13 - 56"
    and "c1 \<equiv> \<lambda>pos. hook_entry frame (pos + 16) c"
    and "e \<equiv> \<lambda>pos. pop frame (code target (hook_entry frame (pos + 16) c))"
  assumes sp: "\<And>pos. reg (code target (c1 pos)) 13 = s"
  shows "\<exists>alt \<in> set (mirrors env (align (tnext st) 4)). drop_bit 26 alt = drop_bit 26 addr \<and>
      (arm_reach addr alt \<longrightarrow> extract_bl_target (tmem st') addr = alt) \<and>
      reg (c1 alt) 0 = s \<and> state_lr (cmem (c1 alt)) s = reg c 14 \<and>
      (\<forall>i<13. state_r (cmem (c1 alt)) s i = reg c i \<and> reg (e alt) i = state_r (cmem (code target (c1 alt))) s i) \<and>
      reg (e alt) 13 = reg c 13 \<and> reg (e alt) 14 = state_lr (cmem (code target (c1 alt))) s \<and>
      (if callee \<noteq> 0
       then run code (exec (lit ''orgins'')) lit 4 alt (insns trampoline_hookbefore) c = Some (set_reg 15 callee (e alt))
       else run code (exec (lit ''orgins'')) lit 4 alt (insns (placed trampoline_hookbefore)) c
         = (case exec insn (alt + 20) (e alt) of Next f \<Rightarrow> Some (set_reg 15 (reg f 14) f) | Jump f \<Rightarrow> Some f)) \<and>
      (\<forall>f. callee = 0 \<and> (\<forall>pos d. exec insn pos d = Next (f d)) \<longrightarrow>
         run code (exec (lit ''orgins'')) lit 4 alt (insns (placed trampoline_hookbefore)) c
         = Some (set_reg 15 (reg (f (e alt)) 14) (f (e alt))))"
proof -
  note h = hook_before_hooked [OF reg run]
  obtain alt where alt: "alt \<in> set (mirrors env (align (tnext st) 4))" "drop_bit 26 alt = drop_bit 26 addr"
    "arm_reach addr alt \<longrightarrow> extract_bl_target (tmem st') addr = alt"
    using h by blast
  have lit: "lit ''target'' = target" "callee \<noteq> 0 \<Longrightarrow> lit ''chain'' = callee"
    "callee = 0 \<Longrightarrow> lit ''orgins'' = insn"
    using h by (auto simp: lit_def listing_offsets callee_def insn_def)
  have entry: "reg (c1 alt) 0 = s" "cmem (c1 alt) = store_regs frame (reg c) s 0 (cmem c)"
    by (simp_all add: c1_def hook_entry_def frame_facts s_def Let_def)
  show ?thesis
    using alt lit entry frame_saved(1) frame_saved(2) [of 0] frame_restored [of _ "code target (c1 alt)"] frame_restored [of 0 "code target (c1 alt)"] sp [of alt]
    by (intro bexI [of _ alt]) (auto simp: run_hookbefore Let_def e_def c1_def s_def)
qed

theorem hook_before_runs_witness:
  "\<exists>st' alt lit c2. trampoline_hook_before demo_env demo_st 0x05100000 0x0800 = Some st' \<and>
     run (\<lambda>t c. c) (\<lambda>p c. Next c) lit 4 alt (insns (placed trampoline_hookbefore)) demo_cpu = Some c2 \<and>
     lit ''target'' = 0x0800 \<and> reg c2 15 = 0x05100004 \<and> reg c2 13 = 0x1000"
proof -
  obtain st' where run: "trampoline_hook_before demo_env demo_st 0x05100000 0x0800 = Some st'"
    using hook_before_demo by blast
  define lit where "lit l = read32 (tmem st') (align (tnext demo_st) 4 + label_of 4 trampoline_hookbefore l)" for l
  have z: "extract_bl_target (tmem demo_st) a = 0" for a
    by (simp add: extract_bl_target_def demo_st_def Let_def)
  have sp: "reg (hook_entry frame (pos + 16) demo_cpu) 13 = reg demo_cpu 13 - 56" for pos
    by (simp add: hook_entry_def frame_facts Let_def)
  obtain alt where a: "state_lr (cmem (hook_entry frame (alt + 16) demo_cpu)) (reg demo_cpu 13 - 56) = reg demo_cpu 14"
    "reg (pop frame (hook_entry frame (alt + 16) demo_cpu)) 13 = reg demo_cpu 13"
    "reg (pop frame (hook_entry frame (alt + 16) demo_cpu)) 14
      = state_lr (cmem (hook_entry frame (alt + 16) demo_cpu)) (reg demo_cpu 13 - 56)"
    "run (\<lambda>t c. c) (\<lambda>p c. Next c) lit 4 alt (insns (placed trampoline_hookbefore)) demo_cpu =
      Some (set_reg 15 (reg (pop frame (hook_entry frame (alt + 16) demo_cpu)) 14)
        (pop frame (hook_entry frame (alt + 16) demo_cpu)))"
    using hook_before_runs [OF demo_regions(2) run, where code = "\<lambda>t c. c" and exec = "\<lambda>w p c. Next c" and c = demo_cpu, OF sp]
    unfolding z lit_def [abs_def, symmetric] by auto
  have "lit ''target'' = 0x0800"
    using hook_before_hooked [OF demo_regions(2) run] by (simp add: lit_def listing_offsets)
  moreover have "reg demo_cpu 13 = 0x1000" "reg demo_cpu 14 = 0x05100004" by (simp_all add: demo_cpu_def)
  ultimately show ?thesis using run a by (fastforce simp: Let_def set_reg_def)
qed

text \<open>
  The second kind of hook chooses with its result whether the hooked instruction is executed;
  the copy then goes on behind it, or, when the instruction was a branch, at its destination.
\<close>

lemma hook_before_v2_runs:
  fixes c :: cpu and code exec
  assumes reg: "hook_regions (tmem st) addr (align (tnext st) 4) (hookbefore_lr_proto env) 44"
    and run: "trampoline_hook_before_v2 env st addr target = Some st'"
  defines "lit \<equiv> \<lambda>l. read32 (tmem st') (align (tnext st) 4 + label_of 4 trampoline_hookbefore_lr l)"
    and "b \<equiv> (if extract_bl_target (tmem st) addr \<noteq> 0 then extract_bl_target (tmem st) addr
              else extract_b_target (tmem st) addr)"
    and "insn \<equiv> read32 (tmem st) (ios_elf_vaddr_to_paddr (tmem st) addr)"
    and "s \<equiv> reg c 13 - 56"
    and "d \<equiv> \<lambda>pos. code target (hook_entry frame (pos + 16) c)"
    and "e \<equiv> \<lambda>pos. pop frame ((code target (hook_entry frame (pos + 16) c))
                \<lparr>zflag := reg (code target (hook_entry frame (pos + 16) c)) 0 = 0\<rparr>)"
  assumes sp: "\<And>pos. reg (d pos) 13 = s"
  shows "\<exists>alt \<in> set (mirrors env (align (tnext st) 4)). drop_bit 26 alt = drop_bit 26 addr \<and>
      (\<forall>i<13. state_r (cmem (hook_entry frame (alt + 16) c)) s i = reg c i \<and> reg (e alt) i = state_r (cmem (d alt)) s i) \<and>
      state_lr (cmem (hook_entry frame (alt + 16) c)) s = reg c 14 \<and>
      reg (e alt) 13 = reg c 13 \<and> reg (e alt) 14 = state_lr (cmem (d alt)) s \<and>
      (if b \<noteq> 0
       then run code (exec (lit ''orgins'')) lit 4 alt (insns trampoline_hookbefore_lr) c = Some (set_reg 15 b (e alt))
       else run code (exec (lit ''orgins'')) lit 4 alt (insns (placed trampoline_hookbefore_lr)) c
         = (if reg (d alt) 0 \<noteq> 0 then Some (set_reg 15 (addr + 4) (e alt))
            else case exec insn (alt + 28) (e alt) of
               Next f \<Rightarrow> Some (set_reg 15 (addr + 4) f) | Jump f \<Rightarrow> Some f))"
proof -
  note h = hook_before_v2_hooked [OF reg run]
  obtain alt where alt: "alt \<in> set (mirrors env (align (tnext st) 4))" "drop_bit 26 alt = drop_bit 26 addr"
    using h by blast
  have lit: "lit ''target'' = target" "lit ''ret'' = (if b \<noteq> 0 then b else addr + 4)"
    "b = 0 \<Longrightarrow> lit ''orgins'' = insn"
    using h by (auto simp: lit_def listing_offsets b_def insn_def)
  have entry: "cmem (hook_entry frame (alt + 16) c) = store_regs frame (reg c) s 0 (cmem c)"
    by (simp add: hook_entry_def frame_facts s_def Let_def)
  show ?thesis
    using alt lit entry frame_saved(1) frame_saved(2) [of 0] sp [of alt]
      frame_restored [of _ "(d alt)\<lparr>zflag := reg (d alt) 0 = 0\<rparr>"]
      frame_restored [of 0 "(d alt)\<lparr>zflag := reg (d alt) 0 = 0\<rparr>"]
    by (intro bexI [of _ alt]) (auto simp: run_hookbefore_lr Let_def e_def d_def s_def split: effect.split)
qed

text \<open>
  With the saved registers behind the old callee on the stack, a replaced ARM function returns
  in the same way.
\<close>

lemma blre_regs_returns:
  fixes c :: cpu and lit pos
  defines "c1 \<equiv> c\<lparr>reg := (reg c)(13 := reg c 13 - 44, 14 := pos + 20),
               cmem := store_regs [4, 5, 6, 7, 8, 9, 10, 11, 12, 14] ((reg c)(14 := lit ''chain'')) (reg c 13 - 44) 0
                         (write32 (cmem c) (reg c 13 - 4) (reg c 14))\<rparr>"
  assumes "reg (code (lit ''target'') c1) 13 = reg c1 13"
    and "read32 (cmem (code (lit ''target'') c1)) (reg c 13 - 4) = read32 (cmem c1) (reg c 13 - 4)"
  shows "\<exists>c2. run code orig lit 4 pos (insns trampoline_blre_regs) c = Some c2 \<and>
    reg c2 15 = reg c 14 \<and> reg c2 13 = reg c 13"
  using assms(2,3)
  by (auto simp: run_blre_regs Let_def c1_def [symmetric] pop_def set_reg_def)
     (simp_all add: c1_def read32_write32_other disjoint_below)

section \<open>Thumb code\<close>

text \<open>A replaced Thumb function returns to the caller, with the caller's stack pointer.\<close>

lemma t_blre_returns:
  fixes c :: cpu and lit pos
  defines "c1 \<equiv> c\<lparr>reg := (reg c)(13 := reg c 13 - 8, 14 := (pos + 14) OR 1),
               cmem := write32 (store_regs [0, 1, 14] (reg c) (reg c 13 - 12) 0 (cmem c)) (reg c 13 - 8) (lit ''chain'')\<rparr>"
  assumes "reg (code (lit ''target'') c1) 13 = reg c1 13"
    and "read32 (cmem (code (lit ''target'') c1)) (reg c 13 - 4) = read32 (cmem c1) (reg c 13 - 4)"
  shows "\<exists>c2. run code orig lit 2 pos (insns trampoline_t_blre) c = Some c2 \<and>
    reg c2 15 = reg c 14 \<and> reg c2 13 = reg c 13"
  using assms(2,3)
  by (auto simp: run_t_blre Let_def c1_def [symmetric])
     (simp_all add: c1_def read32_write32_other disjoint_below)

text \<open>
  With five saved registers that is not so: \<^verbatim>\<open>add sp, #4\<close> skips only one of the six
  words that were pushed, and the copy returns to the saved r5.
\<close>

lemma t_blre_regs_returns_to_r5:
  fixes c :: cpu and lit pos
  defines "c1 \<equiv> c\<lparr>reg := (reg c)(13 := reg c 13 - 24, 14 := (pos + 16) OR 1),
               cmem := write32 (store_regs [0, 4, 5, 6, 7, 14] (reg c) (reg c 13 - 28) 0
                         (write32 (cmem c) (reg c 13 - 4) (reg c 14))) (reg c 13 - 8) (lit ''chain'')\<rparr>"
  assumes "reg (code (lit ''target'') c1) 13 = reg c1 13"
    and "read32 (cmem (code (lit ''target'') c1)) (reg c 13 - 20) = read32 (cmem c1) (reg c 13 - 20)"
  shows "\<exists>c2. run code orig lit 2 pos (insns trampoline_t_blre_regs) c = Some c2 \<and>
    reg c2 15 = reg c 5 \<and> reg c2 13 = reg c 13 - 16"
  using assms(2,3)
  by (auto simp: run_t_blre_regs Let_def c1_def [symmetric])
     (simp_all add: c1_def read32_write32_other disjoint_below)

end
