(* ===== verification/Dynamic.thy ===== *)
theory Dynamic
  imports Machine "HOL-Library.Monad_Syntax"
begin

text \<open>
  \<^verbatim>\<open>wafel_core/source/dynamic.c\<close>: the dynamic linker of the plugins.  A plugin is an ELF
  image in memory; its headers, dynamic section, symbols and relocations are read from the
  bytes where the code reads them, and relocated words are written back.  The registered
  plugins (\<^verbatim>\<open>elfs\<close>, \<^verbatim>\<open>num_elfs\<close>) are the list of their load addresses; the pointer is
  \<^verbatim>\<open>NULL\<close> exactly while the list is empty.  Loops over the dynamic section and over
  strings end at a terminator in memory, so they are partial: \<open>None\<close> means no terminator.
\<close>

section \<open>The ELF structures\<close>

definition E_ENTRY :: u32 where "E_ENTRY = 24"
definition E_PHOFF :: u32 where "E_PHOFF = 28"
definition E_PHNUM :: u32 where "E_PHNUM = 44"
definition ELF_MAGIC :: u32 where "ELF_MAGIC = 0x7F454C46"
definition PT_DYNAMIC :: u32 where "PT_DYNAMIC = 2"

definition DT_NULL :: u32 where "DT_NULL = 0"
definition DT_PLTRELSZ :: u32 where "DT_PLTRELSZ = 2"
definition DT_STRTAB :: u32 where "DT_STRTAB = 5"
definition DT_SYMTAB :: u32 where "DT_SYMTAB = 6"
definition DT_REL :: u32 where "DT_REL = 17"
definition DT_RELSZ :: u32 where "DT_RELSZ = 18"
definition DT_JMPREL :: u32 where "DT_JMPREL = 23"

definition R_ARM_ABS32 :: u32 where "R_ARM_ABS32 = 2"
definition R_ARM_GLOB_DAT :: u32 where "R_ARM_GLOB_DAT = 21"
definition R_ARM_JUMP_SLOT :: u32 where "R_ARM_JUMP_SLOT = 22"
definition R_ARM_RELATIVE :: u32 where "R_ARM_RELATIVE = 23"

lemmas dt_consts = DT_NULL_def DT_PLTRELSZ_def DT_STRTAB_def DT_SYMTAB_def DT_REL_def
  DT_RELSZ_def DT_JMPREL_def
lemmas reloc_consts = R_ARM_ABS32_def R_ARM_GLOB_DAT_def R_ARM_JUMP_SLOT_def R_ARM_RELATIVE_def

text \<open>\<^verbatim>\<open>Elf32_Rel\<close>: the offset and the information word with the type in its low byte.\<close>

definition r_offset :: "mem \<Rightarrow> u32 \<Rightarrow> u32" where "r_offset m rel = read32 m rel"
definition r_type :: "mem \<Rightarrow> u32 \<Rightarrow> u32" where "r_type m rel = read32 m (rel + 4) AND 0xFF"
definition r_sym :: "mem \<Rightarrow> u32 \<Rightarrow> u32" where "r_sym m rel = drop_bit 8 (read32 m (rel + 4))"

text \<open>\<^verbatim>\<open>Elf32_Sym\<close>, sixteen bytes.\<close>

definition st_name :: "mem \<Rightarrow> u32 \<Rightarrow> u32" where "st_name m sy = read32 m sy"
definition st_value :: "mem \<Rightarrow> u32 \<Rightarrow> u32" where "st_value m sy = read32 m (sy + 4)"
definition st_shndx :: "mem \<Rightarrow> u32 \<Rightarrow> u16" where "st_shndx m sy = read16 m (sy + 14)"

section \<open>Relocating an image\<close>

definition base_entry :: "mem \<Rightarrow> u32 \<Rightarrow> u32" where
  "base_entry m base = base + read32 m (base + E_ENTRY)"

definition wafel_is_relocated :: "mem \<Rightarrow> u32 \<Rightarrow> u32" where
  "wafel_is_relocated m base = read32 m (base_entry m base + 0x14)"

definition wafel_set_relocated :: "mem \<Rightarrow> u32 \<Rightarrow> mem" where
  "wafel_set_relocated m base = write32 m (base_entry m base + 0x14) 1"

text \<open>The (tag, value) pairs of a dynamic section, up to its \<^verbatim>\<open>DT_NULL\<close>.\<close>

partial_function (option) dyn_entries :: "mem \<Rightarrow> u32 \<Rightarrow> (u32 \<times> u32) list option" where
  "dyn_entries m dyn =
     (if read32 m dyn = DT_NULL then Some []
      else do { es \<leftarrow> dyn_entries m (dyn + 8);
                Some ((read32 m dyn, read32 m (dyn + 4)) # es) })"

text \<open>The state the loops over the dynamic section collect; \<open>relsz\<close> counts entries.\<close>

record dyn_info =
  symtab :: u32
  strtab :: u32
  relptr :: u32
  relsz :: u64

definition dyn_null :: dyn_info where
  "dyn_null = \<lparr> symtab = 0, strtab = 0, relptr = 0, relsz = 0 \<rparr>"

definition reloc_entry :: "u32 \<Rightarrow> u32 \<times> u32 \<Rightarrow> dyn_info \<Rightarrow> dyn_info" where
  "reloc_entry base e i =
     (if fst e = DT_REL then i\<lparr>relptr := base + snd e\<rparr>
      else if fst e = DT_RELSZ then i\<lparr>relsz := ucast (snd e div 8)\<rparr> else i)"

definition reloc_step :: "mem \<Rightarrow> u32 \<Rightarrow> u32 \<Rightarrow> mem" where
  "reloc_step m base rel =
     (if r_type m rel = R_ARM_RELATIVE then
        let ptr = base + r_offset m rel
        in if read32 m ptr < base then write32 m ptr (read32 m ptr + base) else m
      else m)"

fun reloc_loop :: "mem \<Rightarrow> u32 \<Rightarrow> u32 \<Rightarrow> nat \<Rightarrow> mem" where
  "reloc_loop m base rel 0 = m"
| "reloc_loop m base rel (Suc n) = reloc_loop (reloc_step m base rel) base (rel + 8) n"

definition wafel_dynamic :: "mem \<Rightarrow> u32 \<Rightarrow> u32 \<Rightarrow> mem option" where
  "wafel_dynamic m base dyn =
     (if wafel_is_relocated m base \<noteq> 0 then Some m
      else do { es \<leftarrow> dyn_entries m dyn;
                let i = fold (reloc_entry base) es dyn_null;
                let m = (if relptr i \<noteq> 0 then reloc_loop m base (relptr i) (unat (relsz i)) else m);
                Some (wafel_set_relocated m base) })"

section \<open>Headers of a plugin\<close>

definition wafel_get_plugin_phdrs :: "mem \<Rightarrow> u32 \<Rightarrow> u32" where
  "wafel_get_plugin_phdrs m base =
     (if read32 m base \<noteq> ELF_MAGIC then 0 else base + read32 m (base + E_PHOFF))"

definition wafel_get_plugin_num_phdrs :: "mem \<Rightarrow> u32 \<Rightarrow> u32" where
  "wafel_get_plugin_num_phdrs m base =
     (if read32 m base \<noteq> ELF_MAGIC then 0 else ucast (read16 m (base + E_PHNUM)))"

definition plugin_phdr :: "mem \<Rightarrow> u32 \<Rightarrow> nat \<Rightarrow> u32 \<Rightarrow> u32" where
  "plugin_phdr m phdrs i off = read32 m (phdrs + of_nat (32 * i) + off)"

definition wafel_get_plugin_dynamic :: "mem \<Rightarrow> u32 \<Rightarrow> u32" where
  "wafel_get_plugin_dynamic m base =
     (let phdrs = wafel_get_plugin_phdrs m base; n = wafel_get_plugin_num_phdrs m base
      in if phdrs = 0 \<or> n = 0 then 0
         else case find (\<lambda>i. plugin_phdr m phdrs i 0 = PT_DYNAMIC) [0..<unat n] of
                None \<Rightarrow> 0 | Some i \<Rightarrow> base + plugin_phdr m phdrs i 8)"

definition phdr_end :: "mem \<Rightarrow> u32 \<Rightarrow> u32 \<Rightarrow> nat \<Rightarrow> u32" where
  "phdr_end m base phdrs i = base + plugin_phdr m phdrs i 8 + plugin_phdr m phdrs i 20"

definition wafel_plugin_max_addr :: "mem \<Rightarrow> u32 \<Rightarrow> u32" where
  "wafel_plugin_max_addr m base =
     (let phdrs = wafel_get_plugin_phdrs m base; n = wafel_get_plugin_num_phdrs m base
      in if phdrs = 0 \<or> n = 0 then 0
         else ALIGN_FORWARD
                (fold (\<lambda>i r. let e = phdr_end m base phdrs i in if r < e then e else r) [0..<unat n] 0)
                0x1000)"

definition wafel_plugin_next :: "mem \<Rightarrow> u32 \<Rightarrow> u32" where
  "wafel_plugin_next m base = read32 m (base_entry m base + 0x10)"

section \<open>Symbols\<close>

text \<open>\<^verbatim>\<open>!strcmp(a, b)\<close> on two strings in memory.\<close>

partial_function (option) str_eq :: "mem \<Rightarrow> u32 \<Rightarrow> u32 \<Rightarrow> bool option" where
  "str_eq m a b =
     (if m a \<noteq> m b then Some False else if m a = 0 then Some True else str_eq m (a + 1) (b + 1))"

text \<open>
  In the lookup the loop stores \<^verbatim>\<open>DT_RELA\<close> and \<^verbatim>\<open>DT_RELASZ\<close> as well; both values are
  dead.  The count of symbols is the distance of the two tables, an unsigned quotient.
\<close>

definition lookup_entry :: "u32 \<Rightarrow> u32 \<times> u32 \<Rightarrow> dyn_info \<Rightarrow> dyn_info" where
  "lookup_entry base e i =
     (if fst e = DT_SYMTAB then i\<lparr>symtab := base + snd e\<rparr>
      else if fst e = DT_STRTAB then i\<lparr>strtab := base + snd e\<rparr> else i)"

function sym_loop :: "mem \<Rightarrow> u32 \<Rightarrow> u32 \<Rightarrow> u32 \<Rightarrow> u32 \<Rightarrow> nat \<Rightarrow> nat \<Rightarrow> u32 option" where
  "sym_loop m base st str name n i =
     (if i < n then
        let sy = st + of_nat (16 * i)
        in do { eq \<leftarrow> str_eq m (str + st_name m sy) name;
                if eq \<and> st_value m sy \<noteq> 0 then Some (base + st_value m sy)
                else sym_loop m base st str name n (Suc i) }
      else Some 0)"
  by pat_completeness auto
termination
  by (relation "measure (\<lambda>(m, base, st, str, name, n, i). n - i)") auto

declare sym_loop.simps [simp del]

definition wafel_get_symbol_addr :: "mem \<Rightarrow> u32 \<Rightarrow> u32 \<Rightarrow> u32 option" where
  "wafel_get_symbol_addr m base name =
     do { es \<leftarrow> dyn_entries m (wafel_get_plugin_dynamic m base);
          let i = fold (lookup_entry base) es dyn_null;
          sym_loop m base (symtab i) (strtab i) name (unat ((strtab i - symtab i) div 16)) 0 }"

fun wafel_find_symbol :: "mem \<Rightarrow> u32 list \<Rightarrow> u32 \<Rightarrow> u32 option" where
  "wafel_find_symbol m [] name = Some 0"
| "wafel_find_symbol m (e # elfs) name =
     do { ptr \<leftarrow> wafel_get_symbol_addr m e name;
          if ptr \<noteq> 0 then Some ptr else wafel_find_symbol m elfs name }"

fun wafel_find_symbol_multiple :: "mem \<Rightarrow> u32 list \<Rightarrow> u32 \<Rightarrow> u32 \<Rightarrow> u32 option" where
  "wafel_find_symbol_multiple m [] name skip = Some 0"
| "wafel_find_symbol_multiple m (e # elfs) name skip =
     do { ptr \<leftarrow> wafel_get_symbol_addr m e name;
          if ptr \<noteq> 0 then
            if skip = 0 then Some ptr else wafel_find_symbol_multiple m elfs name (skip - 1)
          else wafel_find_symbol_multiple m elfs name skip }"

definition wafel_get_plugin_base_by_idx :: "u32 list \<Rightarrow> u32 \<Rightarrow> u32" where
  "wafel_get_plugin_base_by_idx elfs i = (if length elfs \<le> unat i then 0 else elfs ! unat i)"

definition wafel_register_plugin :: "u32 list \<Rightarrow> u32 \<Rightarrow> u32 list" where
  "wafel_register_plugin elfs base = elfs @ [base]"

section \<open>Linking a plugin\<close>

definition link_entry :: "u32 \<Rightarrow> u32 \<times> u32 \<Rightarrow> dyn_info \<Rightarrow> dyn_info" where
  "link_entry base e i =
     (if fst e = DT_SYMTAB then i\<lparr>symtab := base + snd e\<rparr>
      else if fst e = DT_STRTAB then i\<lparr>strtab := base + snd e\<rparr>
      else if fst e = DT_REL \<or> fst e = DT_JMPREL then i\<lparr>relptr := base + snd e\<rparr>
      else if fst e = DT_RELSZ \<or> fst e = DT_PLTRELSZ
        then i\<lparr>relsz := ucast (ucast (relsz i) + snd e div 8 :: u32)\<rparr>
      else i)"

text \<open>The value a symbol is linked to.\<close>

definition sym_val :: "mem \<Rightarrow> u32 list \<Rightarrow> u32 \<Rightarrow> dyn_info \<Rightarrow> u32 \<Rightarrow> u32 option" where
  "sym_val m elfs base i idx =
     (let sy = symtab i + 16 * idx;
          v = (if st_value m sy = 0 then 0 else base + st_value m sy)
      in if st_shndx m sy = 0 \<and> idx \<noteq> 0
         then wafel_find_symbol m elfs (strtab i + st_name m sy) else Some v)"

definition link_step :: "mem \<Rightarrow> u32 list \<Rightarrow> u32 \<Rightarrow> dyn_info \<Rightarrow> u32 \<Rightarrow> mem option" where
  "link_step m elfs base i rel =
     (if r_type m rel = R_ARM_RELATIVE then Some m
      else do { v \<leftarrow> sym_val m elfs base i (r_sym m rel);
                Some (if r_type m rel \<in> {R_ARM_GLOB_DAT, R_ARM_JUMP_SLOT, R_ARM_ABS32}
                      then write32 m (base + r_offset m rel) v else m) })"

fun link_loop :: "mem \<Rightarrow> u32 list \<Rightarrow> u32 \<Rightarrow> dyn_info \<Rightarrow> u32 \<Rightarrow> nat \<Rightarrow> mem option" where
  "link_loop m elfs base i rel 0 = Some m"
| "link_loop m elfs base i rel (Suc n) =
     do { m \<leftarrow> link_step m elfs base i rel; link_loop m elfs base i (rel + 8) n }"

definition wafel_link_plugin :: "mem \<Rightarrow> u32 list \<Rightarrow> u32 \<Rightarrow> mem option" where
  "wafel_link_plugin m elfs base =
     (let dyn = wafel_get_plugin_dynamic m base
      in if dyn = 0 then Some m
         else do { es \<leftarrow> dyn_entries m dyn;
                   let i = fold (link_entry base) es dyn_null;
                   if relptr i = 0 then Some m
                   else link_loop m elfs base i (relptr i) (unat (relsz i)) })"

section \<open>Relocation is applied once\<close>

lemma wafel_is_relocated_set:
  assumes "disjoint_regions (base_entry m base + 0x14) 4 (base + E_ENTRY) 4"
  shows "wafel_is_relocated (wafel_set_relocated m base) base = 1"
proof -
  have "read32 (wafel_set_relocated m base) (base + E_ENTRY) = read32 m (base + E_ENTRY)"
    unfolding wafel_set_relocated_def by (rule read32_write32_other [OF assms])
  then have "base_entry (wafel_set_relocated m base) base = base_entry m base"
    by (simp add: base_entry_def)
  then show ?thesis
    by (simp add: wafel_is_relocated_def) (simp add: wafel_set_relocated_def)
qed

section \<open>What relocation does\<close>

text \<open>The words a relocation table of \<open>n\<close> entries at \<open>rel\<close> adjusts.\<close>

definition targets :: "mem \<Rightarrow> u32 \<Rightarrow> u32 \<Rightarrow> nat \<Rightarrow> u32 list" where
  "targets m base rel n =
     map (\<lambda>i. base + r_offset m (rel + of_nat (8 * i)))
       (filter (\<lambda>i. r_type m (rel + of_nat (8 * i)) = R_ARM_RELATIVE) [0..<n])"

lemma targets_0 [simp]: "targets m base rel 0 = []"
  by (simp add: targets_def)

lemma targets_Suc:
  "targets m base rel (Suc n) =
     (if r_type m rel = R_ARM_RELATIVE then [base + r_offset m rel] else []) @ targets m base (rel + 8) n"
proof -
  have "[0..<Suc n] = 0 # map Suc [0..<n]"
    by (simp add: map_Suc_upt upt_conv_Cons del: upt_Suc)
  then show ?thesis
    by (simp add: targets_def filter_map o_def algebra_simps)
qed

definition word_disjoint :: "u32 list \<Rightarrow> bool" where
  "word_disjoint ts \<longleftrightarrow> (\<forall>i<length ts. \<forall>j<i. disjoint_regions (ts ! j) 4 (ts ! i) 4)"

lemma word_disjoint_Cons:
  "word_disjoint (t # ts) \<longleftrightarrow> (\<forall>u \<in> set ts. disjoint_regions t 4 u 4) \<and> word_disjoint ts"
proof -
  have *: "(\<forall>i<Suc n. P i) \<longleftrightarrow> P 0 \<and> (\<forall>i<n. P (Suc i))" for P and n :: nat
    by (metis less_Suc_eq_0_disj)
  show ?thesis
    by (auto simp: word_disjoint_def * all_set_conv_all_nth)
qed

definition relocated :: "u32 \<Rightarrow> u32 \<Rightarrow> u32" where
  "relocated base w = (if w < base then w + base else w)"

lemma reloc_step_eq:
  "reloc_step m base rel = (if r_type m rel = R_ARM_RELATIVE
     then write32 m (base + r_offset m rel) (relocated base (read32 m (base + r_offset m rel))) else m)"
  by (simp add: reloc_step_def relocated_def Let_def)

lemma targets_cong:
  assumes "\<And>i. i < n \<Longrightarrow> read32 m' (rel + of_nat (8 * i)) = read32 m (rel + of_nat (8 * i))"
    and "\<And>i. i < n \<Longrightarrow> read32 m' (rel + of_nat (8 * i) + 4) = read32 m (rel + of_nat (8 * i) + 4)"
  shows "targets m' base rel n = targets m base rel n"
  unfolding targets_def r_type_def r_offset_def using assms
  by (intro map_cong filter_cong) auto

lemma write_off_table:
  assumes "disjoint_regions rel (8 * n) t 4" "i < n"
  shows "read32 (write32 m t v) (rel + of_nat (8 * i)) = read32 m (rel + of_nat (8 * i))"
    "read32 (write32 m t v) (rel + of_nat (8 * i) + 4) = read32 m (rel + of_nat (8 * i) + 4)"
proof -
  have d: "disjoint_regions t 4 (rel + of_nat (8 * i)) 4"
    "disjoint_regions t 4 (rel + of_nat (8 * i + 4)) 4"
    using assms by (intro disjoint_sub [of t 4 rel "8 * n"]; simp add: disjoint_sym)+
  show "read32 (write32 m t v) (rel + of_nat (8 * i)) = read32 m (rel + of_nat (8 * i))"
    by (rule read32_write32_other [OF d(1)])
  show "read32 (write32 m t v) (rel + of_nat (8 * i) + 4) = read32 m (rel + of_nat (8 * i) + 4)"
    using read32_write32_other [OF d(2)] by (simp add: algebra_simps)
qed

lemma reloc_loop_spec:
  assumes "word_disjoint (targets m base rel n)"
    and "\<forall>t \<in> set (targets m base rel n). disjoint_regions rel (8 * n) t 4"
  shows "(\<forall>t \<in> set (targets m base rel n).
            read32 (reloc_loop m base rel n) t = relocated base (read32 m t)) \<and>
    (\<forall>a. (\<forall>t \<in> set (targets m base rel n). disjoint_regions t 4 a 4) \<longrightarrow>
            read32 (reloc_loop m base rel n) a = read32 m a)"
  using assms
proof (induction n arbitrary: m rel)
  case (Suc n)
  let ?t = "base + r_offset m rel"
  let ?m = "reloc_step m base rel"
  have tl: "disjoint_regions (rel + 8) (8 * n) t 4"
    if "disjoint_regions rel (8 * Suc n) t 4" for t
    using disjoint_sub [of t 4 rel "8 * Suc n" 8 "8 * n"] that by (simp add: disjoint_sym)
  show ?case
  proof (cases "r_type m rel = R_ARM_RELATIVE")
    case False
    then have "?m = m" by (simp add: reloc_step_eq)
    then show ?thesis
      using Suc.IH [of m "rel + 8"] Suc.prems tl False by (simp add: targets_Suc)
  next
    case True
    then have m: "?m = write32 m ?t (relocated base (read32 m ?t))" by (simp add: reloc_step_eq)
    have off: "disjoint_regions (rel + 8) (8 * n) ?t 4"
      using Suc.prems(2) True tl by (simp add: targets_Suc)
    have tg: "targets ?m base (rel + 8) n = targets m base (rel + 8) n"
      unfolding m using write_off_table [OF off] by (intro targets_cong) simp_all
    have d: "\<forall>u \<in> set (targets m base (rel + 8) n). disjoint_regions ?t 4 u 4"
      "word_disjoint (targets m base (rel + 8) n)"
      using Suc.prems(1) True by (simp_all add: targets_Suc word_disjoint_Cons)
    have same: "read32 ?m a = read32 m a" if "disjoint_regions ?t 4 a 4" for a
      unfolding m using that by (rule read32_write32_other)
    have IH: "(\<forall>t \<in> set (targets m base (rel + 8) n).
            read32 (reloc_loop ?m base (rel + 8) n) t = relocated base (read32 ?m t)) \<and>
      (\<forall>a. (\<forall>t \<in> set (targets m base (rel + 8) n). disjoint_regions t 4 a 4) \<longrightarrow>
            read32 (reloc_loop ?m base (rel + 8) n) a = read32 ?m a)"
      using Suc.IH [of ?m "rel + 8"] Suc.prems(2) True d tl by (simp add: tg targets_Suc)
    have "read32 ?m ?t = relocated base (read32 m ?t)" by (simp add: m)
    moreover have "\<forall>t \<in> set (targets m base (rel + 8) n). disjoint_regions t 4 ?t 4"
      using d(1) by (simp add: disjoint_sym)
    ultimately show ?thesis
      using IH d(1) same True by (auto simp: targets_Suc)
  qed
qed simp

section \<open>Looking up symbols\<close>

text \<open>
  The contract between one image's symbol table and the search over all images: a lookup
  that returns an address or 0.
\<close>

locale symbol_provider =
  fixes lookup :: "u32 \<Rightarrow> u32 \<Rightarrow> u32 option"
    and search :: "u32 list \<Rightarrow> u32 \<Rightarrow> u32 option"
    and search_skip :: "u32 list \<Rightarrow> u32 \<Rightarrow> u32 \<Rightarrow> u32 option"
  assumes search_Nil: "search [] name = Some 0"
    and search_Cons: "lookup e name = Some p \<Longrightarrow>
      search (e # es) name = (if p \<noteq> 0 then Some p else search es name)"
    and skip_Nil: "search_skip [] name k = Some 0"
    and skip_Cons: "lookup e name = Some p \<Longrightarrow> search_skip (e # es) name k =
      (if p = 0 then search_skip es name k
       else if k = 0 then Some p else search_skip es name (k - 1))"
begin

text \<open>The exporting images, in order of registration.\<close>

lemma search_skip_nth:
  assumes "\<forall>e \<in> set es. lookup e name = Some (f e)"
  shows "search_skip es name k =
    Some (let hits = filter (\<lambda>p. p \<noteq> 0) (map f es)
          in if unat k < length hits then hits ! unat k else 0)"
  using assms
proof (induction es arbitrary: k)
  case (Cons e es)
  have k: "unat (k - 1) = unat k - 1" if "k \<noteq> 0"
    using that by (metis unat_minus_one)
  have pos: "0 < unat k" if "k \<noteq> 0" using that by (simp add: unat_gt_0)
  show ?case
    using Cons.IH [of k] Cons.IH [of "k - 1"] Cons.prems k pos skip_Cons [of e name "f e" es k]
    by (cases "k = 0") (auto simp: Let_def nth_Cons')
qed (simp add: skip_Nil)

lemma search_first:
  assumes "\<forall>e \<in> set es. lookup e name = Some (f e)"
  shows "search es name = search_skip es name 0"
  using assms
  by (induction es) (simp_all add: search_Nil skip_Nil search_Cons skip_Cons)

lemma search_hit:
  assumes "\<forall>e \<in> set es. lookup e name = Some (f e)"
  shows "search es name = Some (case filter (\<lambda>p. p \<noteq> 0) (map f es) of [] \<Rightarrow> 0 | p # _ \<Rightarrow> p)"
  using search_skip_nth [OF assms, of 0] search_first [OF assms]
  by (auto simp: Let_def split: list.split)

end

interpretation plugins: symbol_provider "wafel_get_symbol_addr m" "wafel_find_symbol m"
    "wafel_find_symbol_multiple m" for m
  by unfold_locales (auto simp: Let_def)

text \<open>The table search of one image.\<close>

lemma sym_loop_spec:
  assumes "\<And>j. i \<le> j \<Longrightarrow> j < n \<Longrightarrow> str_eq m (str + st_name m (st + of_nat (16 * j))) name = Some (eq j)"
    and "i \<le> n"
  shows "sym_loop m base st str name n i =
    Some (case find (\<lambda>j. eq j \<and> st_value m (st + of_nat (16 * j)) \<noteq> 0) [i..<n] of
            None \<Rightarrow> 0 | Some j \<Rightarrow> base + st_value m (st + of_nat (16 * j)))"
  using assms
proof (induction m base st str name n i rule: sym_loop.induct)
  case (1 m base st str name n i)
  show ?case
  proof (cases "i < n")
    case True
    then have up: "[i..<n] = i # [Suc i..<n]" by (simp add: upt_conv_Cons)
    have "str_eq m (str + st_name m (st + of_nat (16 * i))) name = Some (eq i)"
      using "1.prems"(1) True by simp
    then show ?thesis
      using "1.IH" [OF True refl, of "eq i"] "1.prems"(1) True
      by (subst sym_loop.simps) (auto simp: up Let_def)
  next
    case False
    then show ?thesis by (subst sym_loop.simps) simp
  qed
qed

section \<open>The end of an image\<close>

lemma fold_max_bound:
  fixes r :: u32
  shows "r \<le> fold (\<lambda>i r. let e = f i in if r < e then e else r) is r \<and>
    (\<forall>i \<in> set is. f i \<le> fold (\<lambda>i r. let e = f i in if r < e then e else r) is r)"
proof (induction "is" arbitrary: r)
  case (Cons i "is")
  let ?r = "if r < f i then f i else r"
  have "r \<le> ?r" "f i \<le> ?r" by auto
  with Cons.IH [of ?r] show ?case by (auto simp: Let_def intro: order_trans)
qed simp

lemma fold_max_mem:
  fixes r :: u32
  shows "fold (\<lambda>i r. let e = f i in if r < e then e else r) is r \<in> insert r (f ` set is)"
  by (induction "is" arbitrary: r) (auto simp: Let_def)

lemma round_down_bounds: "n \<le> (n + 4095) div 4096 * 4096" "n div 4096 * 4096 \<le> n" for n :: nat
proof -
  have "(n + 4095) mod 4096 < 4096" by simp
  moreover have "(n + 4095) div 4096 * 4096 + (n + 4095) mod 4096 = n + 4095"
    by (rule div_mult_mod_eq)
  ultimately show "n \<le> (n + 4095) div 4096 * 4096" by linarith
qed (rule div_times_less_eq_dividend)

lemma ALIGN_FORWARD_page:
  assumes "x \<le> 0xFFFFF000"
  shows "x \<le> ALIGN_FORWARD x 0x1000" "ALIGN_FORWARD x 0x1000 AND 0xFFF = 0"
    "unat (ALIGN_FORWARD x 0x1000) < unat x + 0x1000"
proof -
  let ?y = "x + 0xFFF"
  have y: "unat ?y = unat x + 0xFFF"
    using assms by (simp add: unat_plus_if' word_le_nat_alt)
  have al: "ALIGN_FORWARD x 0x1000 = ?y AND NOT 0xFFF" by (simp add: ALIGN_FORWARD_def add.commute)
  have m: "(0xFFF :: u32) = mask 12" by (simp add: mask_eq_exp_minus_1)
  have "?y AND NOT 0xFFF = push_bit 12 (drop_bit 12 ?y)"
    unfolding m by (rule bit_word_eqI) (auto simp: bit_simps)
  then have "?y AND NOT 0xFFF = word_of_nat (unat ?y div 4096 * 4096)"
    by (simp add: push_bit_eq_mult drop_bit_eq_div word_unat_eq_iff unat_div unat_word_ariths
        unat_of_nat)
  moreover have "unat ?y div 4096 * 4096 < 2 ^ 32"
    by (rule order.strict_trans1 [OF div_times_less_eq_dividend]) (use unsigned_less [of ?y] in simp)
  ultimately have u: "unat (?y AND NOT 0xFFF) = unat ?y div 4096 * 4096"
    by (simp only: unat_of_nat_u32)
  show "x \<le> ALIGN_FORWARD x 0x1000"
    unfolding al word_le_nat_alt u y using round_down_bounds(1) [of "unat x"] by simp
  show "ALIGN_FORWARD x 0x1000 AND 0xFFF = 0"
    unfolding al by (rule bit_word_eqI) (auto simp: bit_simps)
  show "unat (ALIGN_FORWARD x 0x1000) < unat x + 0x1000"
    unfolding al u y using round_down_bounds(2) [of "unat x + 0xFFF"] by simp
qed

section \<open>Properties\<close>

text \<open>
  Relocation: when the relative targets are disjoint words outside the table, the loop
  adds the load address to exactly those target words that lie below it and changes no
  other word.
\<close>

lemma relocation_exact:
  assumes "word_disjoint (targets m base rel n)"
    and "\<forall>t \<in> set (targets m base rel n). disjoint_regions rel (8 * n) t 4"
  shows "(\<forall>t \<in> set (targets m base rel n). read32 (reloc_loop m base rel n) t =
            (if read32 m t < base then read32 m t + base else read32 m t)) \<and>
    (\<forall>a. (\<forall>t \<in> set (targets m base rel n). disjoint_regions t 4 a 4) \<longrightarrow>
            read32 (reloc_loop m base rel n) a = read32 m a)"
  using reloc_loop_spec [OF assms] by (simp add: relocated_def)

text \<open>One relative relocation, of the word at offset 16, in a table at offset 64.\<close>

definition demo_image :: mem where
  "demo_image = (\<lambda>a. if a = 0x27000043 then 16 else if a = 0x27000047 then 23
     else if a = 0x27000013 then 5 else 0)"

lemma demo_targets: "targets demo_image 0x27000000 0x27000040 1 = [0x27000010]"
  by (simp add: targets_Suc r_type_def r_offset_def read32_def demo_image_def R_ARM_RELATIVE_def
      flip: One_nat_def) (simp add: targets_def r_type_def r_offset_def read32_def demo_image_def
      R_ARM_RELATIVE_def)

lemma relocation_exact_witness:
  "read32 (reloc_loop demo_image 0x27000000 0x27000040 1) 0x27000010 = 0x27000005"
proof -
  have "word_disjoint (targets demo_image 0x27000000 0x27000040 1)"
    unfolding demo_targets by (simp add: word_disjoint_def)
  moreover have "read32 demo_image 0x27000010 = 5" by (simp add: read32_def demo_image_def)
  ultimately show ?thesis
    using relocation_exact [of demo_image "0x27000000" "0x27000040" 1]
    unfolding demo_targets by (simp add: disjoint_regions_def)
qed

text \<open>
  An image whose relocation table is sound: the targets are disjoint from each other, from
  the table, from the entry point field and from the word that marks the image relocated.
\<close>

definition reloc_ok :: "mem \<Rightarrow> u32 \<Rightarrow> dyn_info \<Rightarrow> bool" where
  "reloc_ok m base i \<longleftrightarrow>
     (let ts = targets m base (relptr i) (unat (relsz i)); flag = base_entry m base + 0x14
      in relptr i \<noteq> 0 \<and> word_disjoint ts \<and>
         (\<forall>t \<in> set ts. disjoint_regions (relptr i) (8 * unat (relsz i)) t 4 \<and>
            disjoint_regions t 4 (base + E_ENTRY) 4 \<and> disjoint_regions t 4 flag 4) \<and>
         disjoint_regions flag 4 (base + E_ENTRY) 4)"

text \<open>What loading a fresh image with a sound table does to the words of memory.\<close>

lemma wafel_dynamic_fresh:
  assumes fresh: "wafel_is_relocated m base = 0" and es: "dyn_entries m dyn = Some es"
    and ok: "reloc_ok m base i" "i = fold (reloc_entry base) es dyn_null"
  defines "ts \<equiv> targets m base (relptr i) (unat (relsz i))"
  shows "\<exists>m'. wafel_dynamic m base dyn = Some m' \<and> wafel_is_relocated m' base = 1 \<and>
    (\<forall>t \<in> set ts. read32 m' t = relocated base (read32 m t)) \<and>
    (\<forall>a. (\<forall>t \<in> set ts. disjoint_regions t 4 a 4) \<and> disjoint_regions (base_entry m base + 0x14) 4 a 4 \<longrightarrow>
       read32 m' a = read32 m a)"
proof -
  let ?m = "reloc_loop m base (relptr i) (unat (relsz i))"
  let ?m' = "wafel_set_relocated ?m base"
  have w: "relptr i \<noteq> 0" "word_disjoint ts"
      "\<forall>t \<in> set ts. disjoint_regions (relptr i) (8 * unat (relsz i)) t 4"
    and e: "\<forall>t \<in> set ts. disjoint_regions t 4 (base + E_ENTRY) 4"
    and f: "\<forall>t \<in> set ts. disjoint_regions t 4 (base_entry m base + 0x14) 4"
    and fe: "disjoint_regions (base_entry m base + 0x14) 4 (base + E_ENTRY) 4"
    using ok by (auto simp: reloc_ok_def Let_def ts_def)
  note sp = reloc_loop_spec [OF w(2,3) [unfolded ts_def], folded ts_def]
  have be: "base_entry ?m base = base_entry m base"
    using sp e by (simp add: base_entry_def)
  have keep: "read32 ?m' a = read32 ?m a" if "disjoint_regions (base_entry m base + 0x14) 4 a 4" for a
    unfolding wafel_set_relocated_def be using that by (rule read32_write32_other)
  have "wafel_dynamic m base dyn = Some ?m'"
    using fresh es w(1) by (simp add: wafel_dynamic_def Let_def ok(2))
  moreover have "wafel_is_relocated ?m' base = 1"
    using fe by (intro wafel_is_relocated_set) (simp add: be)
  moreover have "read32 ?m' t = relocated base (read32 m t)" if "t \<in> set ts" for t
    using that sp f keep [of t] by (simp add: disjoint_sym)
  ultimately show ?thesis using sp keep by auto
qed

text \<open>
  C3. Loading a plugin: an image with a sound table is relocated as the table says, is
  marked, and loading it again changes nothing.
\<close>

theorem dynamic_relocates_once:
  assumes fresh: "wafel_is_relocated m base = 0" and es: "dyn_entries m dyn = Some es"
    and ok: "reloc_ok m base (fold (reloc_entry base) es dyn_null)"
  shows "\<exists>m'. wafel_dynamic m base dyn = Some m' \<and> wafel_is_relocated m' base = 1 \<and>
    (let i = fold (reloc_entry base) es dyn_null
     in \<forall>t \<in> set (targets m base (relptr i) (unat (relsz i))).
          read32 m' t = (if read32 m t < base then read32 m t + base else read32 m t)) \<and>
    (\<forall>dyn'. wafel_dynamic m' base dyn' = Some m')"
  using wafel_dynamic_fresh [OF fresh es ok refl] by (fastforce simp: Let_def relocated_def wafel_dynamic_def)

definition demo_plugin :: mem where
  "demo_plugin = demo_image(0x2700001B := 0x80, 0x270000C3 := 17, 0x270000C7 := 64,
     0x270000CB := 18, 0x270000CF := 8)"

lemma demo_plugin_entries: "dyn_entries demo_plugin 0x270000C0 = Some [(17, 64), (18, 8)]"
  by (subst dyn_entries.simps, simp add: read32_def demo_plugin_def demo_image_def DT_NULL_def,
      subst dyn_entries.simps, simp add: read32_def demo_plugin_def demo_image_def DT_NULL_def,
      subst dyn_entries.simps, simp add: read32_def demo_plugin_def demo_image_def DT_NULL_def)

lemma demo_plugin_facts:
  defines "i \<equiv> fold (reloc_entry 0x27000000) [(17, 64), (18, 8)] dyn_null"
  shows "relptr i = 0x27000040" "unat (relsz i) = Suc 0"
    "targets demo_plugin 0x27000000 0x27000040 (Suc 0) = [0x27000010]"
    "base_entry demo_plugin 0x27000000 = 0x27000080"
    "wafel_is_relocated demo_plugin 0x27000000 = 0" "reloc_ok demo_plugin 0x27000000 i"
proof -
  show i: "relptr i = 0x27000040" "unat (relsz i) = Suc 0"
    by (simp_all add: i_def reloc_entry_def dt_consts dyn_null_def unsigned_ucast_eq)
  show t: "targets demo_plugin 0x27000000 0x27000040 (Suc 0) = [0x27000010]"
    by (simp add: targets_Suc) (simp add: r_type_def r_offset_def read32_def
        demo_plugin_def demo_image_def R_ARM_RELATIVE_def)
  show be: "base_entry demo_plugin 0x27000000 = 0x27000080"
    by (simp add: base_entry_def E_ENTRY_def read32_def demo_plugin_def demo_image_def)
  show "wafel_is_relocated demo_plugin 0x27000000 = 0"
    by (simp add: wafel_is_relocated_def be) (simp add: read32_def demo_plugin_def demo_image_def)
  show "reloc_ok demo_plugin 0x27000000 i"
    unfolding reloc_ok_def Let_def i t be
    by (simp add: word_disjoint_def disjoint_regions_def E_ENTRY_def)
qed

theorem dynamic_relocates_once_witness:
  "\<exists>m'. wafel_dynamic demo_plugin 0x27000000 0x270000C0 = Some m' \<and>
     read32 m' 0x27000010 = 0x27000005"
proof -
  have "read32 demo_plugin 0x27000010 = 5"
    by (simp add: read32_def demo_plugin_def demo_image_def)
  then show ?thesis
    using dynamic_relocates_once [OF demo_plugin_facts(5) demo_plugin_entries demo_plugin_facts(6)]
    unfolding Let_def demo_plugin_facts(1-3) by auto
qed

text \<open>
  C10. Searching for a symbol: when the lookup in every registered plugin ends, the search
  returns the address of the first plugin that exports the name, and skipping \<open>k\<close> exports
  returns the one after them, 0 when there are not that many.
\<close>

theorem find_symbol_order:
  assumes "\<forall>e \<in> set elfs. wafel_get_symbol_addr m e name = Some (f e)"
  shows "wafel_find_symbol_multiple m elfs name k =
      Some (let hits = filter (\<lambda>p. p \<noteq> 0) (map f elfs)
            in if unat k < length hits then hits ! unat k else 0) \<and>
    wafel_find_symbol m elfs name = wafel_find_symbol_multiple m elfs name 0"
  using plugins.search_skip_nth [OF assms] plugins.search_first [OF assms] by simp

theorem find_symbol_order_witness:
  "wafel_find_symbol_multiple (\<lambda>_. 0) [0x27000000] 0x1000 3 = Some 0"
proof -
  have d: "wafel_get_plugin_dynamic (\<lambda>_. 0) 0x27000000 = 0"
    by (simp add: wafel_get_plugin_dynamic_def wafel_get_plugin_phdrs_def ELF_MAGIC_def read32_def)
  have "dyn_entries (\<lambda>_. 0) 0 = Some []"
    by (subst dyn_entries.simps) (simp add: read32_def DT_NULL_def)
  then have "wafel_get_symbol_addr (\<lambda>_. 0) 0x27000000 0x1000 = Some 0"
    by (simp add: wafel_get_symbol_addr_def d Let_def dyn_null_def) (simp add: sym_loop.simps)
  then show ?thesis using find_symbol_order [of "[0x27000000]" "\<lambda>_. 0" "0x1000" "\<lambda>_. 0" 3] by simp
qed

text \<open>
  One symbol table: with terminated names the lookup returns the value of the first
  entry that has the name and a nonzero value.
\<close>

lemma symbol_first_entry:
  assumes "dyn_entries m (wafel_get_plugin_dynamic m base) = Some es"
    and "i = fold (lookup_entry base) es dyn_null"
    and "\<And>j. j < unat ((strtab i - symtab i) div 16) \<Longrightarrow>
      str_eq m (strtab i + st_name m (symtab i + of_nat (16 * j))) name = Some (eq j)"
  shows "wafel_get_symbol_addr m base name =
    Some (case find (\<lambda>j. eq j \<and> st_value m (symtab i + of_nat (16 * j)) \<noteq> 0)
                 [0..<unat ((strtab i - symtab i) div 16)] of
            None \<Rightarrow> 0 | Some j \<Rightarrow> base + st_value m (symtab i + of_nat (16 * j)))"
  using assms(1) sym_loop_spec [of 0 "unat ((strtab i - symtab i) div 16)" m "strtab i" "symtab i"
      name eq base] assms(2,3)
  by (simp add: wafel_get_symbol_addr_def Let_def)

lemma symbol_first_entry_witness:
  "wafel_get_symbol_addr (\<lambda>_. 0) 0x27000000 0x1000 = Some 0"
proof -
  have d: "wafel_get_plugin_dynamic (\<lambda>_. 0) 0x27000000 = 0"
    by (simp add: wafel_get_plugin_dynamic_def wafel_get_plugin_phdrs_def ELF_MAGIC_def read32_def)
  have e: "dyn_entries (\<lambda>_. 0) (wafel_get_plugin_dynamic (\<lambda>_. 0) 0x27000000) = Some []"
    unfolding d by (subst dyn_entries.simps) (simp add: read32_def DT_NULL_def)
  show ?thesis
    using symbol_first_entry [OF e refl, of "0x1000" "\<lambda>_. False"] by (simp add: dyn_null_def)
qed

text \<open>
  The end of a plugin: for an image whose segments end below the last page of the
  address space, the computed end is page aligned, not below the end of any segment, and
  less than a page above the highest one.
\<close>

lemma plugin_end_bounds:
  assumes "wafel_get_plugin_phdrs m base \<noteq> 0" and "wafel_get_plugin_num_phdrs m base \<noteq> 0"
    and "\<And>i. i < unat (wafel_get_plugin_num_phdrs m base) \<Longrightarrow>
      phdr_end m base (wafel_get_plugin_phdrs m base) i \<le> 0xFFFFF000"
  defines "ends \<equiv> phdr_end m base (wafel_get_plugin_phdrs m base) `
      {0..<unat (wafel_get_plugin_num_phdrs m base)}"
  shows "wafel_plugin_max_addr m base AND 0xFFF = 0 \<and>
    (\<forall>e \<in> ends. e \<le> wafel_plugin_max_addr m base) \<and>
    (\<exists>e \<in> insert 0 ends. unat (wafel_plugin_max_addr m base) < unat e + 0x1000)"
proof -
  let ?f = "phdr_end m base (wafel_get_plugin_phdrs m base)"
  let ?n = "unat (wafel_get_plugin_num_phdrs m base)"
  let ?r = "fold (\<lambda>i r. let e = ?f i in if r < e then e else r) [0..<?n] 0"
  have mem: "?r \<in> insert 0 ends"
    using fold_max_mem [of ?f "[0..<?n]" 0] by (simp add: ends_def)
  have b: "e \<le> ?r" if "e \<in> ends" for e
    using that fold_max_bound [of 0 ?f "[0..<?n]"] by (auto simp: ends_def)
  have le: "?r \<le> 0xFFFFF000" using mem assms(3) by (auto simp: ends_def)
  have "wafel_plugin_max_addr m base = ALIGN_FORWARD ?r 0x1000"
    using assms(1,2) by (simp add: wafel_plugin_max_addr_def)
  then show ?thesis
    using ALIGN_FORWARD_page [OF le] mem b by (auto intro: order_trans)
qed

lemma plugin_end_bounds_witness:
  "wafel_plugin_max_addr (demo_image(0x27000000 := 0x7F, 0x27000001 := 0x45, 0x27000002 := 0x4C,
     0x27000003 := 0x46, 0x2700001F := 0x60, 0x2700002D := 1)) 0x27000000 AND 0xFFF = 0"
proof -
  let ?m = "demo_image(0x27000000 := 0x7F, 0x27000001 := 0x45, 0x27000002 := 0x4C,
     0x27000003 := 0x46, 0x2700001F := 0x60, 0x2700002D := 1)"
  have p: "wafel_get_plugin_phdrs ?m 0x27000000 = 0x27000060"
    "wafel_get_plugin_num_phdrs ?m 0x27000000 = 1"
    by (simp_all add: wafel_get_plugin_phdrs_def wafel_get_plugin_num_phdrs_def ELF_MAGIC_def
        E_PHOFF_def E_PHNUM_def read32_def read16_def demo_image_def)
  have "phdr_end ?m 0x27000000 0x27000060 0 \<le> 0xFFFFF000"
    by (simp add: phdr_end_def plugin_phdr_def read32_def demo_image_def)
  then show ?thesis using plugin_end_bounds [of ?m "0x27000000"] by (simp add: p)
qed

end
