(* ===== verification/Prsh.thy ===== *)
theory Prsh
  imports Machine
begin

text \<open>
  \<^verbatim>\<open>wafel_core/source/ios/prsh.c\<close>: the boot parameters the previous boot stage leaves in
  memory.  The state is the pair of static variables \<^verbatim>\<open>header\<close> and \<^verbatim>\<open>initialized\<close>
  (\<^verbatim>\<open>prst\<close> is only written); the entries are read from memory.  C strings given by the
  program are byte lists without their terminator.
\<close>

section \<open>State and layout\<close>

record prsh_state =
  header :: u32
  initialized :: bool

definition IOS_PRSH_MAGIC :: u32 where "IOS_PRSH_MAGIC = 0x50525348"
definition PRSH_START :: u32 where "PRSH_START = 0x10000400"
definition PRSH_WORDS :: nat where "PRSH_WORDS = 0x7C00 div 4"

definition prsh_total_entries :: "mem \<Rightarrow> u32 \<Rightarrow> u32" where
  "prsh_total_entries m h = read32 m (h + 20)"

definition prsh_entries :: "mem \<Rightarrow> u32 \<Rightarrow> u32" where
  "prsh_entries m h = read32 m (h + 24)"

text \<open>An entry is 0x12C bytes: the name, the data pointer, the size, a flag, padding.\<close>

definition prsh_entry :: "u32 \<Rightarrow> nat \<Rightarrow> u32" where
  "prsh_entry h i = h + 28 + of_nat (0x12C * i)"

section \<open>Operations\<close>

definition prsh_reset :: "prsh_state \<Rightarrow> prsh_state" where
  "prsh_reset st = st\<lparr>header := 0, initialized := False\<rparr>"

text \<open>The scan for the magic word; the result is the address of the header.\<close>

fun prsh_scan :: "mem \<Rightarrow> u32 \<Rightarrow> nat \<Rightarrow> u32" where
  "prsh_scan m buffer 0 = 0"
| "prsh_scan m buffer (Suc n) =
     (if read32 m buffer = IOS_PRSH_MAGIC then buffer - 4 else prsh_scan m (buffer + 4) n)"

definition prsh_init :: "mem \<Rightarrow> prsh_state \<Rightarrow> prsh_state" where
  "prsh_init m st =
     (let init = (if header st \<noteq> 0 \<and> 0x100 < prsh_total_entries m (header st) then False
                  else initialized st)
      in if init then st\<lparr>initialized := init\<rparr>
         else st\<lparr>header := prsh_scan m PRSH_START PRSH_WORDS, initialized := True\<rparr>)"

text \<open>
  The loop at the end prints the names of the entries of the header that was found, or of address 0 when
  none was; here it is the list of their addresses.  It changes nothing.
\<close>

definition prsh_init_prints :: "mem \<Rightarrow> prsh_state \<Rightarrow> u32 list" where
  "prsh_init_prints m st =
     (if initialized st \<and> \<not> (header st \<noteq> 0 \<and> 0x100 < prsh_total_entries m (header st)) then []
      else let h = header (prsh_init m st) in map (prsh_entry h) [0..<unat (prsh_entries m h)])"

text \<open>\<^verbatim>\<open>!strncmp(name, a, n)\<close>.\<close>

fun strncmp_eq :: "mem \<Rightarrow> u8 list \<Rightarrow> u32 \<Rightarrow> nat \<Rightarrow> bool" where
  "strncmp_eq m name a 0 = True"
| "strncmp_eq m name a (Suc n) =
     (let c = (case name of [] \<Rightarrow> 0 | x # _ \<Rightarrow> x)
      in if c \<noteq> m a then False else if c = 0 then True
         else strncmp_eq m (tl name) (a + 1) n)"

text \<open>The error code, or the data pointer and the size of the entry.\<close>

definition prsh_get_entry ::
  "mem \<Rightarrow> prsh_state \<Rightarrow> u8 list option \<Rightarrow> prsh_state \<times> (int + u32 \<times> u32)" where
  "prsh_get_entry m st name =
     (let st = prsh_init m st
      in (st, case name of
            None \<Rightarrow> Inl (- 1)
          | Some name \<Rightarrow>
              if header st = 0 then Inl (- 2)
              else if 0x100 < prsh_total_entries m (header st) then Inl (- 1)
              else (case find (\<lambda>i. strncmp_eq m name (prsh_entry (header st) i) 0x100)
                           [0..<unat (prsh_entries m (header st))] of
                      None \<Rightarrow> Inl (- 2)
                    | Some i \<Rightarrow> let e = prsh_entry (header st) i
                               in Inr (read32 m (e + 0x100), read32 m (e + 0x104)))))"

section \<open>Lemmas\<close>

text \<open>Comparing with a name that fits the field is comparing a terminated string.\<close>

lemma strncmp_eq_iff:
  assumes "0 \<notin> set name" "length name < n"
  shows "strncmp_eq m name a n \<longleftrightarrow>
    (\<forall>k<length name. m (a + of_nat k) = name ! k) \<and> m (a + of_nat (length name)) = 0"
  using assms
proof (induction m name a n rule: strncmp_eq.induct)
  case (2 m name a n)
  show ?case
  proof (cases name)
    case (Cons c cs)
    have *: "(\<forall>k<Suc l. P k) \<longleftrightarrow> P 0 \<and> (\<forall>k<l. P (Suc k))" for P and l :: nat
      by (metis less_Suc_eq_0_disj)
    show ?thesis
      using 2 Cons by (auto simp: * add.assoc)
  qed auto
qed simp

lemma prsh_scan_spec:
  assumes "n < 2 ^ 20"
  shows "(\<exists>k<n. read32 m (b + of_nat (4 * k)) = IOS_PRSH_MAGIC \<and>
      (\<forall>j<k. read32 m (b + of_nat (4 * j)) \<noteq> IOS_PRSH_MAGIC) \<and>
      prsh_scan m b n = b + of_nat (4 * k) - 4) \<or>
    (\<forall>k<n. read32 m (b + of_nat (4 * k)) \<noteq> IOS_PRSH_MAGIC) \<and> prsh_scan m b n = 0"
  using assms
proof (induction n arbitrary: b)
  case (Suc n)
  have *: "(\<forall>k<Suc l. P k) \<longleftrightarrow> P 0 \<and> (\<forall>k<l. P (Suc k))" for P and l :: nat
    by (metis less_Suc_eq_0_disj)
  show ?case
  proof (cases "read32 m b = IOS_PRSH_MAGIC")
    case True
    then show ?thesis by (intro disjI1 exI [of _ 0]) simp
  next
    case False
    consider
      k where "k < n" "read32 m (b + 4 + of_nat (4 * k)) = IOS_PRSH_MAGIC"
          "\<forall>j<k. read32 m (b + 4 + of_nat (4 * j)) \<noteq> IOS_PRSH_MAGIC"
          "prsh_scan m (b + 4) n = b + 4 + of_nat (4 * k) - 4"
      | "\<forall>k<n. read32 m (b + 4 + of_nat (4 * k)) \<noteq> IOS_PRSH_MAGIC" "prsh_scan m (b + 4) n = 0"
      using Suc.IH [of "b + 4"] Suc.prems Suc_lessD by blast
    then show ?thesis
    proof cases
      case 1
      have "\<forall>j<Suc k. read32 m (b + of_nat (4 * j)) \<noteq> IOS_PRSH_MAGIC"
        using 1(3) False by (auto simp: * add.assoc)
      with 1 False show ?thesis
        by (intro disjI1 exI [of _ "Suc k"]) (simp add: add.assoc)
    next
      case 2
      then show ?thesis using False by (simp add: * add.assoc)
    qed
  qed
qed simp

section \<open>The contract of the parameter store\<close>

text \<open>
  What the clients (the configuration reader and the IPC server) rely on: a store that is
  ready stays as it is, so queries do not influence each other.
\<close>

definition prsh_ready :: "mem \<Rightarrow> prsh_state \<Rightarrow> bool" where
  "prsh_ready m st \<longleftrightarrow> initialized st \<and> (header st \<noteq> 0 \<longrightarrow> prsh_total_entries m (header st) \<le> 0x100)"

locale config_store =
  fixes get :: "'s \<Rightarrow> u8 list option \<Rightarrow> 's \<times> (int + 'v)"
    and ready :: "'s \<Rightarrow> bool"
  assumes get_ready: "ready s \<Longrightarrow> fst (get s name) = s"
begin

fun gets :: "'s \<Rightarrow> u8 list option list \<Rightarrow> 's \<times> (int + 'v) list" where
  "gets s [] = (s, [])"
| "gets s (n # ns) = (let (s, r) = get s n; (s, rs) = gets s ns in (s, r # rs))"

lemma gets_map: "ready s \<Longrightarrow> gets s ns = (s, map (\<lambda>n. snd (get s n)) ns)"
proof (induction ns)
  case (Cons n ns)
  obtain s' r where g: "get s n = (s', r)" by force
  with get_ready [OF Cons.prems, of n] have "s' = s" by simp
  with g Cons show ?case by simp
qed simp

end

lemma prsh_init_ready: "prsh_ready m st \<Longrightarrow> prsh_init m st = st"
  by (auto simp: prsh_ready_def prsh_init_def Let_def)

lemma prsh_init_prints_ready: "prsh_ready m st \<Longrightarrow> prsh_init_prints m st = []"
  by (auto simp: prsh_ready_def prsh_init_prints_def)

text \<open>Without a header the loop takes its bound and its names from address 0 on.\<close>

lemma prsh_init_prints_null:
  assumes "\<not> initialized st" "prsh_scan m PRSH_START PRSH_WORDS = 0"
  shows "header (prsh_init m st) = 0 \<and>
    prsh_init_prints m st = map (prsh_entry 0) [0..<unat (read32 m 24)]"
  using assms by (simp add: prsh_init_def prsh_init_prints_def prsh_entries_def)

interpretation prsh: config_store "prsh_get_entry m" "prsh_ready m" for m
  by unfold_locales (simp add: prsh_get_entry_def Let_def prsh_init_ready)

section \<open>Properties\<close>

text \<open>
  C20. Boot parameters: in a ready store a name that fits its field is answered with the
  pointer and size of the first entry whose terminated name is equal to it, with -2 when no
  entry is, and the store does not change.
\<close>

theorem prsh_first_entry:
  assumes ready: "prsh_ready m st" and h: "header st \<noteq> 0"
    and name: "0 \<notin> set name" "length name < 0x100"
  defines "named \<equiv> \<lambda>i. (\<forall>k<length name. m (prsh_entry (header st) i + of_nat k) = name ! k) \<and>
      m (prsh_entry (header st) i + of_nat (length name)) = 0"
  shows "prsh_get_entry m st (Some name) =
    (st, case find named [0..<unat (prsh_entries m (header st))] of
           None \<Rightarrow> Inl (- 2)
         | Some i \<Rightarrow> Inr (read32 m (prsh_entry (header st) i + 0x100),
                         read32 m (prsh_entry (header st) i + 0x104)))"
proof -
  have "strncmp_eq m name a 0x100 \<longleftrightarrow>
    (\<forall>k<length name. m (a + of_nat k) = name ! k) \<and> m (a + of_nat (length name)) = 0" for a
    using name by (rule strncmp_eq_iff)
  then have "(\<lambda>i. strncmp_eq m name (prsh_entry (header st) i) 0x100) = named"
    by (simp add: named_def)
  then show ?thesis
    using ready h prsh_init_ready [OF ready]
    by (cases "find named [0..<unat (prsh_entries m (header st))]")
       (simp_all add: prsh_get_entry_def Let_def prsh_ready_def leD)
qed

text \<open>One entry, named "otp".\<close>

definition demo_prsh :: mem where
  "demo_prsh = (\<lambda>a. if a = 0x10000417 then 1 else if a = 0x1000041B then 1
     else if a = 0x1000041C then 111 else if a = 0x1000041D then 116 else if a = 0x1000041E then 112
     else if a = 0x1000051F then 9 else if a = 0x10000523 then 4 else 0)"

theorem prsh_first_entry_witness:
  "prsh_get_entry demo_prsh \<lparr> header = 0x10000400, initialized = True \<rparr> (Some [111, 116, 112])
     = (\<lparr> header = 0x10000400, initialized = True \<rparr>, Inr (9, 4))"
proof -
  let ?st = "\<lparr> header = 0x10000400, initialized = True \<rparr>"
  have "prsh_ready demo_prsh ?st"
    by (simp add: prsh_ready_def prsh_total_entries_def read32_def demo_prsh_def)
  moreover have "prsh_entries demo_prsh 0x10000400 = 1"
    by (simp add: prsh_entries_def read32_def demo_prsh_def)
  ultimately show ?thesis
    using prsh_first_entry [of demo_prsh ?st "[111, 116, 112]"]
    by (simp add: prsh_entry_def demo_prsh_def read32_def less_Suc_eq numeral_3_eq_3)
qed

text \<open>
  Finding the parameters: on a fresh state the header is set in front of the first
  magic word in the scanned range; without one it stays \<^verbatim>\<open>NULL\<close>, and every query is then
  answered with -2 rather than with an entry.
\<close>

lemma prsh_header_found:
  assumes "\<not> initialized st"
  shows "(\<exists>k<PRSH_WORDS. read32 m (PRSH_START + of_nat (4 * k)) = IOS_PRSH_MAGIC \<and>
      (\<forall>j<k. read32 m (PRSH_START + of_nat (4 * j)) \<noteq> IOS_PRSH_MAGIC) \<and>
      header (prsh_init m st) = PRSH_START + of_nat (4 * k) - 4) \<or>
    (\<forall>k<PRSH_WORDS. read32 m (PRSH_START + of_nat (4 * k)) \<noteq> IOS_PRSH_MAGIC) \<and>
      header (prsh_init m st) = 0 \<and> snd (prsh_get_entry m st (Some name)) = Inl (- 2)"
  using prsh_scan_spec [of PRSH_WORDS m PRSH_START] assms
  by (auto simp: prsh_init_def prsh_get_entry_def PRSH_WORDS_def)

theorem prsh_header_found_witness:
  "(\<exists>k<PRSH_WORDS. read32 (\<lambda>_. 0) (PRSH_START + of_nat (4 * k)) = IOS_PRSH_MAGIC) \<or>
   snd (prsh_get_entry (\<lambda>_. 0) \<lparr> header = 0, initialized = False \<rparr> (Some [1])) = Inl (- 2)"
  using prsh_header_found [of "\<lparr> header = 0, initialized = False \<rparr>" "\<lambda>_. 0" "[1]"] by auto

end
