(* ===== verification/Rednand.thy ===== *)
theory Rednand
  imports Machine
begin

text \<open>
  \<^verbatim>\<open>wafel_core/source/rednand\<close> without the patched instructions themselves: the emulated
  SEEPROM (\<^verbatim>\<open>redseeprom.c\<close>), the partition that stands in for the MLC
  (\<^verbatim>\<open>sal_partition.c\<close>), the companion file of hai (\<^verbatim>\<open>hai.c\<close>) and the decisions of
  \<^verbatim>\<open>rednand.c\<close>.  A patch function is the list of the patches it applies, in order.
\<close>

section \<open>The emulated SEEPROM\<close>

record seeprom =
  writeEnabled :: int
  dirty :: int
  seeprom_buffer :: "u16 list"

definition IOS_ERROR_NOT_READY :: int where "IOS_ERROR_NOT_READY = - 10"
definition IOS_ERROR_INVALID :: int where "IOS_ERROR_INVALID = - 4"
definition IOS_ERROR_OK :: int where "IOS_ERROR_OK = 0"

text \<open>
  The drive key is not redirected: \<open>orig\<close> is the original driver, which answers with a
  code and a word.
\<close>

definition drive_key :: "nat \<Rightarrow> bool" where
  "drive_key i \<longleftrightarrow> 0x40 \<le> i \<and> i < 0x48"

definition redseeprom_read_word :: "(u32 \<Rightarrow> int \<times> u16) \<Rightarrow> seeprom \<Rightarrow> u32 \<Rightarrow> int \<times> u16" where
  "redseeprom_read_word orig st index =
     (let index = index AND 0xFF
      in if drive_key (unat index) then orig index
         else (IOS_ERROR_OK, seeprom_buffer st ! unat index))"

definition redseeprom_write_word :: "seeprom \<Rightarrow> u32 \<Rightarrow> u16 \<Rightarrow> seeprom \<times> int" where
  "redseeprom_write_word st index data =
     (if writeEnabled st = 0 then (st, IOS_ERROR_NOT_READY)
      else (st\<lparr>seeprom_buffer := (seeprom_buffer st)[unat (index AND 0xFF) := data], dirty := 1\<rparr>,
            IOS_ERROR_OK))"

definition redseeprom_write_control :: "seeprom \<Rightarrow> int \<Rightarrow> seeprom \<times> int" where
  "redseeprom_write_control st cmd =
     (if cmd = 1 then (st\<lparr>writeEnabled := 0\<rparr>, IOS_ERROR_OK)
      else if cmd = 2 then (st\<lparr>writeEnabled := 1\<rparr>, IOS_ERROR_OK)
      else (st, IOS_ERROR_INVALID))"

text \<open>The driver as a machine over the calls the system makes.\<close>

datatype seeprom_call = Write u32 u16 | Control int

definition seeprom_call_step :: "seeprom \<Rightarrow> seeprom_call \<Rightarrow> seeprom" where
  "seeprom_call_step st c =
     (case c of Write i d \<Rightarrow> fst (redseeprom_write_word st i d)
      | Control cmd \<Rightarrow> fst (redseeprom_write_control st cmd))"

inductive seeprom_step :: "seeprom \<Rightarrow> seeprom \<Rightarrow> bool" where
  wr: "redseeprom_write_word st i d = (st', r) \<Longrightarrow> seeprom_step st st'"
| ctl: "redseeprom_write_control st cmd = (st', r) \<Longrightarrow> seeprom_step st st'"

inductive_cases seeprom_stepE: "seeprom_step st st'"

definition seeprom_wf :: "seeprom \<Rightarrow> bool" where
  "seeprom_wf st \<longleftrightarrow> length (seeprom_buffer st) = 256 \<and> writeEnabled st \<in> {0, 1}"

lemma seeprom_step_wf: "seeprom_step st st' \<Longrightarrow> seeprom_wf st \<Longrightarrow> seeprom_wf st'"
  by (elim seeprom_stepE)
     (auto simp: redseeprom_write_word_def redseeprom_write_control_def seeprom_wf_def
       split: if_splits)

lemma seeprom_reachable_wf: "seeprom_step\<^sup>*\<^sup>* st st' \<Longrightarrow> seeprom_wf st \<Longrightarrow> seeprom_wf st'"
  by (induction rule: rtranclp_induct) (auto intro: seeprom_step_wf)

lemma index_low: "unat ((i :: u32) AND 0xFF) = unat i mod 256"
proof -
  have "i AND 0xFF = take_bit 8 i" by (simp add: take_bit_eq_mask mask_eq_exp_minus_1)
  then show ?thesis by (simp add: take_bit_eq_mod unat_mod)
qed

text \<open>The buffer follows the writes made while writing is enabled, and nothing else.\<close>

fun enabled_writes :: "bool \<Rightarrow> seeprom_call list \<Rightarrow> (nat \<times> u16) list" where
  "enabled_writes en [] = []"
| "enabled_writes en (Write i d # cs) =
     (if en then [(unat i mod 256, d)] else []) @ enabled_writes en cs"
| "enabled_writes en (Control cmd # cs) =
     enabled_writes (if cmd = 1 then False else if cmd = 2 then True else en) cs"

lemma seeprom_trace:
  assumes "writeEnabled st \<in> {0, 1}"
  shows "seeprom_buffer (foldl seeprom_call_step st cs) =
    foldl (\<lambda>b (i, d). b[i := d]) (seeprom_buffer st) (enabled_writes (writeEnabled st = 1) cs)"
  using assms
proof (induction cs arbitrary: st)
  case (Cons c cs)
  show ?case
    using Cons.IH [of "seeprom_call_step st c"] Cons.prems
    by (cases c) (auto simp: seeprom_call_step_def redseeprom_write_word_def
        redseeprom_write_control_def index_low)
qed simp

section \<open>The partition in place of the MLC\<close>

definition ADD_OFFSET :: "u32 \<Rightarrow> u32 \<Rightarrow> u32 \<Rightarrow> u32 \<times> u32" where
  "ADD_OFFSET off high low =
     (let combined = (push_bit 32 (ucast high) OR ucast low) + ucast off :: u64
      in (ucast (drop_bit 32 combined), ucast (combined AND 0xFFFFFFFF)))"

text \<open>
  The wrappers pass everything but the block address on to the real operation, which is a
  parameter: \<open>'a\<close> stands for the other arguments.
\<close>

definition read_wrapper :: "u32 \<Rightarrow> ('h \<Rightarrow> u32 \<Rightarrow> u32 \<Rightarrow> 'a \<Rightarrow> 'r) \<Rightarrow> 'h \<Rightarrow> u32 \<Rightarrow> u32 \<Rightarrow> 'a \<Rightarrow> 'r" where
  "read_wrapper off real_read dev hi lo args = (let (hi, lo) = ADD_OFFSET off hi lo in real_read dev hi lo args)"

definition write_wrapper :: "u32 \<Rightarrow> ('h \<Rightarrow> u32 \<Rightarrow> u32 \<Rightarrow> 'a \<Rightarrow> 'r) \<Rightarrow> 'h \<Rightarrow> u32 \<Rightarrow> u32 \<Rightarrow> 'a \<Rightarrow> 'r" where
  "write_wrapper off real_write dev hi lo args = (let (hi, lo) = ADD_OFFSET off hi lo in real_write dev hi lo args)"

definition sync_wrapper :: "u32 \<Rightarrow> ('h \<Rightarrow> u32 \<Rightarrow> u32 \<Rightarrow> 'a \<Rightarrow> 'r) \<Rightarrow> 'h \<Rightarrow> u32 \<Rightarrow> u32 \<Rightarrow> 'a \<Rightarrow> 'r" where
  "sync_wrapper off real_sync dev hi lo args = (let (hi, lo) = ADD_OFFSET off hi lo in real_sync dev hi lo args)"

datatype sal_op = Real u32 | ReadWrapper | WriteWrapper | SyncWrapper | ReadCrash | WriteCrash

record attach_arg =
  server_handle :: u32
  device_type :: u32
  max_lba_size :: u64
  block_count :: u64
  op_read :: sal_op
  op_read2 :: sal_op
  op_write :: sal_op
  op_write2 :: sal_op
  opsync :: sal_op

record partition =
  partition_offset :: u32
  partition_size :: u32
  real_read :: sal_op
  real_write :: sal_op
  real_sync :: sal_op

definition patch_partition_attach_arg :: "partition \<Rightarrow> attach_arg \<Rightarrow> u32 \<Rightarrow> partition \<times> attach_arg" where
  "patch_partition_attach_arg p a dt =
     (p\<lparr>real_read := op_read a, real_write := op_write a, real_sync := opsync a\<rparr>,
      a\<lparr>op_read := ReadWrapper, op_write := WriteWrapper, op_read2 := ReadCrash,
        op_write2 := WriteCrash, opsync := SyncWrapper, device_type := dt,
        max_lba_size := ucast (partition_size p - 1), block_count := ucast (partition_size p)\<rparr>)"

definition lba :: "u32 \<Rightarrow> u32 \<Rightarrow> nat" where
  "lba hi lo = unat hi * 2 ^ 32 + unat lo"

lemma lba_combined: "unat (push_bit 32 (ucast hi) OR ucast lo :: u64) = lba hi lo"
  by (simp only: unat_join64 lba_def)

lemma ADD_OFFSET_lba:
  assumes "ADD_OFFSET off hi lo = (hi', lo')"
  shows "lba hi' lo' = (lba hi lo + unat off) mod 2 ^ 64"
proof -
  let ?c = "(push_bit 32 (ucast hi) OR ucast lo) + ucast off :: u64"
  have h: "hi' = ucast (drop_bit 32 ?c)" and l: "lo' = ucast (?c AND 0xFFFFFFFF)"
    using assms by (auto simp: ADD_OFFSET_def Let_def)
  have "push_bit 32 (ucast hi') OR ucast lo' = ?c"
    unfolding h l by (rule join_split64)
  then have "lba hi' lo' = unat ?c" using lba_combined [of hi' lo'] by simp
  also have "\<dots> = (lba hi lo + unat off) mod 2 ^ 64"
    by (simp add: unat_word_ariths lba_combined)
  finally show ?thesis .
qed

section \<open>The companion file of hai\<close>

text \<open>
  \<^verbatim>\<open>hai_companion_add_offset\<close> on the words of the buffer; \<open>None\<close> stands for an access
  behind its end and for a shift by more than the width, which C leaves undefined.
\<close>

function companion_loop :: "u32 list \<Rightarrow> u32 \<Rightarrow> nat \<Rightarrow> nat \<Rightarrow> u32 list option" where
  "companion_loop buf off n i =
     (if i < n then
        if i < length buf then companion_loop (buf[i := buf ! i + off]) off n (i + 2) else None
      else Some buf)"
  by pat_completeness auto
termination
  by (relation "measure (\<lambda>(buf, off, n, i). n - i)") auto

declare companion_loop.simps [simp del]

definition hai_companion_add_offset :: "u32 list \<Rightarrow> u32 \<Rightarrow> u32 list option" where
  "hai_companion_add_offset buf offset =
     (if length buf < 2 then None
      else let number_extends = buf ! 0; address_unit_base = drop_bit 16 (buf ! 1);
               address_unit_base_lbas = address_unit_base - 9
           in if 32 \<le> unat address_unit_base_lbas then None
              else companion_loop buf (drop_bit (unat address_unit_base_lbas) offset)
                     (unat (number_extends * 2 + 2)) 2)"

text \<open>Which device hai reads from: forced, or learnt by the hook.\<close>

record hai_state =
  force_haidev :: bool
  haidev :: int
  applied :: bool

definition get_block_addr_haidev_patch :: "hai_state \<Rightarrow> int \<Rightarrow> hai_state" where
  "get_block_addr_haidev_patch st r0 = (if force_haidev st then st else st\<lparr>haidev := r0\<rparr>)"

definition hai_getdev :: "hai_state \<Rightarrow> int" where
  "hai_getdev st = haidev st"

definition hai_setdev :: "hai_state \<Rightarrow> int \<Rightarrow> hai_state" where
  "hai_setdev st devid = st\<lparr>force_haidev := True, haidev := devid\<rparr>"

inductive hai_step :: "hai_state \<Rightarrow> hai_state \<Rightarrow> bool" where
  hook: "hai_step st (get_block_addr_haidev_patch st r0)"

lemma companion_loop_spec:
  assumes "n \<le> length buf" "even n" "even i"
  shows "\<exists>buf'. companion_loop buf off n i = Some buf' \<and> length buf' = length buf \<and>
    (\<forall>k<length buf. buf' ! k = (if even k \<and> i \<le> k \<and> k < n then buf ! k + off else buf ! k))"
  using assms
proof (induction buf off n i rule: companion_loop.induct)
  case (1 buf off n i)
  show ?case
  proof (cases "i < n")
    case True
    then have il: "i < length buf" using "1.prems" by simp
    obtain buf' where b: "companion_loop (buf[i := buf ! i + off]) off n (i + 2) = Some buf'"
        "length buf' = length buf"
        "\<forall>k<length buf. buf' ! k = (if even k \<and> i + 2 \<le> k \<and> k < n
           then buf[i := buf ! i + off] ! k + off else buf[i := buf ! i + off] ! k)"
      using "1.IH" [OF True il] "1.prems" by auto
    have "buf' ! k = (if even k \<and> i \<le> k \<and> k < n then buf ! k + off else buf ! k)"
      if k: "k < length buf" for k
    proof -
      have "even k \<Longrightarrow> k \<noteq> Suc i" using "1.prems"(3) by auto
      then have "even k \<Longrightarrow> i \<le> k \<Longrightarrow> k = i \<or> i + 2 \<le> k" by linarith
      with b(3) k il True "1.prems"(3) show ?thesis
        by (cases "k = i") (auto simp: nth_list_update)
    qed
    with b True il show ?thesis by (subst companion_loop.simps) simp
  next
    case False
    then show ?thesis by (subst companion_loop.simps) auto
  qed
qed

section \<open>The configuration of the redirection\<close>

text \<open>
  The three versions of the configuration are prefixes of one another; \<open>sz\<close> is the size
  of what the boot stage left, and fields behind it are not read.
\<close>

record rednand_config =
  slc_start :: u32
  slc_length :: u32
  slccmpt_start :: u32
  slccmpt_length :: u32
  mlc_start :: u32
  mlc_length :: u32
  c_disable_scfm :: bool
  c_scfm_on_slccmpt :: bool
  c_initilized :: bool
  c_slc_nocrypto :: bool
  c_slccmpt_nocrypto :: bool
  c_mlc_nocrypto :: bool
  c_sys_mount_slc :: bool
  c_sys_mount_slccmpt :: bool
  c_sys_mount_mlc :: bool

definition SIZEOF_V1 :: nat where "SIZEOF_V1 = 27"
definition SIZEOF_V2 :: nat where "SIZEOF_V2 = 30"
definition SIZEOF_CONFIG :: nat where "SIZEOF_CONFIG = 33"

text \<open>
  One patch: a word, a branch, a linking branch, an assembly fragment, and the hooks of
  \<^verbatim>\<open>trampoline.c\<close>.  Destinations in the firmware and in the plugin are named.
\<close>

datatype patch_op =
    U32_PATCH u32 u32
  | BRANCH_PATCH u32 string
  | BL_TRAMPOLINE u32 string
  | BL_T_TRAMPOLINE u32 string
  | ASM_PATCH u32 string
  | T_ASM_PATCH u32 string
  | HOOK_BEFORE u32 string
  | T_HOOK_BEFORE u32 string
  | BLREPLACE u32 string
  | T_BLREPLACE u32 string

fun patch_addr :: "patch_op \<Rightarrow> u32" where
  "patch_addr (U32_PATCH a v) = a"
| "patch_addr (BRANCH_PATCH a s) = a"
| "patch_addr (BL_TRAMPOLINE a s) = a"
| "patch_addr (BL_T_TRAMPOLINE a s) = a"
| "patch_addr (ASM_PATCH a s) = a"
| "patch_addr (T_ASM_PATCH a s) = a"
| "patch_addr (HOOK_BEFORE a s) = a"
| "patch_addr (T_HOOK_BEFORE a s) = a"
| "patch_addr (BLREPLACE a s) = a"
| "patch_addr (T_BLREPLACE a s) = a"

text \<open>The three patches of \<^verbatim>\<open>redseeprom_enable\<close>; the buffer is the caller's.\<close>

definition redseeprom_enable :: "patch_op list" where
  "redseeprom_enable =
     [ASM_PATCH 0xe600d08c ''ldr pc, _seeprom_rd_hook; _seeprom_rd_hook: .word redseeprom_read_word'',
      ASM_PATCH 0xe600d010 ''ldr pc, _seeprom_wr_hook; _seeprom_wr_hook: .word redseeprom_write_word'',
      ASM_PATCH 0xe600cf5c ''ldr pc, _seeprom_wc_hook; _seeprom_wc_hook: .word redseeprom_write_control'']"

record rednand_state =
  redslc_off_sectors :: u32
  redslc_size_sectors :: u32
  redslccmpt_off_sectors :: u32
  redslccmpt_size_sectors :: u32
  redmlc :: partition
  disable_scfm :: bool
  scfm_on_slccmpt :: bool
  mlc_nocrypto :: bool
  hai :: hai_state

definition rednand_install_crypto_hooks :: "patch_op list" where
  "rednand_install_crypto_hooks = [HOOK_BEFORE 0x107435f4 ''wfs_initDeviceParams_exit_hook'']"

definition hai_apply_getdev_patch :: "hai_state \<Rightarrow> hai_state \<times> patch_op list" where
  "hai_apply_getdev_patch st =
     (if \<not> applied st \<and> \<not> force_haidev st
      then (st\<lparr>applied := True\<rparr>, [HOOK_BEFORE 0x10707b70 ''get_block_addr_haidev_patch''])
      else (st, []))"

definition hai_apply_force_mlc_patch :: "patch_op list" where
  "hai_apply_force_mlc_patch = [T_BLREPLACE 0x051001d6 ''hai_path_sprintf_hook_force_mlc'']"

definition rednand_apply_mlc_patches :: "bool \<Rightarrow> hai_state \<Rightarrow> hai_state \<times> patch_op list" where
  "rednand_apply_mlc_patches mount_sys h =
     (let (h, getdev) = hai_apply_getdev_patch h
      in (h, [HOOK_BEFORE 0x107bd9a8 ''rednand_register_sd_as_mlc'',
              T_HOOK_BEFORE 0x050078AE ''hai_write_file_patch''] @ getdev @
             (if \<not> mount_sys then [HOOK_BEFORE 0x107bd754 ''skip_mlc_attch_hook'',
                                   ASM_PATCH 0x107bdae0 ''mov r0, #0xFFFFFFFF''] else [])))"

definition rednand_apply_mount_sys_mlc_patches :: "patch_op list" where
  "rednand_apply_mount_sys_mlc_patches =
     [ASM_PATCH 0x107bdb00 ''mov r3, #17'', ASM_PATCH 0x107d1f24 ''cmp r3, #17'',
      ASM_PATCH 0x107d1f40 ''cmp r3, #17'', BLREPLACE 0x107bdae0 ''sysmlc_attach_hook''] @
     hai_apply_force_mlc_patch"

definition rednand_apply_slc_patches :: "patch_op list" where
  "rednand_apply_slc_patches =
     [U32_PATCH 0x107B96B8 0, U32_PATCH 0x107B96BC 0,
      BRANCH_PATCH 0x107B998C ''slcRead1_patch'', BRANCH_PATCH 0x107B98FC ''slcRead2_patch'',
      BRANCH_PATCH 0x107B9870 ''slcWrite1_patch'', BRANCH_PATCH 0x107B97E4 ''slcWrite2_patch'',
      ASM_PATCH 0x107206F0 ''mov r0, #0'',
      ASM_PATCH 0xE600CF5C ''mov r0, #0; bx lr'', ASM_PATCH 0xE600D010 ''mov r0, #0; bx lr'',
      BRANCH_PATCH 0x10700294 ''createDevThread_hook'',
      BL_TRAMPOLINE (0x107187C4 + 8) ''getMdDeviceById_hook'',
      BL_TRAMPOLINE 0x107BD81C ''registerMdDevice_hook'',
      BL_TRAMPOLINE 0x107BDDD4 ''sdcardRead_patch'', BL_TRAMPOLINE 0x107BDD64 ''sdcardWrite_patch'',
      ASM_PATCH 0x107BD374 ''bx lr'']"

definition apply_scfm_disable_patches :: "patch_op list" where
  "apply_scfm_disable_patches =
     [ASM_PATCH 0x107e7604 ''bx lr'', ASM_PATCH 0x107e5fc8 ''bx lr'',
      BL_TRAMPOLINE 0x107bdae0 ''FSSAL_attach_device'']"

text \<open>
  \<^verbatim>\<open>rednand_init\<close>: the new state, the patches, and whether it returned; a configuration
  that is too small and SCFM on SLCCMPT (in a build without \<^verbatim>\<open>MLC_ACCELERATE\<close>) do not.
\<close>

datatype outcome = Returned | Stopped

definition mount_sys_mlc :: "rednand_config \<Rightarrow> nat \<Rightarrow> bool" where
  "mount_sys_mlc conf sz =
     (let mount = (if SIZEOF_CONFIG \<le> sz then c_sys_mount_mlc conf else False);
          mount = (if mount \<and> slc_length conf \<noteq> 0 then False else mount);
          mount = (if mount \<and> mlc_length conf \<noteq> 0 \<and> \<not> c_disable_scfm conf then False else mount)
      in mount)"

definition rednand_init ::
  "rednand_config \<Rightarrow> nat \<Rightarrow> rednand_state \<Rightarrow> rednand_state \<times> patch_op list \<times> outcome" where
  "rednand_init conf sz st =
     (if sz < SIZEOF_V1 then (st, [], Stopped)
      else
        let st = st\<lparr>redslc_off_sectors := slc_start conf, redslc_size_sectors := slc_length conf,
               redslccmpt_off_sectors := slccmpt_start conf,
               redslccmpt_size_sectors := slccmpt_length conf,
               redmlc := (redmlc st)\<lparr>partition_offset := mlc_start conf, partition_size := mlc_length conf\<rparr>,
               disable_scfm := c_disable_scfm conf, scfm_on_slccmpt := c_scfm_on_slccmpt conf\<rparr>;
            st = (if SIZEOF_V2 \<le> sz then st\<lparr>mlc_nocrypto := c_mlc_nocrypto conf\<rparr> else st);
            mount = mount_sys_mlc conf sz;
            p1 = (if disable_scfm st \<and> \<not> mount then apply_scfm_disable_patches else []);
            p2 = (if redslc_size_sectors st \<noteq> 0 \<or> redslccmpt_size_sectors st \<noteq> 0
                  then rednand_apply_slc_patches else []);
            p3 = (if mount then rednand_apply_mount_sys_mlc_patches else []);
            (h, p4) = (if partition_size (redmlc st) \<noteq> 0
                       then rednand_apply_mlc_patches mount (hai st) else (hai st, []));
            p5 = (if mlc_nocrypto st \<or> mount then rednand_install_crypto_hooks else [])
        in (st\<lparr>hai := h\<rparr>, p1 @ p2 @ p3 @ p4 @ p5,
            if scfm_on_slccmpt st then Stopped else Returned))"

section \<open>The hooks of the redirection\<close>

definition hai_from_mlc :: "hai_state \<Rightarrow> bool" where
  "hai_from_mlc h \<longleftrightarrow> hai_getdev h = 5"

definition hai_write_file_patch :: "rednand_state \<Rightarrow> u32 list \<Rightarrow> u32 list option" where
  "hai_write_file_patch st buffer =
     (if hai_from_mlc (hai st) \<and> partition_size (redmlc st) \<noteq> 0
      then hai_companion_add_offset buffer (partition_offset (redmlc st)) else Some buffer)"

datatype attach_route = FSSAL_attach_device | FSSCFM_attach_device

definition rednand_register_sd_as_mlc ::
  "rednand_state \<Rightarrow> attach_arg \<Rightarrow> rednand_state \<times> attach_arg \<times> attach_route" where
  "rednand_register_sd_as_mlc st sd_attach_arg =
     (let (p, extra) = patch_partition_attach_arg (redmlc st) sd_attach_arg 5
      in (st\<lparr>redmlc := p\<rparr>, extra,
          if disable_scfm st then FSSAL_attach_device else FSSCFM_attach_device))"

definition skip_mlc_attch_hook :: "u32 \<Rightarrow> u32 \<Rightarrow> u32" where
  "skip_mlc_attch_hook type lr = (if type = 3 then 0x107bd714 else lr)"

text \<open>
  The replacement of the call that attaches the system MLC: it keeps the server handle for the
  crypto hook and calls the function it replaces, which it got as its fifth argument.
\<close>

definition sysmlc_attach_hook :: "attach_arg \<Rightarrow> (attach_arg \<Rightarrow> u32) \<Rightarrow> u32 \<times> u32" where
  "sysmlc_attach_hook attach_arg mlc_attach_ptr =
     (let sysmlc_server_handle = server_handle attach_arg; sal_handle = mlc_attach_ptr attach_arg
      in (sysmlc_server_handle, sal_handle))"

definition WFS_KEY_HANDLE_MLC :: u32 where "WFS_KEY_HANDLE_MLC = 0x11"
definition WFS_KEY_HANDLE_NOCRYPTO :: u32 where "WFS_KEY_HANDLE_NOCRYPTO = 0xDEADBEEF"

definition wfs_initDeviceParams_exit_hook :: "u32 \<Rightarrow> u32 \<Rightarrow> bool \<Rightarrow> u32 \<Rightarrow> u32 \<Rightarrow> u32" where
  "wfs_initDeviceParams_exit_hook sysmlc_server_handle mlc_server_handle nocrypto server key =
     (if server = sysmlc_server_handle then WFS_KEY_HANDLE_MLC
      else if nocrypto \<and> server = mlc_server_handle then WFS_KEY_HANDLE_NOCRYPTO else key)"

section \<open>The patches of a configuration\<close>

text \<open>When the system MLC is mounted, and the patch list in terms of it.\<close>

lemma mount_sys_mlc_iff:
  "mount_sys_mlc conf sz \<longleftrightarrow> SIZEOF_CONFIG \<le> sz \<and> c_sys_mount_mlc conf \<and> slc_length conf = 0 \<and>
     (mlc_length conf = 0 \<or> c_disable_scfm conf)"
  by (auto simp: mount_sys_mlc_def Let_def)

lemma rednand_init_patches:
  assumes "SIZEOF_V1 \<le> sz" and "rednand_init conf sz st = (st', ps, r)"
  obtains nc where
    "ps = (if c_disable_scfm conf \<and> \<not> mount_sys_mlc conf sz then apply_scfm_disable_patches else []) @
      (if slc_length conf \<noteq> 0 \<or> slccmpt_length conf \<noteq> 0 then rednand_apply_slc_patches else []) @
      (if mount_sys_mlc conf sz then rednand_apply_mount_sys_mlc_patches else []) @
      (if mlc_length conf \<noteq> 0
       then snd (rednand_apply_mlc_patches (mount_sys_mlc conf sz) (hai st)) else []) @
      (if nc then rednand_install_crypto_hooks else [])"
    "partition_offset (redmlc st') = mlc_start conf" "partition_size (redmlc st') = mlc_length conf"
proof -
  have "\<not> sz < SIZEOF_V1" using assms(1) by simp
  then show thesis
    using assms(2)
    by (intro that [of "(if SIZEOF_V2 \<le> sz then c_mlc_nocrypto conf else mlc_nocrypto st) \<or> mount_sys_mlc conf sz"])
       (cases "SIZEOF_V2 \<le> sz"; cases "mlc_length conf = 0";
        auto simp: rednand_init_def Let_def split_beta)+
qed

lemma mlc_patches_eq:
  "snd (rednand_apply_mlc_patches mount h) =
     [HOOK_BEFORE 0x107bd9a8 ''rednand_register_sd_as_mlc'', T_HOOK_BEFORE 0x050078AE ''hai_write_file_patch''] @
     (if \<not> applied h \<and> \<not> force_haidev h then [HOOK_BEFORE 0x10707b70 ''get_block_addr_haidev_patch''] else []) @
     (if \<not> mount then [HOOK_BEFORE 0x107bd754 ''skip_mlc_attch_hook'',
                     ASM_PATCH 0x107bdae0 ''mov r0, #0xFFFFFFFF''] else [])"
  by (simp add: rednand_apply_mlc_patches_def hai_apply_getdev_patch_def)

text \<open>Which patches touch the attach call, and which lists hold which hooks, by address.\<close>

abbreviation at :: "u32 \<Rightarrow> patch_op list \<Rightarrow> patch_op list" where
  "at a ps \<equiv> filter (\<lambda>p. patch_addr p = a) ps"

lemma at_scfm [simp]:
  "at 0x107bdae0 apply_scfm_disable_patches = [BL_TRAMPOLINE 0x107bdae0 ''FSSAL_attach_device'']"
  "at 0x107bd754 apply_scfm_disable_patches = []" "at 0x107bd9a8 apply_scfm_disable_patches = []"
  by (simp_all add: apply_scfm_disable_patches_def)

lemma at_slc [simp]:
  "at 0x107bdae0 rednand_apply_slc_patches = []" "at 0x107bd754 rednand_apply_slc_patches = []"
  "at 0x107bd9a8 rednand_apply_slc_patches = []"
  by (simp_all add: rednand_apply_slc_patches_def)

lemma at_mount [simp]:
  "at 0x107bdae0 rednand_apply_mount_sys_mlc_patches = [BLREPLACE 0x107bdae0 ''sysmlc_attach_hook'']"
  "at 0x107bd754 rednand_apply_mount_sys_mlc_patches = []"
  "at 0x107bd9a8 rednand_apply_mount_sys_mlc_patches = []"
  by (simp_all add: rednand_apply_mount_sys_mlc_patches_def hai_apply_force_mlc_patch_def)

lemma at_crypto [simp]:
  "at 0x107bdae0 rednand_install_crypto_hooks = []" "at 0x107bd754 rednand_install_crypto_hooks = []"
  "at 0x107bd9a8 rednand_install_crypto_hooks = []"
  by (simp_all add: rednand_install_crypto_hooks_def)

lemma at_mlc [simp]:
  "at 0x107bdae0 (snd (rednand_apply_mlc_patches mount h)) =
     (if mount then [] else [ASM_PATCH 0x107bdae0 ''mov r0, #0xFFFFFFFF''])"
  "at 0x107bd754 (snd (rednand_apply_mlc_patches mount h)) =
     (if mount then [] else [HOOK_BEFORE 0x107bd754 ''skip_mlc_attch_hook''])"
  "at 0x107bd9a8 (snd (rednand_apply_mlc_patches mount h)) =
     [HOOK_BEFORE 0x107bd9a8 ''rednand_register_sd_as_mlc'']"
  by (simp_all add: mlc_patches_eq)

lemma at_init:
  assumes "SIZEOF_V1 \<le> sz" and "rednand_init conf sz st = (st', ps, r)"
  defines "mount \<equiv> mount_sys_mlc conf sz"
  shows "at 0x107bdae0 ps =
      (if c_disable_scfm conf \<and> \<not> mount then [BL_TRAMPOLINE 0x107bdae0 ''FSSAL_attach_device''] else []) @
      (if mount then [BLREPLACE 0x107bdae0 ''sysmlc_attach_hook''] else []) @
      (if mlc_length conf \<noteq> 0 \<and> \<not> mount then [ASM_PATCH 0x107bdae0 ''mov r0, #0xFFFFFFFF''] else [])"
    "at 0x107bd754 ps =
      (if mlc_length conf \<noteq> 0 \<and> \<not> mount then [HOOK_BEFORE 0x107bd754 ''skip_mlc_attch_hook''] else [])"
    "at 0x107bd9a8 ps =
      (if mlc_length conf \<noteq> 0 then [HOOK_BEFORE 0x107bd9a8 ''rednand_register_sd_as_mlc''] else [])"
proof -
  obtain nc where ps: "ps = (if c_disable_scfm conf \<and> \<not> mount then apply_scfm_disable_patches else []) @
      (if slc_length conf \<noteq> 0 \<or> slccmpt_length conf \<noteq> 0 then rednand_apply_slc_patches else []) @
      (if mount then rednand_apply_mount_sys_mlc_patches else []) @
      (if mlc_length conf \<noteq> 0 then snd (rednand_apply_mlc_patches mount (hai st)) else []) @
      (if nc then rednand_install_crypto_hooks else [])"
    unfolding mount_def by (rule rednand_init_patches [OF assms(1,2)])
  show "at 0x107bdae0 ps =
      (if c_disable_scfm conf \<and> \<not> mount then [BL_TRAMPOLINE 0x107bdae0 ''FSSAL_attach_device''] else []) @
      (if mount then [BLREPLACE 0x107bdae0 ''sysmlc_attach_hook''] else []) @
      (if mlc_length conf \<noteq> 0 \<and> \<not> mount then [ASM_PATCH 0x107bdae0 ''mov r0, #0xFFFFFFFF''] else [])"
    "at 0x107bd754 ps =
      (if mlc_length conf \<noteq> 0 \<and> \<not> mount then [HOOK_BEFORE 0x107bd754 ''skip_mlc_attch_hook''] else [])"
    "at 0x107bd9a8 ps =
      (if mlc_length conf \<noteq> 0 then [HOOK_BEFORE 0x107bd9a8 ''rednand_register_sd_as_mlc''] else [])"
    unfolding ps by simp_all
qed

lemma mem_at: "p \<in> set ps \<longleftrightarrow> p \<in> set (at (patch_addr p) ps)"
  by auto

section \<open>Properties\<close>

text \<open>
  C18. The emulated SEEPROM: after any sequence of calls a read outside the drive key
  returns the word of the buffer after exactly the writes that were made while writing was
  enabled, and a read of the drive key is answered by the original driver.
\<close>

theorem seeprom_reads:
  fixes cs :: "seeprom_call list"
  assumes "seeprom_wf st"
  defines "st' \<equiv> foldl seeprom_call_step st cs"
  shows "redseeprom_read_word orig st' i =
    (if drive_key (unat i mod 256) then orig (i AND 0xFF)
     else (IOS_ERROR_OK, foldl (\<lambda>b (i, d). b[i := d]) (seeprom_buffer st)
            (enabled_writes (writeEnabled st = 1) cs) ! (unat i mod 256)))"
  using assms(1) seeprom_trace [of st cs]
  by (simp add: redseeprom_read_word_def Let_def index_low seeprom_wf_def st'_def)

theorem seeprom_reads_witness:
  "redseeprom_read_word (\<lambda>_. (0, 9)) (foldl seeprom_call_step
      \<lparr> writeEnabled = 0, dirty = 0, seeprom_buffer = replicate 256 0 \<rparr>
      [Write 3 5, Control 2, Write 3 6, Control 1, Write 3 7]) 0x103 = (0, 6)"
  by (subst seeprom_reads)
     (simp_all add: seeprom_wf_def drive_key_def IOS_ERROR_OK_def)

text \<open>
  Write protection: while writing is disabled and no call enables it, no sequence of
  calls changes the buffer or marks it dirty, and every write is refused.
\<close>

lemma seeprom_protected:
  assumes "writeEnabled st = 0" and "Control 2 \<notin> set cs"
  shows "seeprom_buffer (foldl seeprom_call_step st cs) = seeprom_buffer st \<and>
    dirty (foldl seeprom_call_step st cs) = dirty st \<and>
    snd (redseeprom_write_word (foldl seeprom_call_step st cs) i d) = IOS_ERROR_NOT_READY"
  using assms
proof (induction cs arbitrary: st)
  case (Cons c cs)
  have "writeEnabled (seeprom_call_step st c) = 0 \<and> seeprom_buffer (seeprom_call_step st c) = seeprom_buffer st \<and>
    dirty (seeprom_call_step st c) = dirty st"
    using Cons.prems by (cases c) (auto simp: seeprom_call_step_def redseeprom_write_word_def
        redseeprom_write_control_def)
  then show ?case using Cons.IH [of "seeprom_call_step st c"] Cons.prems by simp
qed (simp add: redseeprom_write_word_def)

theorem seeprom_protected_witness:
  "seeprom_buffer (foldl seeprom_call_step
      \<lparr> writeEnabled = 0, dirty = 0, seeprom_buffer = replicate 256 0 \<rparr>
      [Write 3 5, Control 3, Write 4 6]) = replicate 256 0"
  using seeprom_protected [of "\<lparr> writeEnabled = 0, dirty = 0, seeprom_buffer = replicate 256 0 \<rparr>"
      "[Write 3 5, Control 3, Write 4 6]"] by simp

text \<open>
  C17. The partition in place of the MLC: the wrappers hand the real operation the block
  address plus the offset, carried into the high word, so a block inside the advertised
  size lies inside the partition and blocks stay distinct.
\<close>

theorem partition_translates:
  assumes "lba hi lo < unat (partition_size p)"
  shows "read_wrapper (partition_offset p) (\<lambda>dev hi lo args. (lba hi lo, args)) dev hi lo args
      = (unat (partition_offset p) + lba hi lo, args) \<and>
    write_wrapper (partition_offset p) (\<lambda>dev hi lo args. (lba hi lo, args)) dev hi lo args
      = (unat (partition_offset p) + lba hi lo, args) \<and>
    (let a' = snd (patch_partition_attach_arg p a dt)
     in unat (block_count a') = unat (partition_size p) \<and>
        unat (partition_offset p) + lba hi lo < unat (partition_offset p) + unat (block_count a'))"
proof -
  obtain hi' lo' where o: "ADD_OFFSET (partition_offset p) hi lo = (hi', lo')" by force
  have "lba hi lo + unat (partition_offset p) < 2 ^ 64"
    using assms unat_u32_less [of "partition_size p"] unat_u32_less [of "partition_offset p"] by simp
  then have "lba hi' lo' = unat (partition_offset p) + lba hi lo"
    using ADD_OFFSET_lba [OF o] by simp
  with o assms show ?thesis
    by (simp add: read_wrapper_def write_wrapper_def patch_partition_attach_arg_def)
qed

definition demo_partition :: partition where
  "demo_partition = \<lparr> partition_offset = 0xFFFFFFF0, partition_size = 0x100,
     real_read = Real 1, real_write = Real 2, real_sync = Real 3 \<rparr>"

theorem partition_translates_witness:
  "read_wrapper 0xFFFFFFF0 (\<lambda>dev hi lo args. (lba hi lo, args)) () 0 0x20 () = (0x100000010, ())"
  using partition_translates [where p = demo_partition and hi = 0 and lo = "0x20" and dev = "()" and args = "()"]
  by (simp add: demo_partition_def lba_def)

text \<open>
  The companion file: with an address unit of at least a sector and a buffer that holds
  all its extents, the extents' addresses grow by the partition offset, counted in address
  units, and nothing else changes; in sectors the shift is exact when the offset is a
  multiple of the unit.
\<close>

lemma companion_shifts_extents:
  assumes buf: "2 + 2 * unat (buf ! 0) \<le> length buf" "unat (buf ! 0) < 2 ^ 30"
    and unit: "9 \<le> unat (drop_bit 16 (buf ! 1))" "unat (drop_bit 16 (buf ! 1)) < 41"
  defines "s \<equiv> unat (drop_bit 16 (buf ! 1)) - 9"
  shows "\<exists>buf'. hai_companion_add_offset buf off = Some buf' \<and> length buf' = length buf \<and>
    (\<forall>k<length buf. buf' ! k =
       (if even k \<and> 2 \<le> k \<and> k < 2 + 2 * unat (buf ! 0) then buf ! k + drop_bit s off else buf ! k)) \<and>
    (2 ^ s dvd unat off \<longrightarrow> unat (drop_bit s off) * 2 ^ s = unat off)"
proof -
  have u: "unat (drop_bit 16 (buf ! 1) - 9) = s"
    using unit(1) by (simp add: s_def unat_sub_if')
  have n: "unat (buf ! 0 * 2 + 2) = 2 + 2 * unat (buf ! 0)"
    using buf(2) by (simp add: unat_word_ariths)
  have eq: "hai_companion_add_offset buf off
      = companion_loop buf (drop_bit s off) (2 + 2 * unat (buf ! 0)) 2"
  proof -
    have "\<not> length buf < 2" "\<not> 32 \<le> s" using buf(1) unit by (simp_all add: s_def)
    then show ?thesis unfolding hai_companion_add_offset_def Let_def u n by simp
  qed
  have "unat (drop_bit s off) * 2 ^ s = unat off" if "2 ^ s dvd unat off"
    using that by (simp add: unat_drop_bit)
  then show ?thesis
    unfolding eq using companion_loop_spec [of "2 + 2 * unat (buf ! 0)" buf 2] buf(1) by simp
qed

theorem companion_shifts_extents_witness:
  "\<exists>b'. hai_companion_add_offset [2, 0x000F0000, 100, 8, 300, 8] 0x8000 = Some b' \<and>
     b' ! 2 = 100 + 0x200 \<and> b' ! 3 = 8 \<and> b' ! 4 = 300 + 0x200"
proof -
  let ?b = "[2, 0x000F0000, 100, 8, 300, 8] :: u32 list"
  have "drop_bit 16 (0x000F0000 :: u32) = 15" by simp
  then show ?thesis using companion_shifts_extents [of ?b "0x8000"] by auto
qed

text \<open>The patches that make the system MLC a USB device and mount it, and the pair that stops it from attaching.\<close>

lemma mount_patches_at:
  assumes "SIZEOF_V1 \<le> sz" and "rednand_init conf sz st = (st', ps, r)"
    and "p \<in> set rednand_apply_mount_sys_mlc_patches"
  shows "p \<in> set ps \<longleftrightarrow> mount_sys_mlc conf sz"
proof -
  have "p \<notin> set apply_scfm_disable_patches" "p \<notin> set rednand_apply_slc_patches"
    "p \<notin> set (snd (rednand_apply_mlc_patches mount h))" "p \<notin> set rednand_install_crypto_hooks" for mount h
    using assms(3)
    by (auto simp: rednand_apply_mount_sys_mlc_patches_def hai_apply_force_mlc_patch_def apply_scfm_disable_patches_def
        rednand_apply_slc_patches_def mlc_patches_eq rednand_install_crypto_hooks_def)
  note others = this
  show ?thesis
  proof (rule rednand_init_patches [OF assms(1,2)], goal_cases)
    case (1 nc)
    then show ?case using others assms(3) by simp
  qed
qed

text \<open>
  C12. Mounting the system MLC: the patches that give it the type of a USB device, make SCFM look for
  that type, hook its attach call and force the path of hai are applied, all of them, exactly when a
  version 3 configuration asks for it, SLC is not redirected, and MLC is not redirected unless SCFM is off; otherwise none
  is.  The internal MLC is kept from attaching exactly when MLC is redirected without such a mount.
\<close>

theorem rednand_mlc_decision:
  assumes "SIZEOF_V1 \<le> sz" and "rednand_init conf sz st = (st', ps, r)"
  defines "mount \<equiv> SIZEOF_CONFIG \<le> sz \<and> c_sys_mount_mlc conf \<and> slc_length conf = 0 \<and>
      (mlc_length conf = 0 \<or> c_disable_scfm conf)"
  shows "(\<forall>p \<in> {ASM_PATCH 0x107bdb00 ''mov r3, #17'', ASM_PATCH 0x107d1f24 ''cmp r3, #17'',
        ASM_PATCH 0x107d1f40 ''cmp r3, #17'', BLREPLACE 0x107bdae0 ''sysmlc_attach_hook'',
        T_BLREPLACE 0x051001d6 ''hai_path_sprintf_hook_force_mlc''}. p \<in> set ps \<longleftrightarrow> mount) \<and>
    (\<forall>p \<in> {HOOK_BEFORE 0x107bd754 ''skip_mlc_attch_hook'', ASM_PATCH 0x107bdae0 ''mov r0, #0xFFFFFFFF''}.
      p \<in> set ps \<longleftrightarrow> mlc_length conf \<noteq> 0 \<and> \<not> mount) \<and>
    (HOOK_BEFORE 0x107bd9a8 ''rednand_register_sd_as_mlc'' \<in> set ps \<longleftrightarrow> mlc_length conf \<noteq> 0) \<and>
    partition_offset (redmlc st') = mlc_start conf \<and> partition_size (redmlc st') = mlc_length conf"
proof -
  have m: "mount_sys_mlc conf sz = mount" by (simp add: mount_sys_mlc_iff mount_def)
  note at = at_init [OF assms(1,2), unfolded m]
  have "\<forall>p \<in> {ASM_PATCH 0x107bdb00 ''mov r3, #17'', ASM_PATCH 0x107d1f24 ''cmp r3, #17'',
      ASM_PATCH 0x107d1f40 ''cmp r3, #17'', BLREPLACE 0x107bdae0 ''sysmlc_attach_hook'',
        T_BLREPLACE 0x051001d6 ''hai_path_sprintf_hook_force_mlc''}. p \<in> set ps \<longleftrightarrow> mount"
    using mount_patches_at [OF assms(1,2)] by (simp add: m rednand_apply_mount_sys_mlc_patches_def hai_apply_force_mlc_patch_def)
  moreover have "HOOK_BEFORE 0x107bd754 ''skip_mlc_attch_hook'' \<in> set ps
      \<longleftrightarrow> mlc_length conf \<noteq> 0 \<and> \<not> mount"
    by (subst mem_at) (simp add: at)
  moreover have "ASM_PATCH 0x107bdae0 ''mov r0, #0xFFFFFFFF'' \<in> set ps \<longleftrightarrow> mlc_length conf \<noteq> 0 \<and> \<not> mount"
    by (subst mem_at) (simp add: at)
  moreover have "HOOK_BEFORE 0x107bd9a8 ''rednand_register_sd_as_mlc'' \<in> set ps \<longleftrightarrow> mlc_length conf \<noteq> 0"
    by (subst mem_at) (simp add: at)
  moreover have "partition_offset (redmlc st') = mlc_start conf \<and> partition_size (redmlc st') = mlc_length conf"
    by (rule rednand_init_patches [OF assms(1,2)]) simp
  ultimately show ?thesis by blast
qed

definition demo_conf :: rednand_config where
  "demo_conf = \<lparr> slc_start = 0, slc_length = 0, slccmpt_start = 0, slccmpt_length = 0,
     mlc_start = 0x1000, mlc_length = 0x2000, c_disable_scfm = True, c_scfm_on_slccmpt = False,
     c_initilized = True, c_slc_nocrypto = False, c_slccmpt_nocrypto = False,
     c_mlc_nocrypto = False, c_sys_mount_slc = False, c_sys_mount_slccmpt = False,
     c_sys_mount_mlc = True \<rparr>"

definition demo_rednand :: rednand_state where
  "demo_rednand = \<lparr> redslc_off_sectors = 0, redslc_size_sectors = 0, redslccmpt_off_sectors = 0,
     redslccmpt_size_sectors = 0, redmlc = demo_partition, disable_scfm = False,
     scfm_on_slccmpt = False, mlc_nocrypto = False,
     hai = \<lparr> force_haidev = False, haidev = - 1, applied = False \<rparr> \<rparr>"

theorem rednand_mlc_decision_witness:
  "ASM_PATCH 0x107bdb00 ''mov r3, #17'' \<in> set (fst (snd (rednand_init demo_conf 33 demo_rednand)))"
  using rednand_mlc_decision [of 33 demo_conf demo_rednand]
  by (cases "rednand_init demo_conf 33 demo_rednand") (auto simp: demo_conf_def SIZEOF_V1_def SIZEOF_CONFIG_def)

text \<open>
  The attach call of the MLC: the patches at its address are applied in the order that
  leaves the intended one in place, the hook for a mounted system MLC, else the failing
  attach for a redirected MLC, else the attach without SCFM.
\<close>

lemma rednand_attach_call:
  assumes "SIZEOF_V1 \<le> sz" and "rednand_init conf sz st = (st', ps, r)"
  defines "mount \<equiv> SIZEOF_CONFIG \<le> sz \<and> c_sys_mount_mlc conf \<and> slc_length conf = 0 \<and>
      (mlc_length conf = 0 \<or> c_disable_scfm conf)"
  defines "at_call \<equiv> filter (\<lambda>p. patch_addr p = 0x107bdae0) ps"
  shows "(mount \<longrightarrow> at_call = [BLREPLACE 0x107bdae0 ''sysmlc_attach_hook'']) \<and>
    (\<not> mount \<and> mlc_length conf \<noteq> 0 \<longrightarrow> last at_call = ASM_PATCH 0x107bdae0 ''mov r0, #0xFFFFFFFF'') \<and>
    (\<not> mount \<and> mlc_length conf = 0 \<and> c_disable_scfm conf \<longrightarrow>
       at_call = [BL_TRAMPOLINE 0x107bdae0 ''FSSAL_attach_device'']) \<and>
    (\<not> mount \<and> mlc_length conf = 0 \<and> \<not> c_disable_scfm conf \<longrightarrow> at_call = [])"
proof -
  have m: "mount_sys_mlc conf sz = mount" by (simp add: mount_sys_mlc_iff mount_def)
  show ?thesis
    unfolding at_call_def at_init(1) [OF assms(1,2), unfolded m] by (simp add: mount_def)
qed

theorem rednand_attach_call_witness:
  "filter (\<lambda>p. patch_addr p = 0x107bdae0) (fst (snd (rednand_init demo_conf 33 demo_rednand)))
     = [BLREPLACE 0x107bdae0 ''sysmlc_attach_hook'']"
  using rednand_attach_call [of 33 demo_conf demo_rednand]
  by (cases "rednand_init demo_conf 33 demo_rednand") (auto simp: demo_conf_def SIZEOF_V1_def SIZEOF_CONFIG_def)

text \<open>
  SLC redirection is all or nothing: when SLC or SLCCMPT has a partition, every read and
  write of the NAND driver is redirected and SEEPROM writes are cut off; otherwise none of
  these patches is applied.
\<close>

lemma rednand_slc_all_or_nothing:
  assumes "SIZEOF_V1 \<le> sz" and "rednand_init conf sz st = (st', ps, r)"
  shows "if slc_length conf \<noteq> 0 \<or> slccmpt_length conf \<noteq> 0
    then set rednand_apply_slc_patches \<subseteq> set ps
    else set rednand_apply_slc_patches \<inter> set ps = {}"
  by (rule rednand_init_patches [OF assms]; simp; intro conjI impI;
      simp add: rednand_apply_slc_patches_def apply_scfm_disable_patches_def mlc_patches_eq
        rednand_apply_mount_sys_mlc_patches_def hai_apply_force_mlc_patch_def
        rednand_install_crypto_hooks_def)

lemma rednand_slc_all_or_nothing_witness:
  "set rednand_apply_slc_patches \<inter> set (fst (snd (rednand_init demo_conf 33 demo_rednand))) = {}"
  using rednand_slc_all_or_nothing [of 33 demo_conf demo_rednand]
  by (cases "rednand_init demo_conf 33 demo_rednand") (auto simp: demo_conf_def SIZEOF_V1_def)

end
