(* ===== verification/Latte.thy ===== *)
theory Latte
  imports Machine
begin

text \<open>
  The registers of the Latte chip, and \<^verbatim>\<open>latte/gpio.c\<close>.  A register is not memory: what a
  load returns is up to the device.  The program's side is a history of the accesses it
  made, latest first; the device is a function from a history to the value of the next load,
  a parameter of every definition here.  \<open>storage\<close> describes a register that returns what
  was last stored.
\<close>

section \<open>Device accesses\<close>

datatype io =
    RdW u32 u32 | WrW u32 u32 | RdH u32 u16 | WrH u32 u16
  | FlushLine u32 | InvalLine u32 | FlushAll | InvalICache | Drain

record device =
  dev32 :: "io list \<Rightarrow> u32 \<Rightarrow> u32"
  dev16 :: "io list \<Rightarrow> u32 \<Rightarrow> u16"

record hw =
  hist :: "io list"
  cpsr :: u32

definition emit :: "io \<Rightarrow> hw \<Rightarrow> hw" where
  "emit e h = h\<lparr>hist := e # hist h\<rparr>"

definition io_read32 :: "device \<Rightarrow> u32 \<Rightarrow> hw \<Rightarrow> hw \<times> u32" where
  "io_read32 dev a h = (let v = dev32 dev (hist h) a in (emit (RdW a v) h, v))"

definition io_write32 :: "u32 \<Rightarrow> u32 \<Rightarrow> hw \<Rightarrow> hw" where
  "io_write32 a v h = emit (WrW a v) h"

definition io_set32 :: "device \<Rightarrow> u32 \<Rightarrow> u32 \<Rightarrow> hw \<Rightarrow> hw" where
  "io_set32 dev a s h = (let (h, v) = io_read32 dev a h in io_write32 a (v OR s) h)"

definition io_clear32 :: "device \<Rightarrow> u32 \<Rightarrow> u32 \<Rightarrow> hw \<Rightarrow> hw" where
  "io_clear32 dev a c h = (let (h, v) = io_read32 dev a h in io_write32 a (v AND NOT c) h)"

definition io_mask32 :: "device \<Rightarrow> u32 \<Rightarrow> u32 \<Rightarrow> u32 \<Rightarrow> hw \<Rightarrow> hw" where
  "io_mask32 dev a c s h = (let (h, v) = io_read32 dev a h in io_write32 a ((v AND NOT c) OR s) h)"

definition io_read16 :: "device \<Rightarrow> u32 \<Rightarrow> hw \<Rightarrow> hw \<times> u16" where
  "io_read16 dev a h = (let v = dev16 dev (hist h) a in (emit (RdH a v) h, v))"

definition io_write16 :: "u32 \<Rightarrow> u16 \<Rightarrow> hw \<Rightarrow> hw" where
  "io_write16 a v h = emit (WrH a v) h"

text \<open>The interrupt mask of \<^verbatim>\<open>irq.S\<close>: the cookie holds the two mask bits of before.\<close>

definition irq_kill :: "hw \<Rightarrow> hw \<times> u32" where
  "irq_kill h = (h\<lparr>cpsr := cpsr h OR 0xC0\<rparr>, cpsr h AND 0xC0)"

definition irq_restore :: "u32 \<Rightarrow> hw \<Rightarrow> hw" where
  "irq_restore cookie h = h\<lparr>cpsr := (cpsr h AND NOT 0xC0) OR cookie\<rparr>"

section \<open>Storage registers\<close>

fun stored :: "u32 \<Rightarrow> io list \<Rightarrow> u32 \<Rightarrow> u32" where
  "stored init [] a = init"
| "stored init (WrW b v # h) a = (if a = b then v else stored init h a)"
| "stored init (_ # h) a = stored init h a"

definition storage :: "device \<Rightarrow> (u32 \<Rightarrow> u32) \<Rightarrow> u32 set \<Rightarrow> bool" where
  "storage dev init A \<longleftrightarrow> (\<forall>a \<in> A. \<forall>h. dev32 dev h a = stored (init a) h a)"

lemma hist_emit [simp]: "hist (emit e h) = e # hist h"
  by (simp add: emit_def)

lemma cpsr_emit [simp]: "cpsr (emit e h) = cpsr h"
  by (simp add: emit_def)

lemmas io_simps =
  io_read32_def io_write32_def io_set32_def io_clear32_def io_mask32_def Let_def prod.case

lemma cpsr_io [simp]:
  "cpsr (io_write32 a v h) = cpsr h" "cpsr (io_set32 dev a s h) = cpsr h"
  "cpsr (io_clear32 dev a s h) = cpsr h" "cpsr (io_mask32 dev a c s h) = cpsr h"
  "cpsr (fst (io_read32 dev a h)) = cpsr h"
  by (simp_all add: io_simps)

text \<open>Killing and restoring the interrupts brackets anything that keeps the mask.\<close>

lemma irq_bracket:
  assumes "irq_kill h = (h', cookie)" "cpsr h'' = cpsr h'"
  shows "cpsr (irq_restore cookie h'') = cpsr h"
proof -
  have "((cpsr h OR 0xC0) AND NOT 0xC0) OR (cpsr h AND 0xC0) = cpsr h"
    by (rule bit_word_eqI) (auto simp: bit_simps)
  then show ?thesis using assms by (auto simp: irq_kill_def irq_restore_def)
qed

section \<open>GPIO\<close>

definition LT_GPIOE_OUT :: u32 where "LT_GPIOE_OUT = 0x0D8000C0"
definition LT_GPIOE_DIR :: u32 where "LT_GPIOE_DIR = 0x0D8000C4"
definition LT_GPIOE_INTLVL :: u32 where "LT_GPIOE_INTLVL = 0x0D8000CC"
definition LT_GPIOE_INTMASK :: u32 where "LT_GPIOE_INTMASK = 0x0D8000D4"
definition LT_GPIO_ENABLE :: u32 where "LT_GPIO_ENABLE = 0x0D8000DC"
definition LT_GPIO_OUT :: u32 where "LT_GPIO_OUT = 0x0D8000E0"
definition LT_GPIO_DIR :: u32 where "LT_GPIO_DIR = 0x0D8000E4"
definition LT_GPIO_IN :: u32 where "LT_GPIO_IN = 0x0D8000E8"
definition LT_GPIO_INTLVL :: u32 where "LT_GPIO_INTLVL = 0x0D8000EC"
definition LT_GPIO_INTMASK :: u32 where "LT_GPIO_INTMASK = 0x0D8000F4"
definition LT_GPIO_OWNER :: u32 where "LT_GPIO_OWNER = 0x0D8000FC"
definition LT_GPIOE2_OUT :: u32 where "LT_GPIOE2_OUT = 0x0D800520"
definition LT_GPIOE2_DIR :: u32 where "LT_GPIOE2_DIR = 0x0D800524"
definition LT_GPIOE2_INTLVL :: u32 where "LT_GPIOE2_INTLVL = 0x0D80052C"
definition LT_GPIOE2_INTMASK :: u32 where "LT_GPIOE2_INTMASK = 0x0D800534"
definition LT_GPIO2_ENABLE :: u32 where "LT_GPIO2_ENABLE = 0x0D80053C"
definition LT_GPIO2_OUT :: u32 where "LT_GPIO2_OUT = 0x0D800540"
definition LT_GPIO2_DIR :: u32 where "LT_GPIO2_DIR = 0x0D800544"
definition LT_GPIO2_INTLVL :: u32 where "LT_GPIO2_INTLVL = 0x0D80054C"
definition LT_GPIO2_INTMASK :: u32 where "LT_GPIO2_INTMASK = 0x0D800554"
definition LT_GPIO2_OWNER :: u32 where "LT_GPIO2_OWNER = 0x0D80055C"

lemmas gpio_regs =
  LT_GPIOE_OUT_def LT_GPIOE_DIR_def LT_GPIOE_INTLVL_def LT_GPIOE_INTMASK_def LT_GPIO_ENABLE_def
  LT_GPIO_OUT_def LT_GPIO_DIR_def LT_GPIO_IN_def LT_GPIO_INTLVL_def LT_GPIO_INTMASK_def
  LT_GPIO_OWNER_def LT_GPIOE2_OUT_def LT_GPIOE2_DIR_def LT_GPIOE2_INTLVL_def
  LT_GPIOE2_INTMASK_def LT_GPIO2_ENABLE_def LT_GPIO2_OUT_def LT_GPIO2_DIR_def
  LT_GPIO2_INTLVL_def LT_GPIO2_INTMASK_def LT_GPIO2_OWNER_def

definition val_bit :: "u8 \<Rightarrow> nat \<Rightarrow> u32" where
  "val_bit val pin = (if val \<noteq> 0 then BIT pin else 0)"

definition gpio_set :: "device \<Rightarrow> nat \<Rightarrow> u8 \<Rightarrow> hw \<Rightarrow> hw" where
  "gpio_set dev pin val h =
     (let h = io_clear32 dev LT_GPIO_OWNER (BIT pin) h;
          h = io_mask32 dev LT_GPIO_OUT (BIT pin) (val_bit val pin) h
      in io_mask32 dev LT_GPIOE_OUT (BIT pin) (val_bit val pin) h)"

definition gpio_enable :: "device \<Rightarrow> nat \<Rightarrow> u8 \<Rightarrow> hw \<Rightarrow> hw" where
  "gpio_enable dev pin val h =
     (let h = io_clear32 dev LT_GPIO_OWNER (BIT pin) h;
          h = io_clear32 dev LT_GPIO_INTLVL (BIT pin) h;
          h = io_clear32 dev LT_GPIOE_INTLVL (BIT pin) h;
          h = io_clear32 dev LT_GPIO_INTMASK (BIT pin) h;
          h = io_clear32 dev LT_GPIOE_INTMASK (BIT pin) h
      in io_mask32 dev LT_GPIO_ENABLE (BIT pin) (val_bit val pin) h)"

definition gpio_set_dir :: "device \<Rightarrow> nat \<Rightarrow> u8 \<Rightarrow> hw \<Rightarrow> hw" where
  "gpio_set_dir dev pin dir h =
     (let h = io_clear32 dev LT_GPIO_OWNER (BIT pin) h;
          h = io_set32 dev LT_GPIOE_DIR (val_bit dir pin) h
      in io_set32 dev LT_GPIO_DIR (val_bit dir pin) h)"

definition gpio2_set :: "device \<Rightarrow> nat \<Rightarrow> u8 \<Rightarrow> hw \<Rightarrow> hw" where
  "gpio2_set dev pin val h =
     (let h = io_clear32 dev LT_GPIO2_OWNER (BIT pin) h;
          h = io_mask32 dev LT_GPIO2_OUT (BIT pin) (val_bit val pin) h
      in io_mask32 dev LT_GPIOE2_OUT (BIT pin) (val_bit val pin) h)"

definition gpio2_enable :: "device \<Rightarrow> nat \<Rightarrow> u8 \<Rightarrow> hw \<Rightarrow> hw" where
  "gpio2_enable dev pin val h =
     (let h = io_clear32 dev LT_GPIO2_OWNER (BIT pin) h;
          h = io_clear32 dev LT_GPIO2_INTLVL (BIT pin) h;
          h = io_clear32 dev LT_GPIOE2_INTLVL (BIT pin) h;
          h = io_clear32 dev LT_GPIO2_INTMASK (BIT pin) h;
          h = io_clear32 dev LT_GPIOE2_INTMASK (BIT pin) h
      in io_mask32 dev LT_GPIO2_ENABLE (BIT pin) (val_bit val pin) h)"

definition gpio2_set_dir :: "device \<Rightarrow> nat \<Rightarrow> u8 \<Rightarrow> hw \<Rightarrow> hw" where
  "gpio2_set_dir dev pin dir h =
     (let h = io_clear32 dev LT_GPIO2_OWNER (BIT pin) h;
          h = io_set32 dev LT_GPIOE2_DIR (val_bit dir pin) h
      in io_set32 dev LT_GPIO2_DIR (val_bit dir pin) h)"

definition gpio_basic_set :: "device \<Rightarrow> nat \<Rightarrow> u8 \<Rightarrow> hw \<Rightarrow> hw" where
  "gpio_basic_set dev pin val h = gpio_enable dev pin 1 (gpio_set dev pin val (gpio_set_dir dev pin 1 h))"

definition gpio2_basic_set :: "device \<Rightarrow> nat \<Rightarrow> u8 \<Rightarrow> hw \<Rightarrow> hw" where
  "gpio2_basic_set dev pin val h = gpio2_enable dev pin 1 (gpio2_set dev pin val (gpio2_set_dir dev pin 1 h))"

definition gpio_dcdc_pwrcnt2_set :: "device \<Rightarrow> u8 \<Rightarrow> hw \<Rightarrow> hw" where
  "gpio_dcdc_pwrcnt2_set dev val h = gpio2_enable dev 3 1 (gpio2_set dev 3 val (gpio2_set_dir dev 3 1 h))"

definition gpio_dcdc_pwrcnt_set :: "device \<Rightarrow> u8 \<Rightarrow> hw \<Rightarrow> hw" where
  "gpio_dcdc_pwrcnt_set dev val h = gpio_enable dev 3 1 (gpio_set dev 3 val (gpio_set_dir dev 3 1 h))"

definition gpio_fan_set :: "device \<Rightarrow> u8 \<Rightarrow> hw \<Rightarrow> hw" where
  "gpio_fan_set dev val h =
     (let h = gpio2_enable dev 0 1 (gpio2_set dev 0 val (gpio2_set_dir dev 0 1 h))
      in gpio_enable dev 2 1 (gpio_set dev 2 val (gpio_set_dir dev 2 1 h)))"

definition gpio_smc_i2c_init :: "device \<Rightarrow> hw \<Rightarrow> hw" where
  "gpio_smc_i2c_init dev h = gpio2_enable dev 2 1 (gpio2_enable dev 1 1 h)"

definition gpio_ave_i2c_init :: "device \<Rightarrow> hw \<Rightarrow> hw" where
  "gpio_ave_i2c_init dev h =
     (let h = gpio_enable dev 14 1 h; h = gpio_enable dev 15 1 h;
          h = gpio_enable dev 24 1 h; h = gpio_enable dev 25 1 h;
          h = gpio2_basic_set dev 6 1 h; h = gpio2_basic_set dev 6 0 h
      in gpio2_basic_set dev 6 1 h)"

text \<open>The debug lines: pins 16 to 23; pin 22 is the input of the serial line.\<close>

section \<open>Delays\<close>

text \<open>
  \<open>udelay\<close> of \<^verbatim>\<open>utils.c\<close> reads the timer until it has advanced; it does not end when the timer
  stands still.
\<close>

definition LT_TIMER :: u32 where "LT_TIMER = 0x0D800010"

partial_function (option) wait_wrap :: "device \<Rightarrow> u32 \<Rightarrow> hw \<Rightarrow> hw option" where
  "wait_wrap dev now h =
     (let (h, t) = io_read32 dev LT_TIMER h in if now \<le> t then wait_wrap dev now h else Some h)"

partial_function (option) wait_until :: "device \<Rightarrow> u32 \<Rightarrow> u32 \<Rightarrow> hw \<Rightarrow> hw option" where
  "wait_until dev now until h =
     (if now < until then (let (h, now) = io_read32 dev LT_TIMER h in wait_until dev now until h)
      else Some h)"

definition delay_ticks :: "u32 \<Rightarrow> u32" where
  "delay_ticks d = (let ticks = d * 19 div 10 in if ticks < 2 then 2 else ticks)"

definition udelay :: "device \<Rightarrow> u32 \<Rightarrow> hw \<Rightarrow> hw option" where
  "udelay dev d h =
     (let (h, now) = io_read32 dev LT_TIMER h; until = now + delay_ticks d
      in if until < now
         then (case wait_wrap dev now h of None \<Rightarrow> None
               | Some h \<Rightarrow> (let (h, now) = io_read32 dev LT_TIMER h in wait_until dev now until h))
         else wait_until dev now until h)"

text \<open>
  What the timer is taken to do while the program does nothing but read it: the reads are faster than
  its ticks, so it shows its last value or the next one, and it does not stand still.
\<close>

abbreviation timer :: "device \<Rightarrow> io list \<Rightarrow> u32" where
  "timer dev g \<equiv> dev32 dev g LT_TIMER"

definition polled :: "device \<Rightarrow> io list \<Rightarrow> io list" where
  "polled dev g = RdW LT_TIMER (timer dev g) # g"

definition timer_runs :: "device \<Rightarrow> bool" where
  "timer_runs dev \<longleftrightarrow> (\<forall>g. timer dev (polled dev g) \<in> {timer dev g, timer dev g + 1} \<and>
     (\<exists>n. timer dev ((polled dev ^^ n) g) \<noteq> timer dev g))"

lemma read_timer: "io_read32 dev LT_TIMER h = (h\<lparr>hist := polled dev (hist h)\<rparr>, timer dev (hist h))"
  by (simp add: io_read32_def polled_def emit_def Let_def)

lemma timer_next:
  assumes "timer_runs dev"
  shows "\<exists>n. timer dev ((polled dev ^^ n) g) = timer dev g + 1 \<and> (\<forall>i<n. timer dev ((polled dev ^^ i) g) = timer dev g)"
proof -
  let ?P = "\<lambda>n. timer dev ((polled dev ^^ n) g) \<noteq> timer dev g"
  define n where "n = (LEAST n. ?P n)"
  have ex: "\<exists>n. ?P n" using assms by (simp add: timer_runs_def)
  then have n: "?P n" unfolding n_def by (rule LeastI_ex)
  then obtain k where k: "n = Suc k" by (cases n) auto
  have before: "timer dev ((polled dev ^^ i) g) = timer dev g" if "i < n" for i
    using not_less_Least [of i ?P] that by (simp add: n_def)
  have "timer dev ((polled dev ^^ n) g) \<in> {timer dev ((polled dev ^^ k) g), timer dev ((polled dev ^^ k) g) + 1}"
    using assms by (simp add: timer_runs_def k)
  then have "timer dev ((polled dev ^^ n) g) = timer dev g + 1" using n before [of k] by (simp add: k)
  with before show ?thesis by blast
qed

text \<open>Every value is reached, through those before it only.\<close>

lemma timer_reaches:
  assumes "timer_runs dev"
  shows "\<exists>n. timer dev ((polled dev ^^ n) g) = timer dev g + of_nat k \<and>
    (\<forall>i<n. \<exists>j<k. timer dev ((polled dev ^^ i) g) = timer dev g + of_nat j)"
proof (induction k)
  case 0
  show ?case by (intro exI [of _ 0]) simp
next
  case (Suc k)
  then obtain n where n: "timer dev ((polled dev ^^ n) g) = timer dev g + of_nat k"
    "\<forall>i<n. \<exists>j<k. timer dev ((polled dev ^^ i) g) = timer dev g + of_nat j" by blast
  obtain m where m: "timer dev ((polled dev ^^ m) ((polled dev ^^ n) g)) = timer dev ((polled dev ^^ n) g) + 1"
    "\<forall>i<m. timer dev ((polled dev ^^ i) ((polled dev ^^ n) g)) = timer dev ((polled dev ^^ n) g)"
    using timer_next [OF assms] by blast
  have app: "(polled dev ^^ i) ((polled dev ^^ n) g) = (polled dev ^^ (i + n)) g" for i
    by (simp add: funpow_add)
  have "\<exists>j<Suc k. timer dev ((polled dev ^^ i) g) = timer dev g + of_nat j" if "i < m + n" for i
  proof (cases "i < n")
    case True
    then show ?thesis using n(2) by (meson less_SucI)
  next
    case False
    then have "i - n < m" "i - n + n = i" using that by simp_all
    then have "timer dev ((polled dev ^^ i) g) = timer dev g + of_nat k"
      using m(2) n(1) by (metis app)
    then show ?thesis by blast
  qed
  moreover have "timer dev ((polled dev ^^ (m + n)) g) = timer dev g + of_nat (Suc k)"
    using m(1) n(1) by (simp add: app)
  ultimately show ?case by blast
qed

lemma wait_until_steps:
  assumes "now < t" "\<forall>i<n. timer dev ((polled dev ^^ i) (hist h)) < t" "t \<le> timer dev ((polled dev ^^ n) (hist h))"
  shows "wait_until dev now t h = Some (h\<lparr>hist := (polled dev ^^ Suc n) (hist h)\<rparr>)"
  using assms
proof (induction n arbitrary: now h)
  case 0
  then have "\<not> timer dev (hist h) < t" by (simp add: not_less)
  with 0(1) show ?case by (subst wait_until.simps) (simp add: read_timer, subst wait_until.simps, simp)
next
  case (Suc n)
  let ?h = "h\<lparr>hist := polled dev (hist h)\<rparr>"
  have "timer dev (hist h) < t" using Suc.prems(2) by auto
  moreover have "\<forall>i<n. timer dev ((polled dev ^^ i) (hist ?h)) < t"
    using Suc.prems(2) by (metis Suc_less_eq funpow_simps_right(2) comp_apply hw.select_convs(1) hw.surjective hw.update_convs(1))
  ultimately have "wait_until dev (timer dev (hist h)) t ?h = Some (?h\<lparr>hist := (polled dev ^^ Suc n) (hist ?h)\<rparr>)"
    using Suc.prems(3) by (intro Suc.IH) (simp_all add: funpow_swap1)
  then show ?case
    using Suc.prems(1) by (subst wait_until.simps) (simp add: read_timer funpow_swap1)
qed

lemma wait_wrap_steps:
  assumes "\<forall>i<n. now \<le> timer dev ((polled dev ^^ i) (hist h))" "timer dev ((polled dev ^^ n) (hist h)) < now"
  shows "wait_wrap dev now h = Some (h\<lparr>hist := (polled dev ^^ Suc n) (hist h)\<rparr>)"
  using assms
proof (induction n arbitrary: h)
  case 0
  then have "\<not> now \<le> timer dev (hist h)" by (simp add: not_le)
  then show ?case by (subst wait_wrap.simps) (simp add: read_timer)
next
  case (Suc n)
  let ?h = "h\<lparr>hist := polled dev (hist h)\<rparr>"
  have "\<forall>i<n. now \<le> timer dev ((polled dev ^^ i) (hist ?h))"
    using Suc.prems(1) by (metis Suc_less_eq funpow_simps_right(2) comp_apply hw.select_convs(1) hw.surjective hw.update_convs(1))
  then have "wait_wrap dev now ?h = Some (?h\<lparr>hist := (polled dev ^^ Suc n) (hist ?h)\<rparr>)"
    using Suc.prems(2) by (intro Suc.IH) (simp_all add: funpow_swap1)
  moreover have "now \<le> timer dev (hist h)" using Suc.prems(1) by auto
  ultimately show ?case by (subst wait_wrap.simps) (simp add: read_timer funpow_swap1)
qed

lemma wait_until_ends:
  assumes "timer_runs dev"
  shows "\<exists>n. wait_until dev (timer dev g) t (h\<lparr>hist := polled dev g\<rparr>) = Some (h\<lparr>hist := (polled dev ^^ n) g\<rparr>)"
proof (cases "timer dev g < t")
  case True
  let ?k = "unat (t - timer dev g)"
  obtain n where n: "timer dev ((polled dev ^^ n) g) = t"
    "\<And>i. i < n \<Longrightarrow> \<exists>j<?k. timer dev ((polled dev ^^ i) g) = timer dev g + of_nat j"
    using timer_reaches [OF assms, of g ?k] by auto
  have k: "?k = unat t - unat (timer dev g)" using True by (intro unat_sub) simp
  have low: "timer dev ((polled dev ^^ i) g) < t" if i: "i < n" for i
  proof -
    obtain j where j: "j < ?k" "timer dev ((polled dev ^^ i) g) = timer dev g + of_nat j" using n(2) [OF i] by blast
    have "unat (timer dev g) + j < unat t" using j(1) k by simp
    then have "unat (timer dev g + of_nat j) = unat (timer dev g) + j"
      using unat_u32_less [of t] by (intro unat_add_of_nat) simp
    then show ?thesis using j k by (simp add: word_less_nat_alt)
  qed
  obtain m where m: "n = Suc m" using n(1) True by (cases n) auto
  have "timer dev ((polled dev ^^ i) (polled dev g)) < t" if "i < m" for i
    using low [of "Suc i"] that by (simp add: m funpow_swap1)
  moreover have "t \<le> timer dev ((polled dev ^^ m) (polled dev g))"
    using n(1) by (simp add: m funpow_swap1)
  ultimately have "wait_until dev (timer dev g) t (h\<lparr>hist := polled dev g\<rparr>) =
      Some (h\<lparr>hist := polled dev g, hist := (polled dev ^^ Suc m) (polled dev g)\<rparr>)"
    using wait_until_steps [OF True, of m dev "h\<lparr>hist := polled dev g\<rparr>"] by simp
  then show ?thesis by (intro exI [of _ "Suc (Suc m)"]) (simp add: funpow_swap1)
next
  case False
  then show ?thesis by (subst wait_until.simps) (intro exI [of _ 1], simp)
qed

text \<open>A delay ends, and all it does is reading the timer.\<close>

lemma udelay_ends:
  assumes "timer_runs dev"
  shows "\<exists>n. udelay dev d h = Some (h\<lparr>hist := (polled dev ^^ n) (hist h)\<rparr>)"
proof -
  let ?g = "hist h" let ?t = "timer dev ?g + delay_ticks d"
  let ?h = "h\<lparr>hist := polled dev ?g\<rparr>"
  show ?thesis
  proof (cases "?t < timer dev ?g")
    case False
    then show ?thesis
      using wait_until_ends [OF assms, of ?g ?t h] by (simp add: udelay_def read_timer Let_def)
  next
    case True
    let ?k = "2 ^ 32 - unat (timer dev ?g)"
    have z: "timer dev ?g + of_nat ?k = 0"
      using unat_u32_less [of "timer dev ?g"] by (simp add: of_nat_diff)
    obtain n where n: "timer dev ((polled dev ^^ n) ?g) = 0"
      "\<And>i. i < n \<Longrightarrow> \<exists>j<?k. timer dev ((polled dev ^^ i) ?g) = timer dev ?g + of_nat j"
      using timer_reaches [OF assms, of ?g ?k] unfolding z by blast
    have high: "timer dev ?g \<le> timer dev ((polled dev ^^ i) ?g)" if i: "i < n" for i
    proof -
      obtain j where j: "j < ?k" "timer dev ((polled dev ^^ i) ?g) = timer dev ?g + of_nat j" using n(2) [OF i] by blast
      have "unat (timer dev ?g + of_nat j) = unat (timer dev ?g) + j"
        using j(1) by (intro unat_add_of_nat) simp
      then show ?thesis using j by (simp add: word_le_nat_alt)
    qed
    have pos: "0 < timer dev ?g" using True by (metis word_gt_0 word_not_simps(1))
    obtain m where m: "n = Suc m" using n(1) pos by (cases n) auto
    let ?G = "(polled dev ^^ Suc m) (polled dev ?g)"
    have "timer dev ?g \<le> timer dev ((polled dev ^^ i) (polled dev ?g))" if "i < m" for i
      using high [of "Suc i"] that by (simp add: m funpow_swap1)
    moreover have "timer dev ((polled dev ^^ m) (polled dev ?g)) < timer dev ?g"
      using n(1) pos by (simp add: m funpow_swap1)
    ultimately have "wait_wrap dev (timer dev ?g) ?h = Some (?h\<lparr>hist := ?G\<rparr>)"
      using wait_wrap_steps [of m "timer dev ?g" dev ?h] by simp
    moreover obtain k where "wait_until dev (timer dev ?G) ?t (h\<lparr>hist := polled dev ?G\<rparr>) = Some (h\<lparr>hist := (polled dev ^^ k) ?G\<rparr>)"
      using wait_until_ends [OF assms] by blast
    moreover have "(polled dev ^^ k) ?G = (polled dev ^^ (k + Suc (Suc m))) ?g"
      by (simp add: funpow_add funpow_swap1)
    ultimately show ?thesis
      using True by (intro exI [of _ "k + Suc (Suc m)"]) (simp add: udelay_def read_timer Let_def)
  qed
qed

section \<open>The debug pins\<close>

definition GP_DEBUG_MASK :: u32 where "GP_DEBUG_MASK = 0xFF0000"
definition GP_DEBUG_SERIAL_MASK :: u32 where "GP_DEBUG_SERIAL_MASK = 0xBF0000"

definition gpio_debug_send :: "device \<Rightarrow> u8 \<Rightarrow> hw \<Rightarrow> hw option" where
  "gpio_debug_send dev val h =
     (let h = io_clear32 dev LT_GPIO_OWNER GP_DEBUG_MASK h;
          h = io_set32 dev LT_GPIO_ENABLE GP_DEBUG_MASK h;
          h = io_set32 dev LT_GPIO_DIR GP_DEBUG_MASK h;
          h = io_mask32 dev LT_GPIO_OUT GP_DEBUG_MASK (push_bit 16 (ucast val)) h
      in udelay dev 1 h)"

definition gpio_debug_serial_send :: "device \<Rightarrow> u8 \<Rightarrow> hw \<Rightarrow> hw" where
  "gpio_debug_serial_send dev val h =
     (let h = io_clear32 dev LT_GPIO_OWNER GP_DEBUG_MASK h;
          h = io_set32 dev LT_GPIO_ENABLE GP_DEBUG_MASK h;
          h = io_set32 dev LT_GPIO_DIR GP_DEBUG_SERIAL_MASK h
      in io_mask32 dev LT_GPIO_OUT GP_DEBUG_SERIAL_MASK (push_bit 16 (ucast val)) h)"

definition gpio_debug_serial_read :: "device \<Rightarrow> hw \<Rightarrow> hw \<times> u8" where
  "gpio_debug_serial_read dev h =
     (let h = io_clear32 dev LT_GPIO_OWNER GP_DEBUG_MASK h;
          h = io_set32 dev LT_GPIO_ENABLE GP_DEBUG_MASK h;
          h = io_set32 dev LT_GPIO_DIR GP_DEBUG_SERIAL_MASK h;
          (h, v) = io_read32 dev LT_GPIO_IN h
      in (h, ucast (drop_bit 22 v AND 1)))"

section \<open>Property\<close>

definition gpio_storage_regs :: "u32 set" where
  "gpio_storage_regs = {LT_GPIO_OWNER, LT_GPIO_OUT, LT_GPIOE_OUT, LT_GPIO_DIR, LT_GPIOE_DIR, LT_GPIO_ENABLE,
     LT_GPIO_INTLVL, LT_GPIOE_INTLVL, LT_GPIO_INTMASK, LT_GPIOE_INTMASK}"

definition reg :: "(u32 \<Rightarrow> u32) \<Rightarrow> hw \<Rightarrow> u32 \<Rightarrow> u32" where
  "reg init h a = stored (init a) (hist h) a"

text \<open>The four operations on one storage register.\<close>

lemma storage_io:
  assumes "storage dev init A" "a \<in> A"
  shows "reg init (io_set32 dev a s h) b = (if b = a then reg init h a OR s else reg init h b)"
    and "reg init (io_clear32 dev a c h) b = (if b = a then reg init h a AND NOT c else reg init h b)"
    and "reg init (io_mask32 dev a c s h) b =
      (if b = a then (reg init h a AND NOT c) OR s else reg init h b)"
  using assms by (simp_all add: reg_def io_simps storage_def)

lemma bit_val_bit: "n < 32 \<Longrightarrow> bit (val_bit v pin) n \<longleftrightarrow> v \<noteq> 0 \<and> n = pin"
  by (simp add: val_bit_def BIT_def bit_simps)

lemma bit_BIT: "n < 32 \<Longrightarrow> bit (BIT pin) n \<longleftrightarrow> n = pin"
  by (simp add: BIT_def bit_simps)

lemma bit_NOT_BIT: "n < 32 \<Longrightarrow> bit (NOT (BIT pin)) n \<longleftrightarrow> n \<noteq> pin"
  by (simp add: BIT_def bit_simps)

text \<open>
  Setting a pin up: with registers that keep what is stored, the pin belongs to the
  program, is an enabled output without interrupts, and drives the value in both banks;
  every other pin keeps its output value, its direction and its enable bit.
\<close>

lemma gpio_basic_set_drives:
  fixes h :: hw and pin :: nat and val :: u8
  assumes "storage dev init gpio_storage_regs" and "n < 32"
  defines "r \<equiv> reg init h" and "r' \<equiv> reg init (gpio_basic_set dev pin val h)"
  shows "(n = pin \<longrightarrow> bit (r' LT_GPIO_OUT) n = (val \<noteq> 0) \<and> bit (r' LT_GPIOE_OUT) n = (val \<noteq> 0) \<and>
      bit (r' LT_GPIO_DIR) n \<and> bit (r' LT_GPIOE_DIR) n \<and> bit (r' LT_GPIO_ENABLE) n \<and>
      \<not> bit (r' LT_GPIO_OWNER) n \<and> \<not> bit (r' LT_GPIO_INTMASK) n \<and> \<not> bit (r' LT_GPIOE_INTMASK) n) \<and>
    (n \<noteq> pin \<longrightarrow> (\<forall>a \<in> gpio_storage_regs. bit (r' a) n = bit (r a) n))"
proof -
  have mem: "LT_GPIO_OWNER \<in> gpio_storage_regs" "LT_GPIO_OUT \<in> gpio_storage_regs"
    "LT_GPIOE_OUT \<in> gpio_storage_regs" "LT_GPIO_DIR \<in> gpio_storage_regs"
    "LT_GPIOE_DIR \<in> gpio_storage_regs" "LT_GPIO_ENABLE \<in> gpio_storage_regs"
    "LT_GPIO_INTLVL \<in> gpio_storage_regs" "LT_GPIOE_INTLVL \<in> gpio_storage_regs"
    "LT_GPIO_INTMASK \<in> gpio_storage_regs" "LT_GPIOE_INTMASK \<in> gpio_storage_regs"
    by (simp_all add: gpio_storage_regs_def)
  note io = mem [THEN storage_io(1) [OF assms(1)]] mem [THEN storage_io(2) [OF assms(1)]]
    mem [THEN storage_io(3) [OF assms(1)]]
  note defs = gpio_basic_set_def gpio_enable_def gpio_set_def gpio_set_dir_def Let_def
  have out: "r' LT_GPIO_OUT = (r LT_GPIO_OUT AND NOT (BIT pin)) OR val_bit val pin"
    "r' LT_GPIOE_OUT = (r LT_GPIOE_OUT AND NOT (BIT pin)) OR val_bit val pin"
    "r' LT_GPIO_DIR = r LT_GPIO_DIR OR val_bit 1 pin" "r' LT_GPIOE_DIR = r LT_GPIOE_DIR OR val_bit 1 pin"
    "r' LT_GPIO_ENABLE = (r LT_GPIO_ENABLE AND NOT (BIT pin)) OR val_bit 1 pin"
    "r' LT_GPIO_OWNER = r LT_GPIO_OWNER AND NOT (BIT pin)"
    "r' LT_GPIO_INTLVL = r LT_GPIO_INTLVL AND NOT (BIT pin)"
    "r' LT_GPIOE_INTLVL = r LT_GPIOE_INTLVL AND NOT (BIT pin)"
    "r' LT_GPIO_INTMASK = r LT_GPIO_INTMASK AND NOT (BIT pin)"
    "r' LT_GPIOE_INTMASK = r LT_GPIOE_INTMASK AND NOT (BIT pin)"
    unfolding r_def r'_def defs gpio_regs by (simp_all add: io [unfolded gpio_regs] and.assoc)
  show ?thesis
    using assms(2)
    by (auto simp: gpio_storage_regs_def out bit_or_iff bit_and_iff bit_NOT_BIT bit_val_bit)
qed

text \<open>The input direction has no effect: \<^verbatim>\<open>gpio_set_dir\<close> only ever sets the direction bit.\<close>

lemma gpio_set_dir_in_noop:
  assumes "storage dev init gpio_storage_regs" and "a \<noteq> LT_GPIO_OWNER"
  shows "reg init (gpio_set_dir dev pin 0 h) a = reg init h a"
proof -
  have "LT_GPIO_OWNER \<in> gpio_storage_regs" "LT_GPIO_DIR \<in> gpio_storage_regs" "LT_GPIOE_DIR \<in> gpio_storage_regs"
    by (simp_all add: gpio_storage_regs_def)
  then show ?thesis
    using assms by (simp add: gpio_set_dir_def Let_def storage_io val_bit_def)
qed

theorem gpio_basic_set_drives_witness:
  "bit (reg (\<lambda>_. 0) (gpio_basic_set \<lparr> dev32 = stored 0, dev16 = (\<lambda>_ _. 0) \<rparr> 5 1 \<lparr> hist = [], cpsr = 0 \<rparr>) LT_GPIO_OUT) 5"
proof -
  have "storage \<lparr> dev32 = stored 0, dev16 = (\<lambda>_ _. 0) \<rparr> (\<lambda>_. 0) gpio_storage_regs"
    by (simp add: storage_def)
  from gpio_basic_set_drives [OF this, where n = 5 and pin = 5 and val = 1 and h = "\<lparr> hist = [], cpsr = 0 \<rparr>"]
  show ?thesis by simp
qed

end
