(* ===== verification/Cache.thy ===== *)
theory Cache
  imports Latte
begin

text \<open>
  \<^verbatim>\<open>latte/cache.c\<close>: cache maintenance.  A device that reads memory needs the lines of a
  range written back, one that writes memory needs them discarded, and the buffers of the
  bus have to be flushed.  The loops that wait for the bus may not end; the one that waits
  for the memory controller gives up after a million reads.  The line operations are the
  loops of \<^verbatim>\<open>memory_asm.S\<close>, which count down from \<open>count\<close> to zero after the first pass.
\<close>

datatype rb_client =
    RB_IOD | RB_IOI | RB_AIM | RB_FLA | RB_AES | RB_SHA | RB_EHCI | RB_OHCI0 | RB_OHCI1 | RB_SD0
  | RB_SD1 | RB_SD2 | RB_SD3 | RB_EHC1 | RB_OHCI10 | RB_EHC2 | RB_OHCI20 | RB_SATA | RB_AESS | RB_SHAS

datatype wb_client =
    WB_IOD | WB_AIM | WB_FLA | WB_AES | WB_SHA | WB_EHCI | WB_OHCI0 | WB_OHCI1 | WB_SD0 | WB_SD1
  | WB_SD2 | WB_SD3 | WB_EHC1 | WB_OHCI10 | WB_EHC2 | WB_OHCI20 | WB_SATA | WB_AESS | WB_SHAS
  | WB_DMAA | WB_DMAB | WB_DMAC | WB_ALL

definition LT_COMPAT_MEMCTRL_WORKAROUND :: u32 where "LT_COMPAT_MEMCTRL_WORKAROUND = 0x0D800188"
definition LT_BOOT0 :: u32 where "LT_BOOT0 = 0x0D80018C"
definition LT_AHB_UNK124 :: u32 where "LT_AHB_UNK124 = 0x0D800124"
definition LT_AHB_UNK134 :: u32 where "LT_AHB_UNK134 = 0x0D800134"
definition AHB_FLUSH :: u32 where "AHB_FLUSH = 0x0D8B0008"
definition AHMN_RDBI_MASK :: u32 where "AHMN_RDBI_MASK = 0x0D8B080C"
definition MEM_FLUSH_MASK :: u32 where "MEM_FLUSH_MASK = 0x0D8B4228"

text \<open>The registers \<^verbatim>\<open>LT_AHB_UNK100\<close> to \<^verbatim>\<open>LT_AHB_UNK120\<close>, in the order of the source.\<close>

definition AHB_UNK :: "u32 list" where
  "AHB_UNK = [0x0D800100, 0x0D800104, 0x0D800108, 0x0D80010C, 0x0D800110, 0x0D800114, 0x0D800118,
     0x0D80011C, 0x0D800120]"

section \<open>The bus\<close>

text \<open>The masks of \<^verbatim>\<open>_ahb_flush_to\<close>; the other clients return at once.\<close>

fun ahb_mask :: "rb_client \<Rightarrow> u32 option" where
  "ahb_mask RB_IOD = Some 0x8000" | "ahb_mask RB_IOI = Some 0x4000" | "ahb_mask RB_AIM = Some 0x0001"
| "ahb_mask RB_FLA = Some 0x0002" | "ahb_mask RB_AES = Some 0x0004" | "ahb_mask RB_SHA = Some 0x0008"
| "ahb_mask RB_EHCI = Some 0x0010" | "ahb_mask RB_OHCI0 = Some 0x0020" | "ahb_mask RB_OHCI1 = Some 0x0040"
| "ahb_mask RB_SD0 = Some 0x0080" | "ahb_mask RB_SD1 = Some 0x0100" | "ahb_mask _ = None"

text \<open>Wait while the boot register shows 9, asking for the bus; and wait until it does.\<close>

partial_function (option) wait_not_9 :: "device \<Rightarrow> hw \<Rightarrow> hw option" where
  "wait_not_9 dev h =
     (let (h, v) = io_read32 dev LT_BOOT0 h
      in if v AND 0xF = 9 then wait_not_9 dev (io_set32 dev LT_COMPAT_MEMCTRL_WORKAROUND 0x10000 h)
         else Some h)"

partial_function (option) wait_9 :: "device \<Rightarrow> hw \<Rightarrow> hw option" where
  "wait_9 dev h =
     (let (h, v) = io_read32 dev LT_BOOT0 h in if v AND 0xF \<noteq> 9 then wait_9 dev h else Some h)"

definition ahb_slow_flush :: "device \<Rightarrow> u32 \<Rightarrow> hw \<Rightarrow> hw option" where
  "ahb_slow_flush dev msk h =
     (case wait_not_9 dev h of None \<Rightarrow> None | Some h \<Rightarrow>
       (let h = io_clear32 dev LT_COMPAT_MEMCTRL_WORKAROUND 0x10000 h;
            h = io_set32 dev LT_COMPAT_MEMCTRL_WORKAROUND 0x2000000 h;
            h = io_mask32 dev LT_AHB_UNK124 0x7C0 0x280 h;
            h = io_set32 dev LT_AHB_UNK134 0x400 h
        in case wait_9 dev h of None \<Rightarrow> None | Some h \<Rightarrow>
          (let h = fold (\<lambda>a. io_set32 dev a 0x400) AHB_UNK h;
               h = io_clear32 dev AHB_FLUSH msk h;
               h = io_set32 dev AHB_FLUSH msk h;
               h = io_clear32 dev LT_AHB_UNK134 0x400 h;
               h = fold (\<lambda>a. io_clear32 dev a 0x400) AHB_UNK h;
               h = io_clear32 dev LT_COMPAT_MEMCTRL_WORKAROUND 0x2000000 h
           in Some (io_mask32 dev LT_AHB_UNK124 0x7C0 0xC0 h))))"

definition ahb_flush_to_inner :: "device \<Rightarrow> rb_client \<Rightarrow> hw \<Rightarrow> hw option" where
  "ahb_flush_to_inner dev client h =
     (case ahb_mask client of None \<Rightarrow> Some h | Some msk \<Rightarrow>
       (let (h, v) = io_read32 dev AHB_FLUSH h
        in if v AND msk \<noteq> 0 then Some h
           else if client \<in> {RB_FLA, RB_AES, RB_SHA, RB_EHCI, RB_OHCI0, RB_OHCI1, RB_SD0, RB_SD1}
           then ahb_slow_flush dev msk h
           else if client \<in> {RB_IOD, RB_IOI} then Some (io_set32 dev AHB_FLUSH msk h)
           else Some h))"

fun rdbi_mask :: "rb_client \<Rightarrow> u32" where
  "rdbi_mask RB_SD2 = 0x10000" | "rdbi_mask RB_SD3 = 0x20000" | "rdbi_mask RB_EHC1 = 0x40000"
| "rdbi_mask RB_OHCI10 = 0x80000" | "rdbi_mask RB_EHC2 = 0x100000" | "rdbi_mask RB_OHCI20 = 0x200000"
| "rdbi_mask RB_SATA = 0x400000" | "rdbi_mask RB_AESS = 0x800000" | "rdbi_mask RB_SHAS = 0x1000000"
| "rdbi_mask RB_IOD = 0x8000" | "rdbi_mask RB_IOI = 0x4000" | "rdbi_mask RB_AIM = 0x0001"
| "rdbi_mask RB_FLA = 0x0002" | "rdbi_mask RB_AES = 0x0004" | "rdbi_mask RB_SHA = 0x0008"
| "rdbi_mask RB_EHCI = 0x0010" | "rdbi_mask RB_OHCI0 = 0x0020" | "rdbi_mask RB_OHCI1 = 0x0040"
| "rdbi_mask RB_SD0 = 0x0080" | "rdbi_mask RB_SD1 = 0x0100"

definition ahb_flush_to :: "device \<Rightarrow> rb_client \<Rightarrow> hw \<Rightarrow> hw option" where
  "ahb_flush_to dev client h =
     (let (h, cookie) = irq_kill h;
          h = io_write32 AHMN_RDBI_MASK (rdbi_mask client) h
      in case ahb_flush_to_inner dev client h of None \<Rightarrow> None | Some h \<Rightarrow>
        (case (if client \<noteq> RB_IOD then ahb_flush_to_inner dev RB_IOD h else Some h) of
           None \<Rightarrow> None | Some h \<Rightarrow> Some (irq_restore cookie h)))"

fun wb_request :: "wb_client \<Rightarrow> u16" where
  "wb_request WB_IOD = 1"
| "wb_request WB_AIM = 4" | "wb_request WB_EHCI = 4" | "wb_request WB_EHC1 = 4" | "wb_request WB_EHC2 = 4"
| "wb_request WB_SATA = 4" | "wb_request WB_DMAB = 4"
| "wb_request WB_FLA = 8" | "wb_request WB_OHCI0 = 8" | "wb_request WB_OHCI1 = 8" | "wb_request WB_SD0 = 8"
| "wb_request WB_SD1 = 8" | "wb_request WB_SD2 = 8" | "wb_request WB_SD3 = 8" | "wb_request WB_OHCI10 = 8"
| "wb_request WB_OHCI20 = 8" | "wb_request WB_DMAC = 8"
| "wb_request WB_AES = 2" | "wb_request WB_SHA = 2" | "wb_request WB_AESS = 2" | "wb_request WB_SHAS = 2"
| "wb_request WB_DMAA = 2"
| "wb_request WB_ALL = 15"

text \<open>At most \<open>n\<close> reads of the acknowledgement; a timeout is only reported.\<close>

fun wait_ack :: "device \<Rightarrow> u16 \<Rightarrow> nat \<Rightarrow> hw \<Rightarrow> hw" where
  "wait_ack dev req 0 h = h"
| "wait_ack dev req (Suc n) h =
     (let (h, v) = io_read16 dev MEM_FLUSH_MASK h in if v AND req = 0 then h else wait_ack dev req n h)"

definition ahb_flush_from :: "device \<Rightarrow> wb_client \<Rightarrow> hw \<Rightarrow> hw" where
  "ahb_flush_from dev client h =
     (let (h, cookie) = irq_kill h;
          req = wb_request client;
          h = io_write16 MEM_FLUSH_MASK req h
      in irq_restore cookie (wait_ack dev req 1000000 h))"

section \<open>The caches\<close>

definition LINESIZE :: u32 where "LINESIZE = 0x20"

text \<open>How often the loops of \<^verbatim>\<open>memory_asm.S\<close> run: a count of zero wraps around.\<close>

definition line_passes :: "u32 \<Rightarrow> nat" where
  "line_passes count = (if count = 0 then 2 ^ 32 else unat count)"

fun line_loop :: "(u32 \<Rightarrow> io) \<Rightarrow> u32 \<Rightarrow> nat \<Rightarrow> hw \<Rightarrow> hw" where
  "line_loop op a 0 h = h"
| "line_loop op a (Suc n) h = line_loop op (a + 0x20) n (emit (op a) h)"


definition dc_inval_entries :: "u32 \<Rightarrow> u32 \<Rightarrow> hw \<Rightarrow> hw" where
  "dc_inval_entries start count = line_loop InvalLine start (line_passes count)"

text \<open>The first line of a range, and the number of lines, from a signed pointer difference.\<close>

definition range_lines :: "u32 \<Rightarrow> u32 \<Rightarrow> u32 \<times> u32" where
  "range_lines start sz =
     (let end = ALIGN_FORWARD (start + sz) LINESIZE; start = ALIGN_BACKWARD start LINESIZE
      in (start, s32_div (end - start) 0x20))"


definition dc_invalidaterange :: "device \<Rightarrow> u32 \<Rightarrow> u32 \<Rightarrow> hw \<Rightarrow> hw option" where
  "dc_invalidaterange dev start sz h =
     (let (h, cookie) = irq_kill h;
          (start, count) = range_lines start sz
      in map_option (irq_restore cookie) (ahb_flush_to dev RB_IOD (dc_inval_entries start count h)))"

definition dc_flushall :: "device \<Rightarrow> hw \<Rightarrow> hw" where
  "dc_flushall dev h =
     (let (h, cookie) = irq_kill h
      in irq_restore cookie (ahb_flush_from dev WB_AIM (emit Drain (emit FlushAll h))))"

definition ic_invalidateall :: "device \<Rightarrow> hw \<Rightarrow> hw option" where
  "ic_invalidateall dev h =
     (let (h, cookie) = irq_kill h
      in map_option (irq_restore cookie) (ahb_flush_to dev RB_IOD (emit InvalICache h)))"

section \<open>Lemmas\<close>


lemma line_loop_cpsr [simp]: "cpsr (line_loop op a n h) = cpsr h"
  by (induction op a n h rule: line_loop.induct) simp_all

lemma hist_irq [simp]: "hist (irq_restore c h) = hist h"
  by (simp add: irq_restore_def)

text \<open>What a bus flush adds to the history: no operation on a cache.\<close>

definition no_cache_op :: "io list \<Rightarrow> bool" where
  "no_cache_op es \<longleftrightarrow> Drain \<notin> set es \<and> FlushAll \<notin> set es \<and> (\<forall>a. FlushLine a \<notin> set es)"

lemma no_cache_op_simps [simp]:
  "no_cache_op []" "no_cache_op (es @ fs) \<longleftrightarrow> no_cache_op es \<and> no_cache_op fs"
  "no_cache_op [RdH r v]" "no_cache_op [WrH r v]"
  by (auto simp: no_cache_op_def)











section \<open>Property\<close>



text \<open>An empty range that starts on a line runs the loop through the whole address space.\<close>

lemma flush_empty_range_wraps:
  "range_lines 0x1000 0 = (0x1000, 0)" "line_passes 0 = 2 ^ 32"
  by (simp_all add: range_lines_def ALIGN_FORWARD_def ALIGN_BACKWARD_def LINESIZE_def s32_div_def line_passes_def)

end
