(* ===== verification/CString.thy ===== *)
theory CString
  imports Machine "HOL-Library.Monad_Syntax"
begin

text \<open>
  C strings in memory, and the functions of the C library the program calls on them.  A
  string is a byte list without its terminator; reading one from memory is partial, since
  a terminator may be missing.
\<close>

definition str :: "string \<Rightarrow> u8 list" where
  "str s = map (\<lambda>c. word_of_nat (of_char c)) s"

partial_function (option) cstr :: "mem \<Rightarrow> u32 \<Rightarrow> u8 list option" where
  "cstr m a = (if m a = 0 then Some [] else do { s \<leftarrow> cstr m (a + 1); Some (m a # s) })"

text \<open>\<^verbatim>\<open>strncpy(dst, s, n)\<close>: at most \<open>n\<close> bytes, padded with zeros to \<open>n\<close>.\<close>

definition strncpy :: "mem \<Rightarrow> u32 \<Rightarrow> u8 list \<Rightarrow> nat \<Rightarrow> mem" where
  "strncpy m dst s n = store_bytes m dst (take n (s @ replicate n 0))"

text \<open>\<^verbatim>\<open>snprintf\<close> with a buffer of \<open>n\<close> bytes, for a formatted string \<open>s\<close>.\<close>

definition snprintf :: "mem \<Rightarrow> u32 \<Rightarrow> nat \<Rightarrow> u8 list \<Rightarrow> mem" where
  "snprintf m dst n s = (if n = 0 then m else store_bytes m dst (take (n - 1) s @ [0]))"

text \<open>The position of the last \<open>c\<close> (\<^verbatim>\<open>strrchr\<close>).\<close>

definition last_index :: "u8 \<Rightarrow> u8 list \<Rightarrow> nat option" where
  "last_index c s = (case filter (\<lambda>i. s ! i = c) [0..<length s] of [] \<Rightarrow> None | is \<Rightarrow> Some (last is))"

lemma cstr_no_zero: "cstr m a = Some s \<Longrightarrow> 0 \<notin> set s"
proof (induction s arbitrary: a)
  case (Cons c s)
  then show ?case
    by (subst (asm) (2) cstr.simps) (auto split: if_splits bind_splits)
qed simp

text \<open>A terminated byte list in memory is read back.\<close>

lemma cstr_load:
  assumes "load_bytes m a (length s + 1) = s @ [0]" and "0 \<notin> set s"
  shows "cstr m a = Some s"
  using assms
proof (induction s arbitrary: a)
  case Nil
  then show ?case by (subst cstr.simps) (simp add: load_bytes_def)
next
  case (Cons c s)
  have all: "m (a + of_nat k) = ((c # s) @ [0]) ! k" if "k < length s + 2" for k
    using that Cons.prems(1) nth_load_bytes [of k "length s + 2" m a] by simp
  have "load_bytes m (a + 1) (length s + 1) = s @ [0]"
  proof (rule nth_equalityI)
    fix k assume "k < length (load_bytes m (a + 1) (length s + 1))"
    then show "load_bytes m (a + 1) (length s + 1) ! k = (s @ [0]) ! k"
      using all [of "Suc k"] by (simp add: add.assoc)
  qed simp
  then have "cstr m (a + 1) = Some s" using Cons by simp
  then show ?case
    using all [of 0] Cons.prems(2) by (subst cstr.simps) simp
qed

lemma cstr_store:
  assumes "0 \<notin> set s" "length s + 1 \<le> 2 ^ 32"
  shows "cstr (store_bytes m a (s @ [0])) a = Some s"
  using load_store_bytes [of "s @ [0]" m a] assms by (intro cstr_load) simp_all

lemma cstr_snprintf:
  assumes "0 \<notin> set s" "length s < n" "n \<le> 2 ^ 32"
  shows "cstr (snprintf m a n s) a = Some s"
  using assms by (simp add: snprintf_def cstr_store)

lemma last_index_Some:
  assumes "last_index c s = Some k"
  shows "k < length s" "s ! k = c" "\<forall>j. k < j \<and> j < length s \<longrightarrow> s ! j \<noteq> c"
proof -
  let ?is = "filter (\<lambda>i. s ! i = c) [0..<length s]"
  have ne: "?is \<noteq> []" and k: "k = last ?is"
    using assms by (auto simp: last_index_def split: list.splits)
  have "k \<in> set ?is" unfolding k using ne by (rule last_in_set)
  then show "k < length s" "s ! k = c" by auto
  have srt: "sorted ?is" using sorted_filter [of id "[0..<length s]" "\<lambda>i. s ! i = c"] by simp
  have "j \<le> k" if "j < length s" "s ! j = c" for j
  proof -
    have "j \<in> set ?is" using that by simp
    then obtain n where n: "n < length ?is" "?is ! n = j" by (metis in_set_conv_nth)
    then show ?thesis
      using sorted_nth_mono [OF srt, of n "length ?is - 1"] unfolding k
      by (simp add: last_conv_nth [OF ne])
  qed
  then show "\<forall>j. k < j \<and> j < length s \<longrightarrow> s ! j \<noteq> c" by fastforce
qed

lemma last_index_None: "last_index c s = None \<longleftrightarrow> c \<notin> set s"
proof -
  have "last_index c s = None \<longleftrightarrow> filter (\<lambda>i. s ! i = c) [0..<length s] = []"
    by (simp add: last_index_def split: list.split)
  also have "\<dots> \<longleftrightarrow> c \<notin> set s"
    by (auto simp: filter_empty_conv in_set_conv_nth)
  finally show ?thesis .
qed

end
