(* ===== verification/Ipc.thy ===== *)
theory Ipc
  imports CString Prsh
begin

text \<open>
  \<^verbatim>\<open>wafel_core/source/ipc.c\<close>: the server behind \<^verbatim>\<open>/dev/stroopwafel\<close>.  Its state is
  memory, which holds the two path buffers at linker-chosen addresses, and the boot
  parameters.  A request is the decoded message; its buffers and vectors are in memory.
  The kernel's mapping call is a parameter that returns a code; a call of client code is
  recorded, not executed.
\<close>

section \<open>Requests and replies\<close>

definition IOCTL_GET_API_VERSION :: u32 where "IOCTL_GET_API_VERSION = 1"
definition IOCTL_SET_FW_PATH :: u32 where "IOCTL_SET_FW_PATH = 2"
definition IOCTLV_WRITE_MEMORY :: u32 where "IOCTLV_WRITE_MEMORY = 3"
definition IOCTLV_EXECUTE :: u32 where "IOCTLV_EXECUTE = 4"
definition IOCTL_MAP_MEMORY :: u32 where "IOCTL_MAP_MEMORY = 5"
definition IOCTL_GET_MINUTE_PATH :: u32 where "IOCTL_GET_MINUTE_PATH = 6"
definition IOCTL_GET_PLUGIN_PATH :: u32 where "IOCTL_GET_PLUGIN_PATH = 7"

lemmas ioctl_codes = IOCTL_GET_API_VERSION_def IOCTL_SET_FW_PATH_def IOCTLV_WRITE_MEMORY_def
  IOCTLV_EXECUTE_def IOCTL_MAP_MEMORY_def IOCTL_GET_MINUTE_PATH_def IOCTL_GET_PLUGIN_PATH_def

definition WAFEL_API_VERSION :: u32 where "WAFEL_API_VERSION = 0x010000"
definition MIN_DEV_UNKNOWN :: u32 where "MIN_DEV_UNKNOWN = 0"
definition MIN_DEV_SLC :: u32 where "MIN_DEV_SLC = 1"
definition MIN_DEV_SD :: u32 where "MIN_DEV_SD = 2"
definition SIZEOF_MINUTE_PATH :: u32 where "SIZEOF_MINUTE_PATH = 260"
definition SIZEOF_MAP_INFO :: u32 where "SIZEOF_MAP_INFO = 24"

definition IOS_ERROR_UNKNOWN_VALUE :: u32 where "IOS_ERROR_UNKNOWN_VALUE = 0xFFFFFFD6"
definition IOS_ERROR_INVALID_ARG :: u32 where "IOS_ERROR_INVALID_ARG = 0xFFFFFFE3"
definition IOS_ERROR_INVALID_SIZE :: u32 where "IOS_ERROR_INVALID_SIZE = 0xFFFFFFE9"

lemmas ios_errors = IOS_ERROR_UNKNOWN_VALUE_def IOS_ERROR_INVALID_ARG_def IOS_ERROR_INVALID_SIZE_def

record ioctl_req =
  io_command :: u32
  buffer_in :: u32
  length_in :: u32
  buffer_io :: u32
  length_io :: u32

record ioctlv_req =
  iov_command :: u32
  num_in :: u32
  num_io :: u32
  iovec :: u32

text \<open>The fields of \<^verbatim>\<open>vector[i]\<close>, an \<^verbatim>\<open>IOSVec\<close> of twelve bytes.\<close>

definition vec_ptr :: "mem \<Rightarrow> u32 \<Rightarrow> nat \<Rightarrow> u32" where
  "vec_ptr m v i = read32 m (v + of_nat (12 * i))"

definition vec_len :: "mem \<Rightarrow> u32 \<Rightarrow> nat \<Rightarrow> u32" where
  "vec_len m v i = read32 m (v + of_nat (12 * i + 4))"

record ipc_env =
  fw_path :: u32
  fw_filename :: u32
  map_shared :: "u32 \<Rightarrow> u32"

record ipc_state =
  imem :: mem
  iprsh :: prsh_state
  executed :: "(u32 \<times> u32 \<times> u32) list"

section \<open>The ioctl handler\<close>

text \<open>\<^verbatim>\<open>IOCTL_SET_FW_PATH\<close> for the string \<open>s\<close> of the client.\<close>

definition set_fw_path :: "ipc_env \<Rightarrow> mem \<Rightarrow> u8 list \<Rightarrow> mem" where
  "set_fw_path env m s =
     (case last_index 47 s of
        Some path_len \<Rightarrow>
          let m = strncpy m (fw_path env) s path_len;
              m = write8 m (fw_path env + of_nat path_len) 0;
              m = strncpy m (fw_filename env) (drop (path_len + 1) s) 31
          in write8 m (fw_filename env + 31) 0
      | None \<Rightarrow>
          let m = strncpy m (fw_filename env) s 31;
              m = write8 m (fw_filename env + 31) 0
          in write8 m (fw_path env) 0)"

text \<open>The location of minute: whether it is on SLC, and its file name.\<close>

definition minute_location :: "mem \<Rightarrow> prsh_state \<Rightarrow> prsh_state \<times> bool \<times> u8 list" where
  "minute_location m p =
     (let (p, r1) = prsh_get_entry m p (Some (str ''minute_on_slc''));
          on_slc = (case r1 of Inr _ \<Rightarrow> True | Inl _ \<Rightarrow> False);
          (p, r2) = prsh_get_entry m p (Some (str ''minute_location''))
      in case r2 of
           Inr (p_location, _) \<Rightarrow>
             if p_location \<noteq> 0 then
               let location = read32 m p_location
               in (p, bit location 0, if bit location 1 then str ''minute.img'' else str ''fw.img'')
             else (p, on_slc, str ''fw.img'')
         | Inl _ \<Rightarrow> (p, on_slc, str ''fw.img''))"

definition get_minute_path :: "mem \<Rightarrow> prsh_state \<Rightarrow> u32 \<Rightarrow> mem \<times> prsh_state" where
  "get_minute_path m p out =
     (let (p, on_slc, filename) = minute_location m p
      in if on_slc
         then (snprintf (write32 m out MIN_DEV_SLC) (out + 4) 256 (str ''/sys/hax/'' @ filename), p)
         else (snprintf (write32 m out MIN_DEV_SD) (out + 4) 256 (str ''/'' @ filename), p))"

definition get_plugin_path :: "mem \<Rightarrow> prsh_state \<Rightarrow> u32 \<Rightarrow> mem \<times> prsh_state" where
  "get_plugin_path m p out =
     (let (p, r) = prsh_get_entry m p (Some (str ''minute_boot''));
          boot = (case r of Inr (data, _) \<Rightarrow> data | Inl _ \<Rightarrow> 0);
          m = (case r of Inr _ \<Rightarrow> m | Inl _ \<Rightarrow> write8 (write32 m out MIN_DEV_UNKNOWN) (out + 4) 0)
      in (if boot = 1 then snprintf (write32 m out MIN_DEV_SLC) (out + 4) 256 (str ''/sys/hax/ios_plugins'')
          else if 2 \<le> boot \<and> boot \<le> 5
          then snprintf (write32 m out MIN_DEV_SD) (out + 4) 256 (str ''/wiiu/ios_plugins'')
          else write8 (write32 m out MIN_DEV_UNKNOWN) (out + 4) 0, p))"

text \<open>\<^verbatim>\<open>None\<close>: the string of the client has no terminator.\<close>

definition ipc_ioctl :: "ipc_env \<Rightarrow> ipc_state \<Rightarrow> ioctl_req \<Rightarrow> (ipc_state \<times> u32) option" where
  "ipc_ioctl env st r =
     (if io_command r = IOCTL_SET_FW_PATH then
        if buffer_in r \<noteq> 0
        then do { s \<leftarrow> cstr (imem st) (buffer_in r);
                  Some (st\<lparr>imem := set_fw_path env (imem st) s\<rparr>, 0) }
        else Some (st, 0)
      else if io_command r = IOCTL_GET_API_VERSION then
        if buffer_io r \<noteq> 0 \<and> 4 \<le> length_io r
        then Some (st\<lparr>imem := write32 (imem st) (buffer_io r) WAFEL_API_VERSION\<rparr>, 4)
        else Some (st, IOS_ERROR_INVALID_ARG)
      else if io_command r = IOCTL_MAP_MEMORY then
        if buffer_in r \<noteq> 0 \<and> SIZEOF_MAP_INFO \<le> length_in r
        then Some (st, map_shared env (buffer_in r)) else Some (st, IOS_ERROR_INVALID_ARG)
      else if io_command r = IOCTL_GET_MINUTE_PATH then
        if buffer_io r \<noteq> 0 \<and> SIZEOF_MINUTE_PATH \<le> length_io r
        then let (m, p) = get_minute_path (imem st) (iprsh st) (buffer_io r)
             in Some (st\<lparr>imem := m, iprsh := p\<rparr>, SIZEOF_MINUTE_PATH)
        else Some (st, IOS_ERROR_INVALID_ARG)
      else if io_command r = IOCTL_GET_PLUGIN_PATH then
        if buffer_io r \<noteq> 0 \<and> SIZEOF_MINUTE_PATH \<le> length_io r
        then let (m, p) = get_plugin_path (imem st) (iprsh st) (buffer_io r)
             in Some (st\<lparr>imem := m, iprsh := p\<rparr>, SIZEOF_MINUTE_PATH)
        else Some (st, IOS_ERROR_INVALID_ARG)
      else Some (st, IOS_ERROR_INVALID_ARG))"

section \<open>The ioctlv handler\<close>

text \<open>
  The loop over the writes: destinations come from the array in \<^verbatim>\<open>vector[0]\<close>, sources and
  sizes from the vectors behind it, all read when their turn comes.
\<close>

function write_loop :: "mem \<Rightarrow> u32 \<Rightarrow> u32 \<Rightarrow> nat \<Rightarrow> nat \<Rightarrow> mem" where
  "write_loop m dests v n i =
     (if i < n then
        let dest = read32 m (dests + of_nat (4 * i)); src = vec_ptr m v (i + 1); sz = vec_len m v (i + 1)
        in write_loop (if src \<noteq> 0 \<and> 0 < sz then memmove m dest src (unat sz) else m) dests v n (Suc i)
      else m)"
  by pat_completeness auto
termination
  by (relation "measure (\<lambda>(m, dests, v, n, i). n - i)") auto

declare write_loop.simps [simp del]

definition ipc_ioctlv :: "ipc_state \<Rightarrow> ioctlv_req \<Rightarrow> ipc_state \<times> u32" where
  "ipc_ioctlv st r =
     (let m = imem st; v = iovec r
      in if iov_command r = IOCTLV_WRITE_MEMORY then
           if num_in r < 1 \<or> num_io r \<noteq> 0 then (st, IOS_ERROR_INVALID_ARG)
           else if vec_len m v 0 mod 4 \<noteq> 0 then (st, IOS_ERROR_INVALID_SIZE)
           else let dest_addrs = vec_ptr m v 0; num_writes = vec_len m v 0 div 4
                in if num_in r \<noteq> 1 + num_writes then (st, IOS_ERROR_INVALID_SIZE)
                   else (st\<lparr>imem := write_loop m dest_addrs v (unat num_writes) 0\<rparr>, 0)
         else if iov_command r = IOCTLV_EXECUTE then
           if num_in r < 1 \<or> vec_len m v 0 < 4 then (st, IOS_ERROR_INVALID_ARG)
           else let target = read32 m (vec_ptr m v 0);
                    config = (if 1 < num_in r then vec_ptr m v 1 else 0);
                    output = (if 0 < num_io r then vec_ptr m v (unat (num_in r)) else 0)
                in (if target \<noteq> 0 then st\<lparr>executed := executed st @ [(target, config, output)]\<rparr> else st, 0)
         else (st, IOS_ERROR_INVALID_ARG))"

section \<open>The server loop\<close>

datatype request = Open | Close | Ioctl ioctl_req | Ioctlv ioctlv_req | Other u32

text \<open>What \<^verbatim>\<open>iosReceiveMessage\<close> delivers: an error code, or a message with its identity.\<close>

datatype received = Failed | Message nat request

definition ipc_dispatch :: "ipc_env \<Rightarrow> ipc_state \<Rightarrow> request \<Rightarrow> (ipc_state \<times> u32) option" where
  "ipc_dispatch env st q =
     (case q of Open \<Rightarrow> Some (st, 0) | Close \<Rightarrow> Some (st, 0)
      | Ioctl r \<Rightarrow> ipc_ioctl env st r | Ioctlv r \<Rightarrow> Some (ipc_ioctlv st r)
      | Other c \<Rightarrow> Some (st, IOS_ERROR_UNKNOWN_VALUE))"

text \<open>The loop over what is received: the replies, in the order in which they are sent.\<close>

fun ipc_thread :: "ipc_env \<Rightarrow> ipc_state \<Rightarrow> received list \<Rightarrow> (ipc_state \<times> (nat \<times> u32) list) option" where
  "ipc_thread env st [] = Some (st, [])"
| "ipc_thread env st (Failed # es) = ipc_thread env st es"
| "ipc_thread env st (Message k q # es) =
     do { (st, res) \<leftarrow> ipc_dispatch env st q;
          (st, replies) \<leftarrow> ipc_thread env st es;
          Some (st, (k, res) # replies) }"

text \<open>
  Around the loop: the queue, the registration of the device, without which no message is received,
  and the thread.  The identifiers are what the kernel returns.
\<close>

datatype ipc_call =
    CreateMessageQueue nat
  | RegisterResourceManager string u32
  | DestroyMessageQueue u32
  | CreateIpcThread u32 u32
  | StartIpcThread u32

definition ipc_thread_main ::
  "ipc_env \<Rightarrow> ipc_state \<Rightarrow> u32 \<Rightarrow> u32 \<Rightarrow> received list \<Rightarrow> (ipc_state \<times> (nat \<times> u32) list \<times> ipc_call list) option" where
  "ipc_thread_main env st queueId registered es =
     do { (st, replies) \<leftarrow> (if registered = 0 then ipc_thread env st es else Some (st, []));
          Some (st, replies, [CreateMessageQueue 0x10, RegisterResourceManager ''/dev/stroopwafel'' queueId,
            DestroyMessageQueue queueId]) }"

text \<open>
  \<^verbatim>\<open>ipc_init\<close> sets the system mode in the saved registers of a thread that could be created; the
  start is outside of the test.
\<close>

definition ipc_init :: "mem \<Rightarrow> u32 \<Rightarrow> mem \<times> ipc_call list" where
  "ipc_init m threadId =
     (let cpsr = 0xffff4d78 + 0xc8 * threadId;
          m = (if 0 \<le> sint threadId then write32 m cpsr (read32 m cpsr OR 0x1f) else m)
      in (m, [CreateIpcThread 0x78 1, StartIpcThread threadId]))"

lemma ipc_init_starts_missing_thread:
  "sint threadId < 0 \<Longrightarrow> ipc_init m threadId = (m, [CreateIpcThread 0x78 1, StartIpcThread threadId])"
  by (simp add: ipc_init_def)

section \<open>Setting the path\<close>

lemma strncpy_terminated:
  assumes "n < 2 ^ 31"
  shows "load_bytes (write8 (strncpy m a s n) (a + of_nat n) 0) a (length (take n s) + 1)
    = take n s @ [0]"
proof (rule nth_equalityI)
  fix k assume "k < length (load_bytes (write8 (strncpy m a s n) (a + of_nat n) 0) a (length (take n s) + 1))"
  then have k: "k \<le> n" "k \<le> length s" by auto
  then have u: "unat (of_nat k :: u32) = k" "unat (of_nat n :: u32) = n"
    using assms by (auto intro!: unat_of_nat_u32)
  then have ne: "a + of_nat k \<noteq> a + of_nat n" if "k \<noteq> n"
    using that by (metis add_left_cancel)
  show "load_bytes (write8 (strncpy m a s n) (a + of_nat n) 0) a (length (take n s) + 1) ! k
      = (take n s @ [0]) ! k"
    using k ne u by (cases "k = n")
      (auto simp: write8_def strncpy_def store_bytes_def nth_append nth_load_bytes)
qed simp

lemma strncpy_other:
  assumes "n \<le> adist a x"
  shows "strncpy m a s n x = m x"
  unfolding strncpy_def using assms by (intro store_bytes_other) simp

lemma write8_end_other:
  assumes "n + 1 \<le> adist a x" "n < 2 ^ 31"
  shows "write8 (strncpy m a s n) (a + of_nat n) 0 x = m x"
proof -
  have "x \<noteq> a + of_nat n"
    using assms by (auto simp: unat_of_nat_u32)
  then show ?thesis using assms(1) by (simp add: write8_def strncpy_other)
qed

lemma cstr_region:
  assumes "load_bytes m a (length s + 1) = s @ [0]" "0 \<notin> set s"
    and "\<And>x. adist a x < length s + 1 \<Longrightarrow> m' x = m x" and "length s + 1 < 2 ^ 32"
  shows "cstr m' a = Some s"
proof (rule cstr_load [OF _ assms(2)])
  have "load_bytes m' a (length s + 1) = load_bytes m a (length s + 1)"
    using assms(3,4) by (intro nth_equalityI) (simp_all add: unat_of_nat_u32)
  then show "load_bytes m' a (length s + 1) = s @ [0]" using assms(1) by simp
qed

text \<open>A path that fits its buffer.\<close>

lemma set_fw_path_spec:
  fixes p :: nat and m :: mem
  assumes s: "0 \<notin> set s" and li: "last_index 47 s = Some p" and p: "p < 256"
    and dj: "disjoint_regions (fw_path env) 256 (fw_filename env) 32"
  defines "m' \<equiv> set_fw_path env m s"
  shows "cstr m' (fw_path env) = Some (take p s)"
    "cstr m' (fw_filename env) = Some (take 31 (drop (p + 1) s))"
    "256 \<le> adist (fw_path env) x \<Longrightarrow> 32 \<le> adist (fw_filename env) x \<Longrightarrow> m' x = m x"
proof -
  define m2 where "m2 = write8 (strncpy m (fw_path env) s p) (fw_path env + of_nat p) 0"
  have m': "m' = write8 (strncpy m2 (fw_filename env) (drop (p + 1) s) 31) (fw_filename env + of_nat 31) 0"
    using li by (simp add: m'_def m2_def set_fw_path_def Let_def)
  have out: "m' x = m2 x" if "32 \<le> adist (fw_filename env) x" for x
    unfolding m' using that by (intro write8_end_other) simp_all
  have z: "0 \<notin> set (take p s)" "0 \<notin> set (take 31 (drop (p + 1) s))"
    using s by (meson in_set_takeD in_set_dropD)+
  show "cstr m' (fw_path env) = Some (take p s)"
  proof (rule cstr_region [where m = m2])
    show "load_bytes m2 (fw_path env) (length (take p s) + 1) = take p s @ [0]"
      unfolding m2_def using p by (intro strncpy_terminated) simp
    fix x assume "adist (fw_path env) x < length (take p s) + 1"
    then have "adist (fw_path env) x < 256" using p by simp
    then show "m' x = m2 x" using disjoint_regionsD [OF dj] by (intro out) simp
  qed (use p z in simp_all)
  show "cstr m' (fw_filename env) = Some (take 31 (drop (p + 1) s))"
    unfolding m' by (rule cstr_load [OF strncpy_terminated z(2)]) simp
  show "m' x = m x" if "256 \<le> adist (fw_path env) x" "32 \<le> adist (fw_filename env) x"
    using out [OF that(2)] write8_end_other [where n = p and a = "fw_path env" and x = x] that(1) p by (simp add: m2_def)
qed

section \<open>Writing memory\<close>

text \<open>
  The writes a request describes.  The destinations avoid the table of destinations, the vector and
  every source; they may overlap each other, and then the order of the writes matters.
\<close>

definition descr :: "mem \<Rightarrow> u32 \<Rightarrow> u32 \<Rightarrow> nat \<Rightarrow> u32 \<times> u32 \<times> u32" where
  "descr m dests v i = (read32 m (dests + of_nat (4 * i)), vec_ptr m v (i + 1), vec_len m v (i + 1))"

definition active :: "u32 \<times> u32 \<times> u32 \<Rightarrow> bool" where
  "active d \<longleftrightarrow> (case d of (dest, src, sz) \<Rightarrow> src \<noteq> 0 \<and> 0 < sz)"

definition writes_ok :: "mem \<Rightarrow> u32 \<Rightarrow> u32 \<Rightarrow> nat \<Rightarrow> bool" where
  "writes_ok m dests v n \<longleftrightarrow>
     (\<forall>i<n. case descr m dests v i of (d, s, l) \<Rightarrow> s \<noteq> 0 \<and> 0 < l \<longrightarrow>
        disjoint_regions d (unat l) dests (4 * n) \<and> disjoint_regions d (unat l) v (12 * (n + 1)) \<and>
        (\<forall>j<n. case descr m dests v j of (d', s', l') \<Rightarrow> disjoint_regions d (unat l) s' (unat l')))"

text \<open>A byte after the writes \<open>ts\<close>: that of the last write that covers it.\<close>

definition covers :: "u32 \<Rightarrow> u32 \<times> u32 \<times> u32 \<Rightarrow> bool" where
  "covers x t \<longleftrightarrow> active t \<and> (case t of (dest, src, sz) \<Rightarrow> adist dest x < unat sz)"

definition written :: "mem \<Rightarrow> (u32 \<times> u32 \<times> u32) list \<Rightarrow> mem" where
  "written m ts x = (case find (covers x) (rev ts) of
     None \<Rightarrow> m x | Some (dest, src, sz) \<Rightarrow> m (src + (x - dest)))"

lemma written_other: "\<forall>t \<in> set ts. \<not> covers x t \<Longrightarrow> written m ts x = m x"
  by (simp add: written_def find_None_iff [THEN iffD2])

lemma written_snoc:
  "written m (ts @ [(d, s, l)]) x =
     (if active (d, s, l) \<and> adist d x < unat l then m (s + (x - d)) else written m ts x)"
  by (simp add: written_def covers_def)

text \<open>What the writes leave alone: the descriptors and the sources.\<close>

lemma written_keeps:
  assumes "writes_ok m dests v n" "i \<le> n" "j < n"
  defines "M \<equiv> written m (map (descr m dests v) [0..<i])"
  shows "descr M dests v j = descr m dests v j"
    and "descr m dests v j = (d, s, l) \<Longrightarrow> y < l \<Longrightarrow> M (s + y) = m (s + y)"
proof -
  have keep: "M x = m x" if "\<And>k d s l. k < n \<Longrightarrow> descr m dests v k = (d, s, l) \<Longrightarrow> s \<noteq> 0 \<Longrightarrow> 0 < l \<Longrightarrow>
      disjoint_regions d (unat l) a len" "adist a x < len" for a len x
    unfolding M_def
  proof (rule written_other, intro ballI)
    fix t assume "t \<in> set (map (descr m dests v) [0..<i])"
    then obtain k where "k < i" "t = descr m dests v k" by auto
    then have k: "k < n" "descr m dests v k = t" using assms(2) by simp_all
    obtain d s l where t: "t = (d, s, l)" by (cases t)
    have "s \<noteq> 0 \<and> 0 < l \<Longrightarrow> unat l \<le> adist d x"
      using that(1) [of k d s l] k t disjoint_regionsD [OF _ that(2), of d "unat l"] by (simp add: disjoint_sym)
    then show "\<not> covers x t" by (auto simp: covers_def active_def t)
  qed
  have ok: "disjoint_regions d (unat l) dests (4 * n)" "disjoint_regions d (unat l) v (12 * (n + 1))"
    "j < n \<Longrightarrow> descr m dests v j = (d', s', l') \<Longrightarrow> disjoint_regions d (unat l) s' (unat l')"
    if "k < n" "descr m dests v k = (d, s, l)" "s \<noteq> 0" "0 < l" for k d s l j d' s' l'
    using assms(1) that by (fastforce simp: writes_ok_def)+
  have "read32 M a = read32 m a" if "\<And>k d s l. k < n \<Longrightarrow> descr m dests v k = (d, s, l) \<Longrightarrow> s \<noteq> 0 \<Longrightarrow> 0 < l \<Longrightarrow>
      disjoint_regions d (unat l) a 4" for a
    by (rule read32_cong) (rule keep [of a 4, OF that])
  moreover have "disjoint_regions d (unat l) (dests + of_nat (4 * j)) 4"
    "disjoint_regions d (unat l) (v + of_nat (12 * (j + 1))) 4"
    "disjoint_regions d (unat l) (v + of_nat (12 * (j + 1) + 4)) 4"
    if "k < n" "descr m dests v k = (d, s, l)" "s \<noteq> 0" "0 < l" for k d s l
    using ok(1,2) [OF that] assms(3)
    by (intro disjoint_sub [of d "unat l" dests "4 * n"] disjoint_sub [of d "unat l" v "12 * (n + 1)"]; simp)+
  ultimately show "descr M dests v j = descr m dests v j"
    unfolding descr_def vec_ptr_def vec_len_def by metis
  assume j: "descr m dests v j = (d, s, l)" "y < l"
  show "M (s + y) = m (s + y)"
    using j(2) ok(3) [OF _ _ _ _ assms(3) j(1)]
    by (intro keep [of s "unat l"]) (auto simp: word_less_nat_alt)
qed

text \<open>One induction over the remaining writes: the first \<open>i\<close> are done.\<close>

lemma write_loop_spec:
  assumes "writes_ok m dests v n" "i \<le> n"
  shows "write_loop (written m (map (descr m dests v) [0..<i])) dests v n i =
    written m (map (descr m dests v) [0..<n])"
  using assms(2)
proof (induction "n - i" arbitrary: i)
  case 0
  then show ?case by (subst write_loop.simps) simp
next
  case (Suc k)
  let ?M = "written m (map (descr m dests v) [0..<i])"
  have i: "i < n" using Suc.hyps(2) by simp
  obtain d s l where dd: "descr m dests v i = (d, s, l)" by (cases "descr m dests v i") auto
  then have D: "read32 ?M (dests + of_nat (4 * i)) = d" "vec_ptr ?M v (i + 1) = s" "vec_len ?M v (i + 1) = l"
    using written_keeps(1) [OF assms(1) Suc.prems i] by (auto simp: descr_def)
  have "(if s \<noteq> 0 \<and> 0 < l then memmove ?M d s (unat l) else ?M) x =
      written m (map (descr m dests v) [0..<Suc i]) x" for x
    using written_keeps(2) [OF assms(1) Suc.prems i dd, of "x - d"]
    by (simp add: dd written_snoc active_def memmove_def word_less_nat_alt)
  then have "(if s \<noteq> 0 \<and> 0 < l then memmove ?M d s (unat l) else ?M) =
      written m (map (descr m dests v) [0..<Suc i])" by (rule ext)
  then have "write_loop ?M dests v n i = write_loop (written m (map (descr m dests v) [0..<Suc i])) dests v n (Suc i)"
    using i D by (subst write_loop.simps) (simp only: Let_def if_True)
  also have "\<dots> = written m (map (descr m dests v) [0..<n])"
    using Suc.hyps i by (intro Suc.hyps(1)) simp_all
  finally show ?case .
qed

section \<open>Properties\<close>

text \<open>
  Setting the firmware path: a path whose directory part fits its buffer is split at
  the last slash; the directory and at most 31 bytes of the file name are stored as
  terminated strings, and no byte outside the two buffers changes.
\<close>

lemma set_fw_path_splits:
  assumes "buffer_in r \<noteq> 0" and "io_command r = IOCTL_SET_FW_PATH"
    and "cstr (imem st) (buffer_in r) = Some s" and "last_index 47 s = Some p" and "p < 256"
    and "disjoint_regions (fw_path env) 256 (fw_filename env) 32"
  shows "\<exists>m'. ipc_ioctl env st r = Some (st\<lparr>imem := m'\<rparr>, 0) \<and>
    cstr m' (fw_path env) = Some (take p s) \<and>
    cstr m' (fw_filename env) = Some (take 31 (drop (p + 1) s)) \<and>
    (\<forall>x. 256 \<le> adist (fw_path env) x \<and> 32 \<le> adist (fw_filename env) x \<longrightarrow> m' x = imem st x)"
  using set_fw_path_spec [OF cstr_no_zero [OF assms(3)] assms(4-6)] assms(1-3)
  by (auto simp: ipc_ioctl_def)

definition demo_ienv :: ipc_env where
  "demo_ienv = \<lparr> fw_path = 0x1000, fw_filename = 0x2000, map_shared = (\<lambda>_. 0) \<rparr>"

definition demo_ist :: "u8 list \<Rightarrow> ipc_state" where
  "demo_ist s = \<lparr> imem = store_bytes (\<lambda>_. 0) 0x3000 (s @ [0]),
     iprsh = \<lparr> header = 0, initialized = True \<rparr>, executed = [] \<rparr>"

theorem set_fw_path_splits_witness:
  "\<exists>m'. ipc_ioctl demo_ienv (demo_ist (str ''/a/fw.img''))
      \<lparr> io_command = 2, buffer_in = 0x3000, length_in = 10, buffer_io = 0, length_io = 0 \<rparr>
    = Some ((demo_ist (str ''/a/fw.img''))\<lparr>imem := m'\<rparr>, 0) \<and>
    cstr m' 0x1000 = Some (str ''/a'') \<and> cstr m' 0x2000 = Some (str ''fw.img'')"
proof -
  let ?s = "str ''/a/fw.img''"
  let ?r = "\<lparr> io_command = 2, buffer_in = 0x3000, length_in = 10, buffer_io = 0, length_io = 0 \<rparr> :: ioctl_req"
  have s: "?s = [47, 97, 47, 102, 119, 46, 105, 109, 103]"
    by (simp add: str_def of_char_def)
  have "cstr (imem (demo_ist ?s)) (buffer_in ?r) = Some ?s"
    using cstr_store [of ?s "\<lambda>_. 0" "0x3000"] unfolding s by (simp add: demo_ist_def)
  moreover have "last_index 47 ?s = Some 2" by (simp add: s last_index_def upt_rec)
  moreover have "disjoint_regions (fw_path demo_ienv) 256 (fw_filename demo_ienv) 32"
    by (simp add: demo_ienv_def disjoint_regions_def)
  moreover have "take 2 ?s = str ''/a''" "take 31 (drop (2 + 1) ?s) = str ''fw.img''"
    by (simp_all add: str_def)
  ultimately show ?thesis
    using set_fw_path_splits [where r = ?r and st = "demo_ist ?s" and s = ?s and p = 2 and env = demo_ienv]
    by (auto simp: ioctl_codes demo_ienv_def)
qed

text \<open>
  A longer directory part is stored all the same: its terminator, and the byte before
  it, land behind the buffer.
\<close>

lemma set_fw_path_overflows:
  assumes "last_index 47 s = Some p" and "256 \<le> p" and "p < 2 ^ 31"
    and "32 \<le> adist (fw_filename env) (fw_path env + of_nat p)"
  shows "set_fw_path env m s (fw_path env + of_nat p) = 0 \<and>
    256 \<le> adist (fw_path env) (fw_path env + of_nat p)"
proof -
  let ?x = "fw_path env + of_nat p"
  have "write8 (strncpy M (fw_filename env) t 31) (fw_filename env + of_nat 31) 0 ?x = M ?x" for M t
    using assms(4) by (intro write8_end_other) simp_all
  moreover have "adist (fw_path env) ?x = p" using assms(3) by (simp add: unat_of_nat_u32)
  ultimately show ?thesis
    using assms(1,2) by (simp add: set_fw_path_def Let_def write8_def [of _ ?x])
qed

theorem set_fw_path_overflows_witness:
  "set_fw_path demo_ienv (\<lambda>_. 7) (replicate 300 97 @ [47]) 0x112C = 0"
proof -
  have "filter (\<lambda>i. (replicate 300 97 @ [47 :: u8]) ! i = 47) [0..<301] = [300]"
  proof -
    have "filter (\<lambda>i. (replicate 300 97 @ [47 :: u8]) ! i = 47) [0..<300] = []"
      by (simp add: filter_empty_conv nth_append)
    moreover have "[0..<301] = [0..<300] @ [300 :: nat]" by (simp add: upt_Suc_append [symmetric])
    ultimately show ?thesis by (simp add: nth_append)
  qed
  then have "last_index 47 (replicate 300 97 @ [47 :: u8]) = Some 300" by (simp add: last_index_def)
  then show ?thesis
    using set_fw_path_overflows [of "replicate 300 97 @ [47]" 300 demo_ienv "\<lambda>_. 7"]
    by (simp add: demo_ienv_def)
qed

text \<open>
  C33. Writing memory: a request whose destinations avoid the table of destinations, the vector and the
  sources leaves in every byte of memory what the last write that covers it, in the order of
  the request, puts there: the byte of that write's source.  A byte that none covers is unchanged.  Writes
  with a null source or of no length do nothing.  (\<^verbatim>\<open>IPC.md\<close> describes a single
  destination for all sources; the code takes the first vector as a table of destinations.)
\<close>

theorem write_memory_copies:
  assumes "iov_command r = IOCTLV_WRITE_MEMORY" and "num_io r = 0"
    and "vec_len (imem st) (iovec r) 0 mod 4 = 0"
    and "num_in r = 1 + vec_len (imem st) (iovec r) 0 div 4"
  defines "n \<equiv> unat (vec_len (imem st) (iovec r) 0 div 4)"
    and "dests \<equiv> vec_ptr (imem st) (iovec r) 0"
  assumes ok: "writes_ok (imem st) dests (iovec r) n"
  shows "\<exists>m'. ipc_ioctlv st r = (st\<lparr>imem := m'\<rparr>, 0) \<and>
    (\<forall>x. m' x =
      (case find (\<lambda>(d, s, l). s \<noteq> 0 \<and> adist d x < unat l)
          (rev (map (descr (imem st) dests (iovec r)) [0..<n])) of
         None \<Rightarrow> imem st x | Some (d, s, l) \<Rightarrow> imem st (s + (x - d))))"
proof -
  have "vec_len (imem st) (iovec r) 0 div 4 \<le> 0x3FFFFFFF"
    by (simp add: word_le_nat_alt unat_div) (use unat_u32_less [of "vec_len (imem st) (iovec r) 0"] in simp)
  then have "1 \<le> num_in r"
    unfolding assms(4) by (simp add: word_le_nat_alt unat_plus_if')
  moreover have "written (imem st) [] = imem st" by (simp add: written_def fun_eq_iff)
  with write_loop_spec [OF ok, of 0] have "write_loop (imem st) dests (iovec r) n 0 =
      written (imem st) (map (descr (imem st) dests (iovec r)) [0..<n])" by simp
  moreover have "covers x = (\<lambda>(d, s, l). s \<noteq> 0 \<and> adist d x < unat l)" for x
    by (auto simp: covers_def active_def fun_eq_iff word_less_nat_alt)
  ultimately show ?thesis
    using assms(1-4) by (auto simp: ipc_ioctlv_def Let_def n_def dests_def not_less written_def)
qed

text \<open>Two writes, the second over the second byte of the first.\<close>

definition demo_vec :: mem where
  "demo_vec = (\<lambda>a. if a = 0x1002 then 0x20 else if a = 0x1007 then 8 else if a = 0x100E then 0x30
     else if a = 0x1013 then 2 else if a = 0x101A then 0x31 else if a = 0x101F then 2
     else if a = 0x2002 then 0x40 else if a = 0x2006 then 0x40 else if a = 0x2007 then 1
     else if a = 0x3000 then 5 else if a = 0x3001 then 6
     else if a = 0x3100 then 7 else if a = 0x3101 then 8 else 0)"

lemma demo_vec_descr: "descr demo_vec 0x2000 0x1000 0 = (0x4000, 0x3000, 2)"
  "descr demo_vec 0x2000 0x1000 (Suc 0) = (0x4001, 0x3100, 2)"
  by (simp_all add: descr_def vec_ptr_def vec_len_def read32_def demo_vec_def)

theorem write_memory_copies_witness:
  "\<exists>m'. ipc_ioctlv \<lparr> imem = demo_vec, iprsh = \<lparr> header = 0, initialized = True \<rparr>, executed = [] \<rparr>
      \<lparr> iov_command = 3, num_in = 3, num_io = 0, iovec = 0x1000 \<rparr>
    = (\<lparr> imem = m', iprsh = \<lparr> header = 0, initialized = True \<rparr>, executed = [] \<rparr>, 0) \<and>
    m' 0x4000 = 5 \<and> m' 0x4001 = 7 \<and> m' 0x4002 = 8 \<and> m' 0x4003 = 0"
proof -
  let ?r = "\<lparr> iov_command = 3, num_in = 3, num_io = 0, iovec = 0x1000 \<rparr>"
  let ?st = "\<lparr> imem = demo_vec, iprsh = \<lparr> header = 0, initialized = True \<rparr>, executed = [] \<rparr>"
  have l: "vec_len demo_vec 0x1000 0 = 8" "vec_ptr demo_vec 0x1000 0 = 0x2000"
    by (simp_all add: vec_len_def vec_ptr_def read32_def demo_vec_def)
  have r: "imem ?st = demo_vec" "iovec ?r = 0x1000" "iov_command ?r = 3" "num_in ?r = 3" "num_io ?r = 0"
      "(3 :: u32) = IOCTLV_WRITE_MEMORY \<longleftrightarrow> True" "(8 :: u32) mod 4 = 0 \<longleftrightarrow> True"
      "(3 :: u32) = 1 + 8 div 4 \<longleftrightarrow> True" "unat ((8 :: u32) div 4) = 2"
    by (simp_all add: ioctl_codes)
  have two: "(\<forall>i<2. P i) \<longleftrightarrow> P 0 \<and> P (Suc 0)" for P :: "nat \<Rightarrow> bool"
    by (auto simp: less_2_cases_iff)
  have "writes_ok demo_vec 0x2000 0x1000 2"
    by (simp add: writes_ok_def two demo_vec_descr disjoint_regions_def)
  moreover have d: "map (descr demo_vec 0x2000 0x1000) [0..<2] = [(0x4000, 0x3000, 2), (0x4001, 0x3100, 2)]"
    by (simp add: upt_rec demo_vec_descr)
  ultimately obtain m' where m': "ipc_ioctlv ?st ?r = (?st\<lparr>imem := m'\<rparr>, 0)"
    "\<forall>x. m' x = (case find (\<lambda>(d, s, l). s \<noteq> 0 \<and> adist d x < unat l)
       (rev (map (descr demo_vec 0x2000 0x1000) [0..<2])) of
         None \<Rightarrow> demo_vec x | Some (d, s, l) \<Rightarrow> demo_vec (s + (x - d)))"
    using write_memory_copies [where r = ?r and st = ?st, unfolded r l, unfolded r] by auto
  have "demo_vec 0x3000 = 5" "demo_vec 0x3100 = 7" "demo_vec 0x3101 = 8" "demo_vec 0x4003 = 0"
    "\<not> unat (- 1 :: u32) < 2"
    by (simp_all add: demo_vec_def unsigned_minus_1_eq_mask mask_eq_exp_minus_1)
  then show ?thesis
    using m'(1) by (intro exI [of _ m'] conjI) (simp_all add: m'(2) [unfolded d])
qed

text \<open>
  C34. Refused requests have no effect: whenever the dispatcher answers with one of its
  error codes to anything but a mapping request, the state is what it was.
\<close>

theorem ipc_errors_pure:
  assumes "ipc_dispatch env st q = Some (st', res)"
    and "res \<in> {IOS_ERROR_INVALID_ARG, IOS_ERROR_INVALID_SIZE, IOS_ERROR_UNKNOWN_VALUE}"
  shows "st' = st"
  using assms
  by (auto simp: ipc_dispatch_def ipc_ioctl_def ipc_ioctlv_def Let_def ios_errors SIZEOF_MINUTE_PATH_def
      split: request.splits if_splits bind_splits prod.splits)

theorem ipc_errors_pure_witness:
  "ipc_dispatch demo_ienv (demo_ist []) (Ioctlv \<lparr> iov_command = 3, num_in = 0, num_io = 0, iovec = 0 \<rparr>)
     = Some (demo_ist [], IOS_ERROR_INVALID_ARG)"
proof -
  let ?q = "Ioctlv \<lparr> iov_command = 3, num_in = 0, num_io = 0, iovec = 0 \<rparr>"
  have "\<exists>st'. ipc_dispatch demo_ienv (demo_ist []) ?q = Some (st', IOS_ERROR_INVALID_ARG)"
    by (simp add: ipc_dispatch_def ipc_ioctlv_def ioctl_codes Let_def)
  then show ?thesis using ipc_errors_pure [of demo_ienv "demo_ist []" ?q] by auto
qed

text \<open>
  C35. The server answers every message it receives exactly once, in order, and nothing
  when receiving fails.
\<close>

theorem ipc_replies_once:
  assumes "ipc_thread env st es = Some (st', replies)"
  shows "map fst replies = concat (map (\<lambda>e. case e of Failed \<Rightarrow> [] | Message k q \<Rightarrow> [k]) es)"
  using assms
  by (induction env st es arbitrary: st' replies rule: ipc_thread.induct)
     (auto split: bind_splits)

theorem ipc_replies_once_witness:
  "\<exists>st' replies. ipc_thread demo_ienv (demo_ist []) [Message 4 Open, Failed, Message 9 (Other 5)]
     = Some (st', replies) \<and> map fst replies = [4, 9]"
proof -
  let ?es = "[Message 4 Open, Failed, Message 9 (Other 5)]"
  obtain st' rs where run: "ipc_thread demo_ienv (demo_ist []) ?es = Some (st', rs)"
    by (simp add: ipc_dispatch_def)
  then show ?thesis using ipc_replies_once [OF run] by simp
qed

end
