(* ===== verification/Service.thy ===== *)
theory Service
  imports CString
begin

text \<open>
  The services the client libraries (\<^verbatim>\<open>fsa.c\<close>, \<^verbatim>\<open>socket.c\<close>, \<^verbatim>\<open>net_ifmgr_ncl.c\<close>) call:
  the heap and the resource managers behind \<^verbatim>\<open>iosIoctl\<close> and \<^verbatim>\<open>iosIoctlv\<close>.  They are not
  part of the program: an environment of functions stands for them.  The state is memory
  and the list of blocks that were allocated and not yet freed.

  The locale \<open>scratch\<close> is the contract the libraries rely on when they bracket a request
  with \<^verbatim>\<open>allocIobuf\<close> and \<^verbatim>\<open>freeIobuf\<close>.
\<close>

record service_env =
  alloc :: "u32 list \<Rightarrow> u32 \<Rightarrow> u32"
  alloc_aligned :: "u32 list \<Rightarrow> u32 \<Rightarrow> u32 \<Rightarrow> u32"
  ioctl_svc :: "mem \<Rightarrow> u32 \<Rightarrow> u32 \<Rightarrow> u32 \<Rightarrow> u32 \<Rightarrow> u32 \<Rightarrow> u32 \<Rightarrow> mem \<times> u32"
  ioctlv_svc :: "mem \<Rightarrow> u32 \<Rightarrow> u32 \<Rightarrow> u32 \<Rightarrow> u32 \<Rightarrow> u32 \<Rightarrow> mem \<times> u32"
  open_svc :: "string \<Rightarrow> u32"
  close_svc :: "u32 \<Rightarrow> u32"

record service_state =
  smem :: mem
  live :: "u32 list"

text \<open>\<^verbatim>\<open>iosFree\<close>.\<close>

definition iosFree :: "service_state \<Rightarrow> u32 \<Rightarrow> service_state" where
  "iosFree st p = st\<lparr>live := remove1 p (live st)\<rparr>"

definition iosAlloc :: "service_env \<Rightarrow> service_state \<Rightarrow> u32 \<Rightarrow> service_state \<times> u32" where
  "iosAlloc env st sz = (let p = alloc env (live st) sz in (st\<lparr>live := p # live st\<rparr>, p))"

definition iosAllocAligned :: "service_env \<Rightarrow> service_state \<Rightarrow> u32 \<Rightarrow> u32 \<Rightarrow> service_state \<times> u32" where
  "iosAllocAligned env st sz al =
     (let p = alloc_aligned env (live st) sz al in (st\<lparr>live := p # live st\<rparr>, p))"

text \<open>An \<^verbatim>\<open>iovec_s\<close>: the pointer and the length of entry \<open>i\<close> of the vector at \<open>v\<close>.\<close>

definition put_vec :: "u32 \<Rightarrow> nat \<Rightarrow> u32 \<Rightarrow> u32 \<Rightarrow> mem \<Rightarrow> mem" where
  "put_vec v i ptr len m =
     write32 (write32 m (v + of_nat (12 * i)) ptr) (v + of_nat (12 * i + 4)) len"

text \<open>Words of a request buffer, given by their byte offsets.\<close>

definition put_words :: "u32 \<Rightarrow> (nat \<times> u32) list \<Rightarrow> mem \<Rightarrow> mem" where
  "put_words buf ws m = foldl (\<lambda>m (o', v). write32 m (buf + of_nat o') v) m ws"

definition word_offsets_ok :: "nat \<Rightarrow> nat \<Rightarrow> (nat \<times> u32) list \<Rightarrow> bool" where
  "word_offsets_ok lo hi ws \<longleftrightarrow> sorted_wrt (\<lambda>a b. fst a + 4 \<le> fst b) ws \<and>
     (\<forall>w \<in> set ws. lo \<le> fst w \<and> fst w + 4 \<le> hi)"

lemma put_words_Nil [simp]: "put_words buf [] m = m"
  by (simp add: put_words_def)

lemma put_words_Cons [simp]:
  "put_words buf ((o', v) # ws) m = put_words buf ws (write32 m (buf + of_nat o') v)"
  by (simp add: put_words_def)

lemma put_words_byte:
  assumes "word_offsets_ok lo hi ws" "hi < 2 ^ 31" "adist buf x < lo \<or> hi \<le> adist buf x"
  shows "put_words buf ws m x = m x"
  using assms
proof (induction ws arbitrary: m)
  case (Cons w ws)
  obtain o' v where w: "w = (o', v)" by force
  have o': "lo \<le> o'" "o' + 4 \<le> hi" using Cons.prems(1) by (auto simp: word_offsets_ok_def w)
  have "4 \<le> adist (buf + of_nat o') x"
  proof (cases "hi \<le> adist buf x")
    case True
    then have "adist (buf + of_nat o') x = adist buf x - o'" using o' by (intro adist_offset) simp
    then show ?thesis using True o' by (simp add: le_diff_conv2)
  next
    case False
    then have lt: "adist buf x < lo" using Cons.prems(3) by simp
    have eq: "x - (buf + of_nat o') = (x - buf) - of_nat o'" by simp
    define d where "d = x - buf"
    have "unat (d - of_nat o') = 2 ^ 32 + unat d - o'"
      using lt o' Cons.prems(2) by (simp add: d_def [symmetric] unat_sub_if' unat_of_nat_u32)
    then show ?thesis using o' Cons.prems(2) unfolding eq d_def [symmetric] by simp
  qed
  then have "write32 m (buf + of_nat o') v x = m x" by (rule write32_other)
  moreover have "word_offsets_ok lo hi ws" using Cons.prems(1) by (auto simp: word_offsets_ok_def)
  ultimately show ?case using Cons by (simp add: w)
qed simp

lemma put_words_other:
  assumes "sorted_wrt (\<lambda>a b. fst a + 4 \<le> fst b) ws" "\<forall>w \<in> set ws. k + 4 \<le> fst w \<and> fst w < 2 ^ 31"
    "k < 2 ^ 31"
  shows "read32 (put_words buf ws m) (buf + of_nat k) = read32 m (buf + of_nat k)"
  using assms
proof (induction ws arbitrary: m)
  case (Cons w ws)
  obtain o' v where w: "w = (o', v)" by force
  have "read32 (write32 m (buf + of_nat o') v) (buf + of_nat k) = read32 m (buf + of_nat k)"
    using Cons.prems by (intro read32_write32_other disjoint_nat) (auto simp: w)
  then show ?case using Cons by (simp add: w)
qed simp

lemma put_words_read:
  assumes "word_offsets_ok lo hi ws" "hi < 2 ^ 31" "(k, v) \<in> set ws"
  shows "read32 (put_words buf ws m) (buf + of_nat k) = v"
  using assms
proof (induction ws arbitrary: m)
  case (Cons w ws)
  obtain o' u where w: "w = (o', u)" by force
  have ok: "word_offsets_ok lo hi ws" and later: "\<forall>w \<in> set ws. o' + 4 \<le> fst w"
    using Cons.prems(1) by (auto simp: word_offsets_ok_def w)
  show ?case
  proof (cases "(k, v) = (o', u)")
    case True
    have "read32 (put_words buf ws (write32 m (buf + of_nat o') u)) (buf + of_nat o') =
        read32 (write32 m (buf + of_nat o') u) (buf + of_nat o')"
    proof (rule put_words_other)
      show "sorted_wrt (\<lambda>a b. fst a + 4 \<le> fst b) ws" using ok by (simp add: word_offsets_ok_def)
      show "\<forall>w \<in> set ws. o' + 4 \<le> fst w \<and> fst w < 2 ^ 31"
        using later ok Cons.prems(2) by (fastforce simp: word_offsets_ok_def)
      show "o' < 2 ^ 31" using Cons.prems(1,2) by (auto simp: word_offsets_ok_def w)
    qed
    then show ?thesis using True by (simp add: w)
  next
    case False
    then show ?thesis using Cons ok by (auto simp: w)
  qed
qed simp

section \<open>The bracket\<close>

locale scratch =
  fixes acquire :: "'s \<Rightarrow> 's \<times> u32"
    and release :: "'s \<Rightarrow> u32 \<Rightarrow> 's"
    and outstanding :: "'s \<Rightarrow> u32 list"
  assumes acq: "acquire s = (s', p) \<Longrightarrow> outstanding s' = p # outstanding s"
    and rel: "outstanding (release s p) = remove1 p (outstanding s)"
begin

lemma balanced:
  assumes "acquire s = (s', p)" "outstanding s'' = outstanding s'"
  shows "outstanding (release s'' p) = outstanding s"
  using acq [OF assms(1)] rel [of s'' p] assms(2) by simp

end

end
