(* ===== verification/Fsa.thy ===== *)
theory Fsa
  imports Service
begin

text \<open>
  \<^verbatim>\<open>wafel_core/source/services/fsa.c\<close>: the client of the file system and installation
  services.  Every call allocates a zeroed block of 0x828 bytes, writes its request into
  the first 0x520 bytes, lets the service answer behind it, and frees the block.  The
  definitions follow the stores of the source one by one; \<open>path_request\<close> is the common
  beginning of the calls with a path.
\<close>

section \<open>The request block\<close>

definition IOBUF_SZ :: nat where "IOBUF_SZ = 0x828"

text \<open>\<^verbatim>\<open>allocIobuf\<close> clears the block without a check for \<^verbatim>\<open>NULL\<close>.\<close>

definition allocIobuf :: "service_env \<Rightarrow> service_state \<Rightarrow> service_state \<times> u32" where
  "allocIobuf env st =
     (let (st, p) = iosAlloc env st (of_nat IOBUF_SZ)
      in (st\<lparr>smem := memset (smem st) p 0 IOBUF_SZ\<rparr>, p))"

definition freeIobuf :: "service_state \<Rightarrow> u32 \<Rightarrow> service_state" where
  "freeIobuf st p = iosFree st p"

interpretation iobuf: scratch "allocIobuf env" freeIobuf live for env
  by unfold_locales
     (auto simp: allocIobuf_def freeIobuf_def iosAlloc_def iosFree_def Let_def)

text \<open>A call: the body sees the address of the block and memory.\<close>

definition with_iobuf ::
  "service_env \<Rightarrow> (u32 \<Rightarrow> mem \<Rightarrow> mem \<times> u32) \<Rightarrow> service_state \<Rightarrow> service_state \<times> u32" where
  "with_iobuf env body st =
     (let (st, buf) = allocIobuf env st; (m, ret) = body buf (smem st)
      in (freeIobuf (st\<lparr>smem := m\<rparr>) buf, ret))"

definition path_request :: "u32 \<Rightarrow> u8 list \<Rightarrow> (nat \<times> u32) list \<Rightarrow> mem \<Rightarrow> mem" where
  "path_request buf path ws m = put_words buf ws (strncpy m (buf + 4) path 0x27F)"

text \<open>The usual request: the input block, the output block behind it.\<close>

definition fsa_ioctl :: "service_env \<Rightarrow> u32 \<Rightarrow> u32 \<Rightarrow> u32 \<Rightarrow> mem \<Rightarrow> mem \<times> u32" where
  "fsa_ioctl env fd cmd buf m = ioctl_svc env m fd cmd buf 0x520 (buf + 0x520) 0x293"

text \<open>\<^verbatim>\<open>if (out) *out = outbuf[1]\<close>, and \<^verbatim>\<open>if (out) memcpy(out, &outbuf[1], n)\<close>.\<close>

definition out_handle :: "u32 \<Rightarrow> u32 \<Rightarrow> mem \<times> u32 \<Rightarrow> mem \<times> u32" where
  "out_handle buf out r = (if out \<noteq> 0 then (write32 (fst r) out (read32 (fst r) (buf + 0x524)), snd r) else r)"

definition out_copy :: "u32 \<Rightarrow> u32 \<Rightarrow> nat \<Rightarrow> mem \<times> u32 \<Rightarrow> mem \<times> u32" where
  "out_copy buf out n r = (memmove (fst r) out (buf + 0x524) n, snd r)"

definition out_copy_opt :: "u32 \<Rightarrow> u32 \<Rightarrow> nat \<Rightarrow> mem \<times> u32 \<Rightarrow> mem \<times> u32" where
  "out_copy_opt buf out n r = (if out \<noteq> 0 then out_copy buf out n r else r)"

definition SIZEOF_FSSTAT :: nat where "SIZEOF_FSSTAT = 0x64"
definition SIZEOF_DIRENT :: nat where "SIZEOF_DIRENT = 0x164"

section \<open>The calls\<close>

definition MCP_InstallGetInfo :: "service_env \<Rightarrow> u32 \<Rightarrow> u8 list \<Rightarrow> service_state \<Rightarrow> service_state \<times> u32" where
  "MCP_InstallGetInfo env fd path = with_iobuf env (\<lambda>buf m.
     let m = strncpy m buf path 0x27F;
         m = put_vec (buf + 0x7C0) 0 buf 0x27F m;
         m = put_vec (buf + 0x7C0) 1 (buf + 0x520) 0x16 m
     in ioctlv_svc env m fd 0x80 1 1 (buf + 0x7C0))"

definition MCP_Install :: "service_env \<Rightarrow> u32 \<Rightarrow> u8 list \<Rightarrow> service_state \<Rightarrow> service_state \<times> u32" where
  "MCP_Install env fd path = with_iobuf env (\<lambda>buf m.
     let m = strncpy m buf path 0x27F;
         m = put_vec (buf + 0x7C0) 0 buf 0x27F m
     in ioctlv_svc env m fd 0x81 1 0 (buf + 0x7C0))"

definition MCP_InstallTarget :: "service_env \<Rightarrow> u32 \<Rightarrow> u32 \<Rightarrow> service_state \<Rightarrow> service_state \<times> u32" where
  "MCP_InstallTarget env fd target = with_iobuf env (\<lambda>buf m.
     ioctl_svc env (write8 m (buf + 3) (ucast target)) fd 0x8D buf 0x4 0 0)"

definition FSA_Mount ::
  "service_env \<Rightarrow> u32 \<Rightarrow> u8 list \<Rightarrow> u8 list \<Rightarrow> u32 \<Rightarrow> u32 \<Rightarrow> u32 \<Rightarrow> service_state \<Rightarrow> service_state \<times> u32" where
  "FSA_Mount env fd device_path volume_path flags arg_string arg_string_len = with_iobuf env (\<lambda>buf m.
     let m = strncpy m (buf + 4) device_path 0x27F;
         m = strncpy m (buf + 0x284) volume_path 0x27F;
         m = put_words buf [(0x504, flags), (0x508, arg_string_len)] m;
         m = put_vec (buf + 0x7C0) 0 buf 0x520 m;
         m = put_vec (buf + 0x7C0) 1 arg_string arg_string_len m;
         m = put_vec (buf + 0x7C0) 2 (buf + 0x520) 0x293 m
     in ioctlv_svc env m fd 0x01 2 1 (buf + 0x7C0))"

definition FSA_Unmount ::
  "service_env \<Rightarrow> u32 \<Rightarrow> u8 list \<Rightarrow> u32 \<Rightarrow> service_state \<Rightarrow> service_state \<times> u32" where
  "FSA_Unmount env fd path flags = with_iobuf env (\<lambda>buf m.
     fsa_ioctl env fd 0x02 buf (path_request buf path [(0x284, flags)] m))"

definition FSA_FlushVolume ::
  "service_env \<Rightarrow> u32 \<Rightarrow> u8 list \<Rightarrow> service_state \<Rightarrow> service_state \<times> u32" where
  "FSA_FlushVolume env fd volume = with_iobuf env (\<lambda>buf m.
     fsa_ioctl env fd 0x1B buf (path_request buf volume [] m))"

definition FSA_MakeDir ::
  "service_env \<Rightarrow> u32 \<Rightarrow> u8 list \<Rightarrow> u32 \<Rightarrow> service_state \<Rightarrow> service_state \<times> u32" where
  "FSA_MakeDir env fd path flags = with_iobuf env (\<lambda>buf m.
     fsa_ioctl env fd 0x07 buf (path_request buf path [(0x284, flags)] m))"

definition FSA_OpenDir ::
  "service_env \<Rightarrow> u32 \<Rightarrow> u8 list \<Rightarrow> u32 \<Rightarrow> service_state \<Rightarrow> service_state \<times> u32" where
  "FSA_OpenDir env fd path outHandle = with_iobuf env (\<lambda>buf m.
     out_handle buf outHandle (fsa_ioctl env fd 0x0A buf (path_request buf path [] m)))"

definition FSA_ReadDir ::
  "service_env \<Rightarrow> u32 \<Rightarrow> u32 \<Rightarrow> u32 \<Rightarrow> service_state \<Rightarrow> service_state \<times> u32" where
  "FSA_ReadDir env fd handle out_data = with_iobuf env (\<lambda>buf m.
     out_copy_opt buf out_data SIZEOF_DIRENT (fsa_ioctl env fd 0x0B buf (put_words buf [(4, handle)] m)))"

definition FSA_RewindDir ::
  "service_env \<Rightarrow> u32 \<Rightarrow> u32 \<Rightarrow> service_state \<Rightarrow> service_state \<times> u32" where
  "FSA_RewindDir env fd handle = with_iobuf env (\<lambda>buf m.
     fsa_ioctl env fd 0x0C buf (put_words buf [(4, handle)] m))"

definition FSA_CloseDir ::
  "service_env \<Rightarrow> u32 \<Rightarrow> u32 \<Rightarrow> service_state \<Rightarrow> service_state \<times> u32" where
  "FSA_CloseDir env fd handle = with_iobuf env (\<lambda>buf m.
     fsa_ioctl env fd 0x0D buf (put_words buf [(4, handle)] m))"

definition FSA_ChangeDir ::
  "service_env \<Rightarrow> u32 \<Rightarrow> u8 list \<Rightarrow> service_state \<Rightarrow> service_state \<times> u32" where
  "FSA_ChangeDir env fd path = with_iobuf env (\<lambda>buf m.
     fsa_ioctl env fd 0x05 buf (path_request buf path [] m))"

definition FSA_MakeQuota ::
  "service_env \<Rightarrow> u32 \<Rightarrow> u8 list \<Rightarrow> u32 \<Rightarrow> u64 \<Rightarrow> service_state \<Rightarrow> service_state \<times> u32" where
  "FSA_MakeQuota env fd path mode sz = with_iobuf env (\<lambda>buf m.
     fsa_ioctl env fd 0x1D buf (path_request buf path [(0x284, mode), (0x288, ucast (drop_bit 32 sz)),
       (0x28C, ucast (sz AND 0xFFFFFFFF))] m))"

definition FSA_RemoveQuota ::
  "service_env \<Rightarrow> u32 \<Rightarrow> u8 list \<Rightarrow> service_state \<Rightarrow> service_state \<times> u32" where
  "FSA_RemoveQuota env fd path = with_iobuf env (\<lambda>buf m.
     fsa_ioctl env fd 0x72 buf (path_request buf path [] m))"

definition FSA_OpenFile ::
  "service_env \<Rightarrow> u32 \<Rightarrow> u8 list \<Rightarrow> u8 list \<Rightarrow> u32 \<Rightarrow> service_state \<Rightarrow> service_state \<times> u32" where
  "FSA_OpenFile env fd path mode outHandle = with_iobuf env (\<lambda>buf m.
     out_handle buf outHandle
       (fsa_ioctl env fd 0x0E buf (strncpy (strncpy m (buf + 4) path 0x27F) (buf + 0x284) mode 0x10)))"

definition FSA_ReadWriteFile ::
  "service_env \<Rightarrow> u32 \<Rightarrow> u32 \<Rightarrow> u32 \<Rightarrow> u32 \<Rightarrow> u32 \<Rightarrow> u32 \<Rightarrow> bool \<Rightarrow> service_state \<Rightarrow> service_state \<times> u32" where
  "FSA_ReadWriteFile env fd data sz cnt fileHandle flags rd = with_iobuf env (\<lambda>buf m.
     let m = put_words buf [(0x08, sz), (0x0C, cnt), (0x14, fileHandle), (0x18, flags)] m;
         m = put_vec (buf + 0x7C0) 0 buf 0x520 m;
         m = put_vec (buf + 0x7C0) 1 data (sz * cnt) m;
         m = put_vec (buf + 0x7C0) 2 (buf + 0x520) 0x293 m
     in if rd then ioctlv_svc env m fd 0x0F 1 2 (buf + 0x7C0)
        else ioctlv_svc env m fd 0x10 2 1 (buf + 0x7C0))"

definition FSA_ReadFile ::
  "service_env \<Rightarrow> u32 \<Rightarrow> u32 \<Rightarrow> u32 \<Rightarrow> u32 \<Rightarrow> u32 \<Rightarrow> u32 \<Rightarrow> service_state \<Rightarrow> service_state \<times> u32" where
  "FSA_ReadFile env fd data sz cnt fileHandle flags =
     FSA_ReadWriteFile env fd data sz cnt fileHandle flags True"

definition FSA_WriteFile ::
  "service_env \<Rightarrow> u32 \<Rightarrow> u32 \<Rightarrow> u32 \<Rightarrow> u32 \<Rightarrow> u32 \<Rightarrow> u32 \<Rightarrow> service_state \<Rightarrow> service_state \<times> u32" where
  "FSA_WriteFile env fd data sz cnt fileHandle flags =
     FSA_ReadWriteFile env fd data sz cnt fileHandle flags False"

definition FSA_StatFile ::
  "service_env \<Rightarrow> u32 \<Rightarrow> u32 \<Rightarrow> u32 \<Rightarrow> service_state \<Rightarrow> service_state \<times> u32" where
  "FSA_StatFile env fd handle out_data = with_iobuf env (\<lambda>buf m.
     out_copy_opt buf out_data SIZEOF_FSSTAT (fsa_ioctl env fd 0x14 buf (put_words buf [(4, handle)] m)))"

definition FSA_GetStat ::
  "service_env \<Rightarrow> u32 \<Rightarrow> u8 list \<Rightarrow> u32 \<Rightarrow> service_state \<Rightarrow> service_state \<times> u32" where
  "FSA_GetStat env fd path out_data = with_iobuf env (\<lambda>buf m.
     out_copy_opt buf out_data SIZEOF_FSSTAT (fsa_ioctl env fd 0x18 buf (path_request buf path [(0x284, 5)] m)))"

definition FSA_SetPosFile ::
  "service_env \<Rightarrow> u32 \<Rightarrow> u32 \<Rightarrow> u32 \<Rightarrow> service_state \<Rightarrow> service_state \<times> u32" where
  "FSA_SetPosFile env fd fileHandle position = with_iobuf env (\<lambda>buf m.
     fsa_ioctl env fd 0x12 buf (put_words buf [(4, fileHandle), (8, position)] m))"

definition FSA_CloseFile ::
  "service_env \<Rightarrow> u32 \<Rightarrow> u32 \<Rightarrow> service_state \<Rightarrow> service_state \<times> u32" where
  "FSA_CloseFile env fd fileHandle = with_iobuf env (\<lambda>buf m.
     fsa_ioctl env fd 0x15 buf (put_words buf [(4, fileHandle)] m))"

definition FSA_FlushFile ::
  "service_env \<Rightarrow> u32 \<Rightarrow> u32 \<Rightarrow> service_state \<Rightarrow> service_state \<times> u32" where
  "FSA_FlushFile env fd fileHandle = with_iobuf env (\<lambda>buf m.
     fsa_ioctl env fd 0x17 buf (put_words buf [(4, fileHandle)] m))"

definition FSA_ChangeMode ::
  "service_env \<Rightarrow> u32 \<Rightarrow> u8 list \<Rightarrow> u32 \<Rightarrow> service_state \<Rightarrow> service_state \<times> u32" where
  "FSA_ChangeMode env fd path mode = with_iobuf env (\<lambda>buf m.
     fsa_ioctl env fd 0x20 buf (path_request buf path [(0x284, mode), (0x288, 0x666)] m))"

definition FSA_Format ::
  "service_env \<Rightarrow> u32 \<Rightarrow> u8 list \<Rightarrow> u8 list \<Rightarrow> u32 \<Rightarrow> u32 \<Rightarrow> u32 \<Rightarrow> service_state \<Rightarrow> service_state \<times> u32" where
  "FSA_Format env fd device fs_format flags what1 what2 = with_iobuf env (\<lambda>buf m.
     fsa_ioctl env fd 0x69 buf (put_words buf [(0x28C, what1), (0x290, what2)]
       (strncpy (strncpy m (buf + 4) device 0x27F) (buf + 0x284) fs_format 8)))"

definition device_info_size :: "u32 \<Rightarrow> nat" where
  "device_info_size type =
     (if type \<in> {0, 1, 7} then 0x8 else if type = 2 then 0x4 else if type = 3 then 0x1E
      else if type = 4 then 0x28 else if type = 5 then 0x64 else if type \<in> {6, 8} then 0x14 else 0)"

definition FSA_GetDeviceInfo ::
  "service_env \<Rightarrow> u32 \<Rightarrow> u8 list \<Rightarrow> u32 \<Rightarrow> u32 \<Rightarrow> service_state \<Rightarrow> service_state \<times> u32" where
  "FSA_GetDeviceInfo env fd device_path type out_data = with_iobuf env (\<lambda>buf m.
     out_copy buf out_data (device_info_size type) (fsa_ioctl env fd 0x18 buf (path_request buf device_path [(0x284, type)] m)))"

definition FSA_GetVolumeInfo ::
  "service_env \<Rightarrow> u32 \<Rightarrow> u8 list \<Rightarrow> u32 \<Rightarrow> service_state \<Rightarrow> service_state \<times> u32" where
  "FSA_GetVolumeInfo env fd volume_path out = with_iobuf env (\<lambda>buf m.
     out_copy buf out 0x1BC (fsa_ioctl env fd 0x03 buf (path_request buf volume_path [] m)))"

definition FSA_RawOpen ::
  "service_env \<Rightarrow> u32 \<Rightarrow> u8 list \<Rightarrow> u32 \<Rightarrow> service_state \<Rightarrow> service_state \<times> u32" where
  "FSA_RawOpen env fd device_path outHandle = with_iobuf env (\<lambda>buf m.
     out_handle buf outHandle (fsa_ioctl env fd 0x6A buf (path_request buf device_path [] m)))"

definition FSA_RawClose ::
  "service_env \<Rightarrow> u32 \<Rightarrow> u32 \<Rightarrow> service_state \<Rightarrow> service_state \<times> u32" where
  "FSA_RawClose env fd device_handle = with_iobuf env (\<lambda>buf m.
     fsa_ioctl env fd 0x6D buf (put_words buf [(4, device_handle)] m))"

definition FSA_RawRead ::
  "service_env \<Rightarrow> u32 \<Rightarrow> u32 \<Rightarrow> u32 \<Rightarrow> u32 \<Rightarrow> u64 \<Rightarrow> u32 \<Rightarrow> service_state \<Rightarrow> service_state \<times> u32" where
  "FSA_RawRead env fd data size_bytes cnt blocks_offset device_handle = with_iobuf env (\<lambda>buf m.
     let m = put_words buf [(0x08, ucast (drop_bit 32 blocks_offset)),
               (0x0C, ucast (blocks_offset AND 0xFFFFFFFF)), (0x10, cnt), (0x14, size_bytes),
               (0x18, device_handle)] m;
         m = put_vec (buf + 0x7C0) 0 buf 0x520 m;
         m = put_vec (buf + 0x7C0) 1 data (size_bytes * cnt) m;
         m = put_vec (buf + 0x7C0) 2 (buf + 0x520) 0x293 m
     in ioctlv_svc env m fd 0x6B 1 2 (buf + 0x7C0))"

definition FSA_RawWrite ::
  "service_env \<Rightarrow> u32 \<Rightarrow> u32 \<Rightarrow> u32 \<Rightarrow> u32 \<Rightarrow> u64 \<Rightarrow> u32 \<Rightarrow> service_state \<Rightarrow> service_state \<times> u32" where
  "FSA_RawWrite env fd data size_bytes cnt blocks_offset device_handle = with_iobuf env (\<lambda>buf m.
     let m = put_words buf [(0x08, ucast (drop_bit 32 blocks_offset)),
               (0x0C, ucast (blocks_offset AND 0xFFFFFFFF)), (0x10, cnt), (0x14, size_bytes),
               (0x18, device_handle)] m;
         m = put_vec (buf + 0x7C0) 0 buf 0x520 m;
         m = put_vec (buf + 0x7C0) 1 data (size_bytes * cnt) m;
         m = put_vec (buf + 0x7C0) 2 (buf + 0x520) 0x293 m
     in ioctlv_svc env m fd 0x6C 2 1 (buf + 0x7C0))"

definition FSA_Remove ::
  "service_env \<Rightarrow> u32 \<Rightarrow> u8 list \<Rightarrow> service_state \<Rightarrow> service_state \<times> u32" where
  "FSA_Remove env fd path = with_iobuf env (\<lambda>buf m.
     fsa_ioctl env fd 0x08 buf (path_request buf path [] m))"

section \<open>Lemmas\<close>

lemma with_iobuf_live: "live (fst (with_iobuf env body st)) = live st"
proof -
  obtain s' p where a: "allocIobuf env st = (s', p)" by force
  show ?thesis
    using iobuf.balanced [OF a, of "s'\<lparr>smem := fst (body p (smem s'))\<rparr>"]
    by (simp add: with_iobuf_def a split_beta)
qed

text \<open>The path field of a request is terminated: the block is zeroed and one byte is left.\<close>

lemma path_field:
  assumes "0 \<notin> set path" "word_offsets_ok 0x284 0x520 ws"
  shows "cstr (path_request buf path ws (memset m buf 0 IOBUF_SZ)) (buf + 4) = Some (take 0x27F path)"
proof (rule cstr_load)
  let ?s = "take 0x27F path"
  let ?m = "path_request buf path ws (memset m buf 0 IOBUF_SZ)"
  show "0 \<notin> set ?s" using assms(1) by (meson in_set_takeD)
  show "load_bytes ?m (buf + 4) (length ?s + 1) = ?s @ [0]"
  proof (rule nth_equalityI)
    fix k assume "k < length (load_bytes ?m (buf + 4) (length ?s + 1))"
    then have k: "k \<le> length ?s" "k \<le> 0x27F" by auto
    have a: "adist buf (buf + 4 + of_nat k) = 4 + k"
    proof -
      have "buf + 4 + of_nat k - buf = (of_nat (4 + k) :: u32)" by simp
      moreover have "unat (of_nat (4 + k) :: u32) = 4 + k" using k(2) by (intro unat_of_nat_u32) simp
      ultimately show ?thesis by (simp only:)
    qed
    have u: "unat (of_nat k :: u32) = k" using k(2) by (intro unat_of_nat_u32) simp
    have "?m (buf + 4 + of_nat k) = strncpy (memset m buf 0 IOBUF_SZ) (buf + 4) path 0x27F (buf + 4 + of_nat k)"
      unfolding path_request_def using a k(2) by (intro put_words_byte [OF assms(2)]) simp_all
    also have "\<dots> = (?s @ [0]) ! k"
      using k u a by (cases "k < 0x27F")
        (auto simp: strncpy_def store_bytes_def nth_append memset_def IOBUF_SZ_def min_def)
    finally show "load_bytes ?m (buf + 4) (length ?s + 1) ! k = (?s @ [0]) ! k"
      using k by (simp add: nth_load_bytes)
  qed simp
qed

lemma word_field:
  assumes "word_offsets_ok 0x284 0x520 ws" "(k, v) \<in> set ws"
  shows "read32 (path_request buf path ws m) (buf + of_nat k) = v"
  unfolding path_request_def using assms by (intro put_words_read [where lo = "0x284" and hi = "0x520"]) simp_all

section \<open>Properties\<close>

text \<open>
  A quota request reaches the service whole: from a path without zeros it sees a
  terminated string, the path cut to the 639 bytes of its field, and every word of the
  request at its offset; 64-bit sizes are split into halves that join again.
\<close>

lemma quota_request:
  assumes "0 \<notin> set path" and "allocIobuf env st = (st1, buf)"
  shows "\<exists>m. FSA_MakeQuota env fd path mode sz st =
      (let (m', ret) = ioctl_svc env m fd 0x1D buf 0x520 (buf + 0x520) 0x293
       in (freeIobuf (st1\<lparr>smem := m'\<rparr>) buf, ret)) \<and>
    cstr m (buf + 4) = Some (take 0x27F path) \<and> read32 m (buf + 0x284) = mode \<and>
    unat (read32 m (buf + 0x288)) * 2 ^ 32 + unat (read32 m (buf + 0x28C)) = unat sz"
proof -
  let ?ws = "[(0x284, mode), (0x288, ucast (drop_bit 32 sz)), (0x28C, ucast (sz AND 0xFFFFFFFF))]"
  let ?m = "path_request buf path ?ws (smem st1)"
  have ok: "word_offsets_ok 0x284 0x520 ?ws" by (simp add: word_offsets_ok_def)
  obtain m0 where "smem st1 = memset m0 buf 0 IOBUF_SZ"
    using assms(2) by (auto simp: allocIobuf_def Let_def split_beta)
  then have c: "cstr ?m (buf + 4) = Some (take 0x27F path)"
    using path_field [OF assms(1) ok] by simp
  have w: "read32 ?m (buf + of_nat k) = v" if "(k, v) \<in> set ?ws" for k v
    using that by (rule word_field [OF ok])
  have "read32 ?m (buf + 0x284) = mode" "read32 ?m (buf + 0x288) = ucast (drop_bit 32 sz)"
    "read32 ?m (buf + 0x28C) = ucast (sz AND 0xFFFFFFFF)"
    using w [of "0x284" mode] w [of "0x288"] w [of "0x28C"] by simp_all
  then show ?thesis
    using c split_u64 [of sz]
    by (intro exI [of _ ?m]) (simp add: FSA_MakeQuota_def with_iobuf_def assms(2) fsa_ioctl_def)
qed

definition demo_senv :: service_env where
  "demo_senv = \<lparr> alloc = (\<lambda>_ _. 0x10000000), alloc_aligned = (\<lambda>_ _ _. 0x20000000), ioctl_svc = (\<lambda>m _ _ _ _ _ _. (m, 0)),
     ioctlv_svc = (\<lambda>m _ _ _ _ _. (m, 0)), open_svc = (\<lambda>_. 3), close_svc = (\<lambda>_. 0) \<rparr>"

definition demo_sst :: service_state where
  "demo_sst = \<lparr> smem = (\<lambda>_. 0xFF), live = [] \<rparr>"

lemma quota_request_witness:
  "cstr (smem (fst (FSA_MakeQuota demo_senv 3 [47, 97] 0 (2 ^ 40 + 5) demo_sst))) 0x10000004 = Some [47, 97]"
proof -
  obtain st1 buf where a: "allocIobuf demo_senv demo_sst = (st1, buf)" by force
  have b: "buf = 0x10000000" using a by (auto simp: allocIobuf_def iosAlloc_def demo_senv_def Let_def)
  show ?thesis
    using quota_request [OF _ a, where path = "[47, 97]" and fd = 3 and mode = 0 and sz = "2 ^ 40 + 5"]
    by (auto simp: b demo_senv_def freeIobuf_def iosFree_def)
qed

section \<open>Requests with vectors and two strings\<close>

text \<open>A call in terms of the block that the heap hands out: memory as its body leaves it, nothing else.\<close>

lemma with_iobuf_run:
  "with_iobuf env body st =
     (let buf = alloc env (live st) (of_nat IOBUF_SZ); (m', ret) = body buf (memset (smem st) buf 0 IOBUF_SZ)
      in (st\<lparr>smem := m'\<rparr>, ret))"
  by (simp add: with_iobuf_def allocIobuf_def iosAlloc_def freeIobuf_def iosFree_def Let_def split_beta)

lemma put_words_append: "put_words buf (ws @ vs) m = put_words buf vs (put_words buf ws m)"
  by (simp add: put_words_def)

text \<open>The three entries of a vector behind the output block.\<close>

definition vec_words :: "u32 \<Rightarrow> u32 \<Rightarrow> u32 \<Rightarrow> (nat \<times> u32) list" where
  "vec_words buf data len =
     [(0x7C0, buf), (0x7C4, 0x520), (0x7CC, data), (0x7D0, len), (0x7D8, buf + 0x520), (0x7DC, 0x293)]"

lemma put_vec_words:
  "put_vec (buf + 0x7C0) 2 (buf + 0x520) 0x293 (put_vec (buf + 0x7C0) 1 data len (put_vec (buf + 0x7C0) 0 buf 0x520 m)) =
     put_words buf (vec_words buf data len) m"
proof -
  have "buf + 0x7C0 + of_nat k = buf + of_nat (0x7C0 + k)" for k by simp
  then show ?thesis by (simp only: put_vec_def vec_words_def put_words_Cons put_words_Nil) simp
qed

lemma words_read:
  assumes "word_offsets_ok lo hi ws" "hi < 2 ^ 31" "set xs \<subseteq> set ws"
  shows "map (\<lambda>k. read32 (put_words buf ws m) (buf + of_nat k)) (map fst xs) = map snd xs"
  using assms(3) by (induction xs) (auto intro: put_words_read [OF assms(1,2)])

lemma strncpy_byte:
  assumes "a + n \<le> 2 ^ 31" "i < 2 ^ 31"
  shows "strncpy m (buf + of_nat a) s n (buf + of_nat i) =
    (if a \<le> i \<and> i < a + n then if i - a < length s then s ! (i - a) else 0 else m (buf + of_nat i))"
proof -
  have "adist (buf + of_nat a) (buf + of_nat i) = (if a \<le> i then i - a else i + 2 ^ 32 - a)"
    using assms by (simp add: unat_sub_if' unat_of_nat_u32 word_le_nat_alt)
  then show ?thesis
    using assms by (auto simp: strncpy_def store_bytes_def nth_append min_def)
qed

lemma strncpy_beyond:
  assumes "a + n \<le> adist buf x"
  shows "strncpy m (buf + of_nat a) s n x = m x"
proof -
  have "adist (buf + of_nat a) x = adist buf x - a" using assms by (intro adist_offset) simp
  then show ?thesis using assms by (auto simp: strncpy_def store_bytes_def min_def)
qed

lemma string_field:
  assumes "0 \<notin> set s" "\<And>k. k \<le> length s \<Longrightarrow> m (buf + of_nat (a + k)) = (s @ [0]) ! k"
  shows "cstr m (buf + of_nat a) = Some s"
proof (rule cstr_load [OF _ assms(1)])
  show "load_bytes m (buf + of_nat a) (length s + 1) = s @ [0]"
    using assms(2) by (intro nth_equalityI) (simp_all add: nth_load_bytes algebra_simps less_Suc_eq_le)
qed

text \<open>A block with two strings, and words that avoid both: what the service reads.\<close>

lemma two_strings:
  fixes m :: mem and buf :: u32
  assumes "0 \<notin> set s" "length s \<le> 0x27F" "0 \<notin> set t" "length t \<le> n" "n \<le> 0x27F"
    and ws: "word_offsets_ok 0x504 0x828 ws"
  defines "m' \<equiv> put_words buf ws (strncpy (strncpy (memset m buf 0 IOBUF_SZ) (buf + 4) s 0x27F) (buf + 0x284) t n)"
  shows "cstr m' (buf + 4) = Some s" "cstr m' (buf + 0x284) = Some t"
    and "0x828 \<le> adist buf x \<Longrightarrow> m' x = m x"
proof -
  let ?z = "memset m buf 0 IOBUF_SZ"
  have z: "?z (buf + of_nat i) = 0" if "i < 0x828" for i
    using that by (simp add: memset_def IOBUF_SZ_def unat_of_nat_u32)
  have low: "m' (buf + of_nat i) = strncpy (strncpy ?z (buf + of_nat 4) s 0x27F) (buf + of_nat 0x284) t n (buf + of_nat i)"
    if "i < 0x504" for i
    unfolding m'_def using that
    by (subst put_words_byte [OF ws]) (simp_all add: unat_of_nat_u32)
  have "cstr m' (buf + of_nat 4) = Some s"
  proof (rule string_field [OF assms(1)])
    show "m' (buf + of_nat (4 + k)) = (s @ [0]) ! k" if "k \<le> length s" for k
      using that assms(2,5) low [of "4 + k"] z [of "4 + k"]
      by (auto simp: strncpy_byte nth_append simp del: of_nat_add of_nat_numeral)
  qed
  then show "cstr m' (buf + 4) = Some s" by simp
  have "cstr m' (buf + of_nat 0x284) = Some t"
  proof (rule string_field [OF assms(3)])
    show "m' (buf + of_nat (0x284 + k)) = (t @ [0]) ! k" if "k \<le> length t" for k
      using that assms(4,5) low [of "0x284 + k"] z [of "0x284 + k"]
      by (auto simp: strncpy_byte nth_append simp del: of_nat_add of_nat_numeral)
  qed
  then show "cstr m' (buf + 0x284) = Some t" by simp
  assume x: "0x828 \<le> adist buf x"
  have "m' x = strncpy (strncpy ?z (buf + of_nat 4) s 0x27F) (buf + of_nat 0x284) t n x"
    unfolding m'_def using x by (subst put_words_byte [OF ws]) simp_all
  then show "m' x = m x"
    using x assms(5) by (simp add: strncpy_beyond memset_def IOBUF_SZ_def del: of_nat_numeral)
qed

text \<open>
  C36. What the service is asked, and what the caller gets. Opening a file: the service finds the path
  and the mode as terminated strings in their fields, when they fit them; the caller gets the
  handle from behind the first word of the output, if it wants it.  Mounting: it finds the two paths,
  the flags and the length of the argument, and a vector of the block, the argument and the output block.
  Reading and writing a file: it finds size, count, handle and flags, and a vector in which
  the data are one output or one input.  Each of the calls makes one request, whose memory differs from the caller's only
  in the block; it returns the result of the service, and leaves memory as the service did and the heap
  as it was.
\<close>

theorem fsa_file_requests:
  fixes env :: service_env and st :: service_state and buf :: u32
  assumes "0 \<notin> set path" "length path \<le> 0x27F" "0 \<notin> set mode" "length mode \<le> 0x10"
    and "0 \<notin> set volume" "length volume \<le> 0x27F"
  defines "buf \<equiv> alloc env (live st) 0x828"
    and "block \<equiv> \<lambda>m. \<forall>x. 0x828 \<le> adist buf x \<longrightarrow> m x = smem st x"
    and "vecs \<equiv> \<lambda>m. map (\<lambda>k. read32 m (buf + of_nat k)) [0x7C0, 0x7C4, 0x7CC, 0x7D0, 0x7D8, 0x7DC]"
  shows "(\<exists>m. cstr m (buf + 4) = Some path \<and> cstr m (buf + 0x284) = Some mode \<and> block m \<and>
      FSA_OpenFile env fd path mode out st =
        (let (m', ret) = ioctl_svc env m fd 0x0E buf 0x520 (buf + 0x520) 0x293
         in (st\<lparr>smem := if out \<noteq> 0 then write32 m' out (read32 m' (buf + 0x524)) else m'\<rparr>, ret))) \<and>
    (\<exists>m. cstr m (buf + 4) = Some path \<and> cstr m (buf + 0x284) = Some volume \<and>
      read32 m (buf + 0x504) = flags \<and> read32 m (buf + 0x508) = len \<and>
      vecs m = [buf, 0x520, arg, len, buf + 0x520, 0x293] \<and> block m \<and>
      FSA_Mount env fd path volume flags arg len st =
        (let (m', ret) = ioctlv_svc env m fd 0x01 2 1 (buf + 0x7C0) in (st\<lparr>smem := m'\<rparr>, ret))) \<and>
    (\<exists>m. map (\<lambda>k. read32 m (buf + of_nat k)) [0x08, 0x0C, 0x14, 0x18] = [sz, cnt, handle, flags] \<and>
      vecs m = [buf, 0x520, data, sz * cnt, buf + 0x520, 0x293] \<and> block m \<and>
      FSA_ReadFile env fd data sz cnt handle flags st =
        (let (m', ret) = ioctlv_svc env m fd 0x0F 1 2 (buf + 0x7C0) in (st\<lparr>smem := m'\<rparr>, ret)) \<and>
      FSA_WriteFile env fd data sz cnt handle flags st =
        (let (m', ret) = ioctlv_svc env m fd 0x10 2 1 (buf + 0x7C0) in (st\<lparr>smem := m'\<rparr>, ret)))"
    (is "?open \<and> ?mount \<and> ?rw")
proof (intro conjI)
  let ?z = "memset (smem st) buf 0 IOBUF_SZ"
  have buf: "alloc env (live st) (of_nat IOBUF_SZ) = buf" by (simp add: buf_def IOBUF_SZ_def)
  note run = with_iobuf_run [of env _ st, unfolded buf Let_def]
  let ?o = "strncpy (strncpy ?z (buf + 4) path 0x27F) (buf + 0x284) mode 0x10"
  note o' = two_strings [OF assms(1-4), where ws = "[]" and buf = buf and m = "smem st", unfolded put_words_Nil]
  show ?open
    using o' by (intro exI [of _ ?o])
      (simp add: FSA_OpenFile_def run fsa_ioctl_def out_handle_def split_beta block_def word_offsets_ok_def)
  let ?ws = "[(0x504, flags), (0x508, len)] @ vec_words buf arg len"
  define m where "m = put_words buf ?ws (strncpy (strncpy ?z (buf + 4) path 0x27F) (buf + 0x284) volume 0x27F)"
  have ws: "word_offsets_ok 0x504 0x828 ?ws" by (simp add: word_offsets_ok_def vec_words_def)
  have w: "read32 m (buf + 0x504) = flags" "read32 m (buf + 0x508) = len" "vecs m = map snd (vec_words buf arg len)"
    using words_read [OF ws _ order_refl] by (simp_all add: m_def vecs_def vec_words_def del: put_words_Cons)
  have "FSA_Mount env fd path volume flags arg len st =
      (let (m', ret) = ioctlv_svc env m fd 0x01 2 1 (buf + 0x7C0) in (st\<lparr>smem := m'\<rparr>, ret))"
    unfolding m_def FSA_Mount_def run Let_def put_vec_words put_words_append [symmetric] by simp
  then show ?mount
    using two_strings [OF assms(1,2,5,6) _ ws, where buf = buf and m = "smem st", folded m_def] w
    by (intro exI [of _ m]) (simp add: block_def vec_words_def)
  let ?vs = "[(0x08, sz), (0x0C, cnt), (0x14, handle), (0x18, flags)] @ vec_words buf data (sz * cnt)"
  define r where "r = put_words buf ?vs ?z"
  have vs: "word_offsets_ok 0 0x828 ?vs" by (simp add: word_offsets_ok_def vec_words_def)
  have v: "map (\<lambda>k. read32 r (buf + of_nat k)) [0x08, 0x0C, 0x14, 0x18] = [sz, cnt, handle, flags]"
    "vecs r = map snd (vec_words buf data (sz * cnt))"
    using words_read [OF vs _ order_refl] by (simp_all add: r_def vecs_def vec_words_def del: put_words_Cons)
  have b: "block r"
    unfolding block_def r_def using put_words_byte [OF vs] by (simp add: memset_def IOBUF_SZ_def)
  have "FSA_ReadFile env fd data sz cnt handle flags st =
        (let (m', ret) = ioctlv_svc env r fd 0x0F 1 2 (buf + 0x7C0) in (st\<lparr>smem := m'\<rparr>, ret))"
    "FSA_WriteFile env fd data sz cnt handle flags st =
        (let (m', ret) = ioctlv_svc env r fd 0x10 2 1 (buf + 0x7C0) in (st\<lparr>smem := m'\<rparr>, ret))"
    unfolding r_def FSA_ReadFile_def FSA_WriteFile_def FSA_ReadWriteFile_def run Let_def put_vec_words
      put_words_append [symmetric] by simp_all
  then show ?rw
    using b v by (intro exI [of _ r]) (simp add: vec_words_def)
qed

text \<open>A service that knows one file, opened for reading.\<close>

definition demo_file_env :: service_env where
  "demo_file_env = demo_senv\<lparr>ioctl_svc := \<lambda>m fd cmd buf n out k.
     if cmd = 0x0E \<and> cstr m (buf + 4) = Some [47, 97] \<and> cstr m (buf + 0x284) = Some [114]
     then (write32 m (out + 4) 42, 0) else (m, 1)\<rparr>"

theorem fsa_file_requests_witness:
  "let (st', ret) = FSA_OpenFile demo_file_env 3 [47, 97] [114] 0x500 demo_sst
   in ret = 0 \<and> read32 (smem st') 0x500 = 42 \<and> live st' = []"
proof -
  have buf: "alloc demo_file_env (live demo_sst) 0x828 = 0x10000000"
    by (simp add: demo_file_env_def demo_senv_def)
  obtain m where m: "cstr m 0x10000004 = Some [47, 97]" "cstr m 0x10000284 = Some [114]"
    "FSA_OpenFile demo_file_env 3 [47, 97] [114] 0x500 demo_sst =
      (let (m', ret) = ioctl_svc demo_file_env m 3 0x0E 0x10000000 0x520 0x10000520 0x293
       in (demo_sst\<lparr>smem := write32 m' 0x500 (read32 m' 0x10000524)\<rparr>, ret))"
    using fsa_file_requests [where path = "[47, 97]" and mode = "[114]" and volume = "[]" and env = demo_file_env
        and st = demo_sst and fd = 3 and out = "0x500" and flags = 0 and len = 0 and arg = 0 and sz = 0 and cnt = 0
        and handle = 0 and data = 0, unfolded buf] by auto
  then show ?thesis by (simp add: demo_file_env_def demo_sst_def)
qed

end
