(* ===== verification/Socket.thy ===== *)
theory Socket
  imports Service
begin

text \<open>
  The two clients of the network: \<^verbatim>\<open>wafel_core/source/socket.c\<close> and
  \<^verbatim>\<open>services/net_ifmgr_ncl.c\<close>.  Each keeps the handle of its resource manager in a static
  variable, opened on the first use.  A call allocates a zeroed request block, stores the
  words of the request, and frees the block on the way out; sending and receiving go
  through a second, aligned block that carries the data.
\<close>

section \<open>The handle\<close>

record socket_state =
  srv :: service_state
  socket_handle :: u32

definition socketInit :: "service_env \<Rightarrow> socket_state \<Rightarrow> socket_state \<times> u32" where
  "socketInit env st =
     (if socket_handle st \<noteq> 0 then (st, socket_handle st)
      else let ret = open_svc env ''/dev/socket''
           in if 0 < sint ret then (st\<lparr>socket_handle := ret\<rparr>, ret) else (st, ret))"

definition socketExit :: "service_env \<Rightarrow> socket_state \<Rightarrow> socket_state \<times> u32" where
  "socketExit env st = (let ret = close_svc env (socket_handle st) in (st\<lparr>socket_handle := 0\<rparr>, ret))"

section \<open>The request block\<close>

definition sock_allocIobuf :: "service_env \<Rightarrow> u32 \<Rightarrow> service_state \<Rightarrow> service_state \<times> u32" where
  "sock_allocIobuf env sz st =
     (let (st, p) = iosAlloc env st sz
      in (if p \<noteq> 0 then st\<lparr>smem := memset (smem st) p 0 (unat sz)\<rparr> else st, p))"

definition sock_freeIobuf :: "service_state \<Rightarrow> u32 \<Rightarrow> service_state" where
  "sock_freeIobuf st p = iosFree st p"

interpretation sbuf: scratch "sock_allocIobuf env sz" sock_freeIobuf live for env sz
  by unfold_locales
     (auto simp: sock_allocIobuf_def sock_freeIobuf_def iosAlloc_def iosFree_def Let_def split: if_splits)

interpretation dbuf: scratch "\<lambda>st. iosAllocAligned env st sz al" sock_freeIobuf live for env sz al
  by unfold_locales (auto simp: iosAllocAligned_def sock_freeIobuf_def iosFree_def Let_def)

text \<open>The frame of the calls: the body sees the block and memory.\<close>

definition sock_call ::
  "service_env \<Rightarrow> u32 \<Rightarrow> (u32 \<Rightarrow> mem \<Rightarrow> mem \<times> u32) \<Rightarrow> socket_state \<Rightarrow> socket_state \<times> u32" where
  "sock_call env sz body st =
     (let (s, iobuf) = sock_allocIobuf env sz (srv st); (m, ret) = body iobuf (smem s)
      in (st\<lparr>srv := sock_freeIobuf (s\<lparr>smem := m\<rparr>) iobuf\<rparr>, ret))"

section \<open>The calls\<close>

definition socket :: "service_env \<Rightarrow> u32 \<Rightarrow> u32 \<Rightarrow> u32 \<Rightarrow> socket_state \<Rightarrow> socket_state \<times> u32" where
  "socket env domain type protocol st = sock_call env 0xC (\<lambda>iobuf m.
     ioctl_svc env (put_words iobuf [(0, domain), (4, type), (8, protocol)] m)
       (socket_handle st) 0x11 iobuf 0xC 0 0) st"

definition closesocket :: "service_env \<Rightarrow> u32 \<Rightarrow> socket_state \<Rightarrow> socket_state \<times> u32" where
  "closesocket env sockfd st = sock_call env 0x4 (\<lambda>iobuf m.
     ioctl_svc env (put_words iobuf [(0, sockfd)] m) (socket_handle st) 0x3 iobuf 0x4 0 0) st"

text \<open>
  The address length the service leaves in the block decides how much of it is copied to
  the caller, whatever the caller's buffer holds.
\<close>

definition accept :: "service_env \<Rightarrow> u32 \<Rightarrow> u32 \<Rightarrow> u32 \<Rightarrow> socket_state \<Rightarrow> socket_state \<times> u32" where
  "accept env sockfd addr addrlen st = sock_call env 0x18 (\<lambda>iobuf m.
     let m = write32 m iobuf sockfd
     in if addr \<noteq> 0 \<and> addrlen \<noteq> 0 \<and> read32 m addrlen = 0x10
        then let m = write32 m (iobuf + 20) (read32 m addrlen);
                 (m, ret) = ioctl_svc env m (socket_handle st) 0x1 iobuf 0x18 iobuf 0x18
             in if 0 \<le> sint ret
                then let m = memmove m addr (iobuf + 4) (unat (read32 m (iobuf + 20)))
                     in (write32 m addrlen (read32 m (iobuf + 20)), ret)
                else (m, ret)
        else ioctl_svc env (write32 m (iobuf + 20) 0x10) (socket_handle st) 0x1 iobuf 0x18 iobuf 0x18) st"

text \<open>\<open>bind\<close> and \<open>connect\<close> differ in the request number only.\<close>

definition addr_call ::
  "service_env \<Rightarrow> u32 \<Rightarrow> u32 \<Rightarrow> u32 \<Rightarrow> u32 \<Rightarrow> socket_state \<Rightarrow> socket_state \<times> u32" where
  "addr_call env cmd sockfd addr addrlen st =
     (if addrlen \<noteq> 0x10 then (st, - 1)
      else sock_call env 0x18 (\<lambda>iobuf m.
        let m = write32 m iobuf sockfd;
            m = memmove m (iobuf + 4) addr (unat addrlen);
            m = write32 m (iobuf + 20) addrlen
        in ioctl_svc env m (socket_handle st) cmd iobuf 0x18 0 0) st)"

definition sock_bind :: "service_env \<Rightarrow> u32 \<Rightarrow> u32 \<Rightarrow> u32 \<Rightarrow> socket_state \<Rightarrow> socket_state \<times> u32" where
  "sock_bind env = addr_call env 0x2"

definition connect :: "service_env \<Rightarrow> u32 \<Rightarrow> u32 \<Rightarrow> u32 \<Rightarrow> socket_state \<Rightarrow> socket_state \<times> u32" where
  "connect env = addr_call env 0x4"

definition listen :: "service_env \<Rightarrow> u32 \<Rightarrow> u32 \<Rightarrow> socket_state \<Rightarrow> socket_state \<times> u32" where
  "listen env sockfd backlog st = sock_call env 0x8 (\<lambda>iobuf m.
     ioctl_svc env (put_words iobuf [(0, sockfd), (4, backlog)] m) (socket_handle st) 0xA iobuf 0x8 0 0) st"

text \<open>
  The request of a transfer: two vectors at the head of the block, the words they point to
  at offset 0x30, and the data block.
\<close>

definition transfer_request :: "u32 \<Rightarrow> u32 \<Rightarrow> u32 \<Rightarrow> u32 \<Rightarrow> u32 \<Rightarrow> mem \<Rightarrow> mem" where
  "transfer_request iobuf data_buf sockfd len flags m =
     put_vec iobuf 1 data_buf len
       (put_vec iobuf 0 (iobuf + 0x30) 0x8
         (put_words iobuf [(0x30, sockfd), (0x34, flags)] m))"

definition recv :: "service_env \<Rightarrow> u32 \<Rightarrow> u32 \<Rightarrow> u32 \<Rightarrow> u32 \<Rightarrow> socket_state \<Rightarrow> socket_state \<times> u32" where
  "recv env sockfd buf len flags st =
     (if len = 0 then (st, - 101)
      else let (s, data_buf) = iosAllocAligned env (srv st) len 0x40
           in if data_buf = 0 then (st, - 100)
              else let (s, iobuf) = sock_allocIobuf env 0x38 s;
                       m = transfer_request iobuf data_buf sockfd len flags (smem s);
                       (m, ret) = ioctlv_svc env m (socket_handle st) 0xC 1 3 iobuf;
                       m = (if 0 < sint ret \<and> buf \<noteq> 0 then memmove m buf data_buf (unat ret) else m);
                       s = sock_freeIobuf (s\<lparr>smem := m\<rparr>) data_buf
                   in (st\<lparr>srv := sock_freeIobuf s iobuf\<rparr>, ret))"

definition send :: "service_env \<Rightarrow> u32 \<Rightarrow> u32 \<Rightarrow> u32 \<Rightarrow> u32 \<Rightarrow> socket_state \<Rightarrow> socket_state \<times> u32" where
  "send env sockfd buf len flags st =
     (if buf = 0 \<or> len = 0 then (st, - 101)
      else let (s, data_buf) = iosAllocAligned env (srv st) len 0x40
           in if data_buf = 0 then (st, - 100)
              else let (s, iobuf) = sock_allocIobuf env 0x38 s;
                       m = memmove (smem s) data_buf buf (unat len);
                       m = transfer_request iobuf data_buf sockfd len flags m;
                       (m, ret) = ioctlv_svc env m (socket_handle st) 0xE 4 0 iobuf;
                       s = sock_freeIobuf (s\<lparr>smem := m\<rparr>) data_buf
                   in (st\<lparr>srv := sock_freeIobuf s iobuf\<rparr>, ret))"

section \<open>The interface manager\<close>

record ifmgr_state =
  isrv :: service_state
  ifmgrncl_handle :: u32

definition ifmgrnclInit :: "service_env \<Rightarrow> ifmgr_state \<Rightarrow> ifmgr_state \<times> u32" where
  "ifmgrnclInit env st =
     (if ifmgrncl_handle st \<noteq> 0 then (st, ifmgrncl_handle st)
      else let ret = open_svc env ''/dev/net/ifmgr/ncl''
           in if 0 < sint ret then (st\<lparr>ifmgrncl_handle := ret\<rparr>, ret) else (st, ret))"

definition ifmgrnclExit :: "service_env \<Rightarrow> ifmgr_state \<Rightarrow> ifmgr_state \<times> u32" where
  "ifmgrnclExit env st = (let ret = close_svc env (ifmgrncl_handle st) in (st\<lparr>ifmgrncl_handle := 0\<rparr>, ret))"

definition IFMGRNCL_GetInterfaceStatus ::
  "service_env \<Rightarrow> u16 \<Rightarrow> u32 \<Rightarrow> ifmgr_state \<Rightarrow> ifmgr_state \<times> u32" where
  "IFMGRNCL_GetInterfaceStatus env interface_id out_status st =
     (let (s, iobuf1) = sock_allocIobuf env 0x2 (isrv st);
          (s, iobuf2) = sock_allocIobuf env 0x8 s;
          (m, ret) = ioctl_svc env (write16 (smem s) iobuf1 interface_id)
            (ifmgrncl_handle st) 0x14 iobuf1 0x2 iobuf2 0x8;
          m = (if ret = 0 \<and> out_status \<noteq> 0 then write16 m out_status (read16 m (iobuf2 + 4)) else m)
      in (st\<lparr>isrv := sock_freeIobuf (sock_freeIobuf (s\<lparr>smem := m\<rparr>) iobuf1) iobuf2\<rparr>, ret))"

section \<open>Lemmas\<close>

lemma live_free [simp]: "live (sock_freeIobuf s p) = remove1 p (live s)"
  by (simp add: sock_freeIobuf_def iosFree_def)

lemma smem_free [simp]: "smem (sock_freeIobuf s p) = smem s"
  by (simp add: sock_freeIobuf_def iosFree_def)

lemma sock_call_live [simp]: "live (srv (fst (sock_call env sz body st))) = live (srv st)"
proof -
  obtain s i where i: "sock_allocIobuf env sz (srv st) = (s, i)" by force
  then show ?thesis using sbuf.acq [OF i] by (simp add: sock_call_def split_beta)
qed

lemma recv_live [simp]: "live (srv (fst (recv env sockfd buf len flags st))) = live (srv st)"
proof -
  obtain s1 d where d: "iosAllocAligned env (srv st) len 0x40 = (s1, d)" by force
  obtain s2 i where i: "sock_allocIobuf env 0x38 s1 = (s2, i)" by force
  have "live s1 = d # live (srv st)" "live s2 = i # live s1"
    using dbuf.acq [OF d] sbuf.acq [OF i] by simp_all
  then show ?thesis by (auto simp: recv_def d i split_beta Let_def)
qed

lemma send_live [simp]: "live (srv (fst (send env sockfd buf len flags st))) = live (srv st)"
proof -
  obtain s1 d where d: "iosAllocAligned env (srv st) len 0x40 = (s1, d)" by force
  obtain s2 i where i: "sock_allocIobuf env 0x38 s1 = (s2, i)" by force
  have "live s1 = d # live (srv st)" "live s2 = i # live s1"
    using dbuf.acq [OF d] sbuf.acq [OF i] by simp_all
  then show ?thesis by (auto simp: send_def d i split_beta Let_def)
qed

lemma sock_call_handle [simp]: "socket_handle (fst (sock_call env sz body st)) = socket_handle st"
  by (simp add: sock_call_def split_beta)

text \<open>Distinct words of one block.\<close>

lemma disjoint_base:
  "n \<le> unat d \<Longrightarrow> k \<le> unat (- d) \<Longrightarrow> disjoint_regions b n (b + d) k"
  using disjoint_offset [of n d 0 k b] by simp

lemma disjoint_base':
  "n \<le> unat (- d) \<Longrightarrow> k \<le> unat d \<Longrightarrow> disjoint_regions (b + d) n b k"
  by (subst disjoint_sym) (rule disjoint_base)

lemma transfer_words:
  fixes iobuf data_buf sockfd len flags :: u32 and m :: mem
  defines "m' \<equiv> transfer_request iobuf data_buf sockfd len flags m"
  shows "read32 m' iobuf = iobuf + 0x30" "read32 m' (iobuf + 4) = 8"
    "read32 m' (iobuf + 12) = data_buf" "read32 m' (iobuf + 16) = len"
    "read32 m' (iobuf + 0x30) = sockfd" "read32 m' (iobuf + 0x34) = flags"
  unfolding m'_def transfer_request_def put_vec_def
  by (simp_all add: read32_write32_other disjoint_offset disjoint_base disjoint_base')

lemma transfer_other:
  assumes "0x38 \<le> adist iobuf x"
  shows "transfer_request iobuf data_buf sockfd len flags m x = m x"
proof -
  have o': "4 \<le> adist (iobuf + of_nat k) x" if "k + 4 \<le> 0x38" for k
    using assms that adist_offset [where k = k and a = iobuf and x = x] by simp
  show ?thesis
    unfolding transfer_request_def put_vec_def
    using o' [of 0] o' [of 4] o' [of 12] o' [of 16] o' [of 48] o' [of 52]
    by (simp add: write32_other)
qed

section \<open>Properties\<close>

text \<open>
  Sending: with the two blocks disjoint from each other, and the request block from
  the caller's buffer, the service sees the caller's bytes in the data block and a request
  of two vectors, the socket and the flags in the first and the data with its length in
  the second; the result is the service's and both blocks are freed.
\<close>

lemma send_request:
  assumes "buf \<noteq> 0" "len \<noteq> 0" "d \<noteq> 0"
    and d: "iosAllocAligned env (srv st) len 0x40 = (s1, d)"
    and i: "sock_allocIobuf env 0x38 s1 = (s2, i)"
    and dis: "disjoint_regions i 0x38 d (unat len)" "disjoint_regions i 0x38 buf (unat len)"
  shows "\<exists>m. send env sockfd buf len flags st =
      (let (m', ret) = ioctlv_svc env m (socket_handle st) 0xE 4 0 i
       in (st\<lparr>srv := (srv st)\<lparr>smem := m'\<rparr>\<rparr>, ret)) \<and>
    load_bytes m d (unat len) = load_bytes (smem (srv st)) buf (unat len) \<and>
    read32 m (i + 12) = d \<and> read32 m (i + 16) = len \<and>
    read32 m (read32 m i) = sockfd \<and> read32 m (read32 m i + 4) = flags \<and> read32 m (i + 4) = 8"
proof -
  let ?M = "memmove (smem s2) d buf (unat len)"
  let ?m = "transfer_request i d sockfd len flags ?M"
  have live: "live s1 = d # live (srv st)" "live s2 = i # live s1"
    using dbuf.acq [OF d] sbuf.acq [OF i] by simp_all
  have mem: "smem s2 x = smem (srv st) x" if "0x38 \<le> adist i x" for x
    using d i that by (auto simp: iosAllocAligned_def sock_allocIobuf_def iosAlloc_def Let_def memset_def)
  have "load_bytes ?m d (unat len) = load_bytes ?M d (unat len)"
    using dis(1) by (intro load_bytes_cong transfer_other)
      (auto simp: disjoint_sym intro: disjoint_regionsD)
  also have "\<dots> = load_bytes (smem s2) buf (unat len)"
    using unat_u32_less [of len] by (intro load_memmove) simp
  also have "\<dots> = load_bytes (smem (srv st)) buf (unat len)"
    using dis(2) by (intro load_bytes_cong mem) (auto simp: disjoint_sym intro: disjoint_regionsD)
  finally have data: "load_bytes ?m d (unat len) = load_bytes (smem (srv st)) buf (unat len)" .
  have w: "read32 ?m i = i + 0x30" "read32 ?m (i + 4) = 8" "read32 ?m (i + 12) = d"
    "read32 ?m (i + 16) = len" "read32 ?m (i + 0x30) = sockfd" "read32 ?m (i + 0x34) = flags"
    by (rule transfer_words)+
  have e: "i + 0x30 + 4 = i + (0x34 :: u32)" by simp
  have "send env sockfd buf len flags st =
      (let (m', ret) = ioctlv_svc env ?m (socket_handle st) 0xE 4 0 i
       in (st\<lparr>srv := (srv st)\<lparr>smem := m'\<rparr>\<rparr>, ret))"
    using assms(1-3) by (simp add: send_def d i live split_beta Let_def sock_freeIobuf_def iosFree_def)
  then show ?thesis
    by (intro exI [of _ ?m] conjI data w(2-4)) (simp_all only: w e)
qed

definition demo_net :: service_env where
  "demo_net = \<lparr> alloc = (\<lambda>_ _. 0x10000000), alloc_aligned = (\<lambda>_ _ _. 0x20000000),
     ioctl_svc = (\<lambda>m _ _ _ _ _ _. (m, 0)),
     ioctlv_svc = (\<lambda>m _ cmd _ _ v.
       if cmd = 0xC then (store_bytes m (read32 m (v + 12)) [104, 105], 2) else (m, read32 m (v + 16))),
     open_svc = (\<lambda>_. 3), close_svc = (\<lambda>_. 0) \<rparr>"

definition demo_net_state :: socket_state where
  "demo_net_state = \<lparr> srv = \<lparr> smem = (\<lambda>_. 0), live = [] \<rparr>, socket_handle = 3 \<rparr>"

lemma demo_blocks:
  "iosAllocAligned demo_net (srv demo_net_state) n 0x40 = (\<lparr> smem = (\<lambda>_. 0), live = [0x20000000] \<rparr>, 0x20000000)"
  "sock_allocIobuf demo_net 0x38 \<lparr> smem = (\<lambda>_. 0), live = [0x20000000] \<rparr> =
    (\<lparr> smem = memset (\<lambda>_. 0) 0x10000000 0 0x38, live = [0x10000000, 0x20000000] \<rparr>, 0x10000000)"
  by (simp_all add: iosAllocAligned_def sock_allocIobuf_def iosAlloc_def demo_net_def demo_net_state_def)

theorem send_request_witness:
  "snd (send demo_net 5 0x500 4 0 demo_net_state) = 4"
  using send_request [OF _ _ _ demo_blocks(1) demo_blocks(2), where buf = "0x500" and len = 4 and sockfd = 5 and flags = 0]
  by (auto simp: disjoint_regions_def demo_net_def split_beta)

text \<open>
  C37. Receiving: the service gets a request of the same shape; what it puts in the data
  block, as many bytes as its positive result says, arrives in the caller's buffer when
  there is one; no other byte changes, the result is the service's, and both blocks are
  freed.
\<close>

theorem recv_delivers:
  assumes "len \<noteq> 0" "d \<noteq> 0"
    and d: "iosAllocAligned env (srv st) len 0x40 = (s1, d)"
    and i: "sock_allocIobuf env 0x38 s1 = (s2, i)"
  shows "\<exists>m. (let (m', ret) = ioctlv_svc env m (socket_handle st) 0xC 1 3 i;
           (st', r) = recv env sockfd buf len flags st;
           n = (if 0 < sint ret \<and> buf \<noteq> 0 then unat ret else 0)
       in r = ret \<and> live (srv st') = live (srv st) \<and> socket_handle st' = socket_handle st \<and>
          load_bytes (smem (srv st')) buf n = load_bytes m' d n \<and>
          (\<forall>x. n \<le> adist buf x \<longrightarrow> smem (srv st') x = m' x)) \<and>
    read32 m (i + 12) = d \<and> read32 m (i + 16) = len \<and>
    read32 m (read32 m i) = sockfd \<and> read32 m (read32 m i + 4) = flags \<and> read32 m (i + 4) = 8"
proof -
  let ?m = "transfer_request i d sockfd len flags (smem s2)"
  have w: "read32 ?m i = i + 0x30" "read32 ?m (i + 4) = 8" "read32 ?m (i + 12) = d"
    "read32 ?m (i + 16) = len" "read32 ?m (i + 0x30) = sockfd" "read32 ?m (i + 0x34) = flags"
    by (rule transfer_words)+
  have e: "i + 0x30 + 4 = i + (0x34 :: u32)" by simp
  obtain m' ret where svc: "ioctlv_svc env ?m (socket_handle st) 0xC 1 3 i = (m', ret)" by force
  obtain st' r where res: "recv env sockfd buf len flags st = (st', r)" by force
  let ?n = "if 0 < sint ret \<and> buf \<noteq> 0 then unat ret else 0"
  have mem: "smem (srv st') = memmove m' buf d ?n" and "r = ret" "socket_handle st' = socket_handle st"
    using res assms(1,2) by (auto simp: recv_def d i svc Let_def memmove_def)
  moreover have "live (srv st') = live (srv st)"
    using recv_live [of env sockfd buf len flags st] by (simp add: res)
  moreover have "load_bytes (memmove m' buf d ?n) buf ?n = load_bytes m' d ?n"
    using unat_u32_less [of ret] by (intro load_memmove) simp
  moreover have "memmove m' buf d ?n x = m' x" if "?n \<le> adist buf x" for x
    using that by (rule memmove_other)
  ultimately have "let (m', ret) = ioctlv_svc env ?m (socket_handle st) 0xC 1 3 i;
           (st', r) = recv env sockfd buf len flags st;
           n = (if 0 < sint ret \<and> buf \<noteq> 0 then unat ret else 0)
       in r = ret \<and> live (srv st') = live (srv st) \<and> socket_handle st' = socket_handle st \<and>
          load_bytes (smem (srv st')) buf n = load_bytes m' d n \<and>
          (\<forall>x. n \<le> adist buf x \<longrightarrow> smem (srv st') x = m' x)"
    unfolding svc res Let_def prod.case by (simp only: mem) simp
  then show ?thesis
    by (intro exI [of _ ?m] conjI w(2-4)) (simp_all only: w e)
qed

theorem recv_delivers_witness:
  "load_bytes (smem (srv (fst (recv demo_net 5 0x500 16 0 demo_net_state)))) 0x500 2 = [104, 105]"
proof -
  have bytes: "load_bytes (store_bytes m 0x20000000 [104, 105]) 0x20000000 2 = [104, 105]" for m
    using load_store_bytes [of "[104, 105]" m "0x20000000"] by (simp flip: numeral_2_eq_2)
  show ?thesis
    using recv_delivers [OF _ _ demo_blocks(1) demo_blocks(2), where buf = "0x500" and len = 16 and sockfd = 5 and flags = 0]
    by (auto simp: demo_net_def Let_def split_beta bytes)
qed

end
