(* ===== verification/Serial.thy ===== *)
theory Serial
  imports Latte CString "HOL-Library.Monad_Syntax"
begin

text \<open>
  \<^verbatim>\<open>latte/serial.c\<close>: the serial console over the debug pins.  Pin 23 is the clock, pin 16
  the data, pin 22 the input; a frame is eight clocked bits, most significant first, and a
  terminator.  A received byte goes to a buffer that the program empties in one piece.
  Between the levels the program waits with \<open>udelay\<close>, so an operation is \<open>None\<close> when the timer
  stands still.
\<close>

record serial =
  shw :: hw
  serial_buffer :: "u8 list"
  serial_len :: u16
  allow_zeros :: bool
  serial_line :: u32
  clear_saved :: bool

definition serial_inv :: "serial \<Rightarrow> bool" where
  "serial_inv st \<longleftrightarrow> length (serial_buffer st) = 256 \<and> unat (serial_len st) \<le> 255"

section \<open>Operations\<close>

definition SERIAL_DELAY :: u32 where "SERIAL_DELAY = 1"

definition serial_force_terminate :: "device \<Rightarrow> hw \<Rightarrow> hw option" where
  "serial_force_terminate dev h =
     do { h \<leftarrow> udelay dev SERIAL_DELAY (gpio_debug_serial_send dev 0x0F h);
          h \<leftarrow> udelay dev SERIAL_DELAY (gpio_debug_serial_send dev 0x8F h);
          udelay dev SERIAL_DELAY (gpio_debug_serial_send dev 0x00 (gpio_debug_serial_send dev 0x0F h)) }"

text \<open>One bit: the value on the data pin, then the rising clock, then the input.\<close>

definition send_bit :: "device \<Rightarrow> u8 \<Rightarrow> nat \<Rightarrow> hw \<times> u8 \<times> u8 \<Rightarrow> (hw \<times> u8 \<times> u8) option" where
  "send_bit dev val j s =
     (let (h, read_val, valid) = s; b = (if bit val j then 1 else 0)
      in do { h \<leftarrow> udelay dev SERIAL_DELAY (gpio_debug_serial_send dev b h);
              let (h, valid) = (if j = 7 then gpio_debug_serial_read dev h else (h, valid));
              h \<leftarrow> udelay dev SERIAL_DELAY (gpio_debug_serial_send dev (0x80 OR b) h);
              let (h, r) = gpio_debug_serial_read dev h;
              Some (h, push_bit 1 read_val OR r, valid) })"

definition serial_send :: "device \<Rightarrow> u8 \<Rightarrow> serial \<Rightarrow> serial option" where
  "serial_send dev val st =
     (let (h, cookie) = irq_kill (shw st)
      in do { (h, read_val, valid) \<leftarrow> fold_opt (send_bit dev val) [7, 6, 5, 4, 3, 2, 1, 0] (h, 0, 0);
              let st = (if (read_val \<noteq> 0 \<or> allow_zeros st) \<and> valid \<noteq> 0 \<and> unat (serial_len st) < 256 - 1
                then st\<lparr>serial_buffer := (serial_buffer st)[unat (serial_len st) := read_val],
                        serial_len := serial_len st + 1\<rparr>
                else st);
              h \<leftarrow> serial_force_terminate dev h;
              Some (st\<lparr>shw := irq_restore cookie h\<rparr>) })"

text \<open>The word is sent in the order of its bytes in memory, big endian.\<close>

definition serial_send_u32 :: "device \<Rightarrow> u32 \<Rightarrow> serial \<Rightarrow> serial option" where
  "serial_send_u32 dev val st =
     fold_opt (serial_send dev)
       [ucast (drop_bit 24 val), ucast (drop_bit 16 val), ucast (drop_bit 8 val), ucast val] st"

definition serial_in_read :: "serial \<Rightarrow> serial \<times> u8 list \<times> u16" where
  "serial_in_read st =
     (let out = replicate 256 0;
          out = take (unat (serial_len st)) (serial_buffer st) @ drop (unat (serial_len st)) out;
          out = out[255 := 0]
      in (st\<lparr>serial_len := 0\<rparr>, out, serial_len st))"

definition serial_line_inc :: "serial \<Rightarrow> serial" where
  "serial_line_inc st = st\<lparr>serial_line := serial_line st + 1\<rparr>"

definition serial_line_noscroll :: "serial \<Rightarrow> serial" where
  "serial_line_noscroll st = st\<lparr>serial_line := 0\<rparr>"

definition serial_poll :: "device \<Rightarrow> serial \<Rightarrow> serial option" where
  "serial_poll dev st = serial_send dev 0 st"

definition serial_allow_zeros :: "serial \<Rightarrow> serial" where
  "serial_allow_zeros st = st\<lparr>allow_zeros := True\<rparr>"

definition serial_disallow_zeros :: "serial \<Rightarrow> serial" where
  "serial_disallow_zeros st = st\<lparr>allow_zeros := False\<rparr>"

definition send_char :: "device \<Rightarrow> u8 \<Rightarrow> serial \<Rightarrow> serial option" where
  "send_char dev c st = serial_send dev c (if c = 10 then serial_line_inc st else st)"

definition serial_send_str :: "device \<Rightarrow> u8 list \<Rightarrow> serial \<Rightarrow> serial option" where
  "serial_send_str dev s st =
     (let (h, cookie) = irq_kill (shw st)
      in do { st \<leftarrow> fold_opt (send_char dev) s (st\<lparr>shw := h\<rparr>);
              Some (st\<lparr>shw := irq_restore cookie (shw st)\<rparr>) })"

text \<open>\<^verbatim>\<open>serial_printf\<close> with a formatted text: what \<^verbatim>\<open>vsnprintf\<close> leaves of it in 0x800 bytes.\<close>

definition serial_printf :: "device \<Rightarrow> u8 list \<Rightarrow> serial \<Rightarrow> serial option" where
  "serial_printf dev s = serial_send_str dev (take 0x7FF s)"

definition serial_clear :: "device \<Rightarrow> serial \<Rightarrow> serial option" where
  "serial_clear dev st =
     (let lines = serial_line st
      in do { st \<leftarrow> (if clear_saved st then Some st
                else do { st \<leftarrow> fold_opt (\<lambda>_. serial_send dev 10) [0..<256] st;
                          st \<leftarrow> serial_printf dev [27, 91, 115] st;
                          Some (st\<lparr>clear_saved := True\<rparr>) });
              st \<leftarrow> serial_printf dev [27, 91, 117] st;
              st \<leftarrow> fold_opt (\<lambda>_. serial_printf dev [10]) [0..<nat (sint lines)] st;
              st \<leftarrow> serial_printf dev [27, 91, 72, 27, 91, 50, 74] st;
              Some (st\<lparr>serial_line := 0\<rparr>) })"

text \<open>\<^verbatim>\<open>serial_fatal\<close> repeats this frame for ever.\<close>

definition fatal_frame :: "u8 list" where
  "fatal_frame = concat (replicate 8 [0x55, 0xAA]) @ [0xF0, 0x0F, 0xAA, 0xAA]"

definition serial_fatal_rounds :: "device \<Rightarrow> nat \<Rightarrow> serial \<Rightarrow> serial option" where
  "serial_fatal_rounds dev n st = fold_opt (\<lambda>_. fold_opt (serial_send dev) fatal_frame) [0..<n] st"

section \<open>The levels of the console's pins\<close>

text \<open>
  What the program has put on the seven output pins of the console, one entry for each store to the
  output register, in their order: the byte has the data in bit 0 and the clock in bit 7; the input pin
  is masked out.
\<close>

fun pin_levels :: "io list \<Rightarrow> u8 list" where
  "pin_levels [] = []"
| "pin_levels (WrW a v # h) =
     (if a = LT_GPIO_OUT then pin_levels h @ [ucast (drop_bit 16 v) AND 0xBF] else pin_levels h)"
| "pin_levels (_ # h) = pin_levels h"

definition byte_levels :: "u8 \<Rightarrow> nat \<Rightarrow> u8 list" where
  "byte_levels val j = (let b = (if bit val j then 1 else 0) in [b, 0x80 OR b])"

definition frame_levels :: "u8 \<Rightarrow> u8 list" where
  "frame_levels val = concat (map (byte_levels val) [7, 6, 5, 4, 3, 2, 1, 0]) @ [0x0F, 0x8F, 0x0F, 0x00]"

section \<open>Lemmas\<close>

lemma serial_send_levels:
  "pin_levels (hist (gpio_debug_serial_send dev b h)) = pin_levels (hist h) @ [b AND 0xBF]"
  "cpsr (gpio_debug_serial_send dev b h) = cpsr h"
proof -
  have "ucast (drop_bit 16 (v AND NOT (push_bit 16 (ucast m)) OR push_bit 16 (ucast b)) :: u32) AND m = b AND m" for v and m :: u8
    by (rule bit_word_eqI) (auto simp: bit_simps)
  from this [of _ "0xBF"] have "ucast (drop_bit 16 (v AND NOT 0xBF0000 OR push_bit 16 (ucast b)) :: u32) AND 0xBF = b AND (0xBF :: u8)" for v
    by simp
  then show "pin_levels (hist (gpio_debug_serial_send dev b h)) = pin_levels (hist h) @ [b AND 0xBF]"
    by (simp add: gpio_debug_serial_send_def io_simps gpio_regs GP_DEBUG_MASK_def GP_DEBUG_SERIAL_MASK_def)
  show "cpsr (gpio_debug_serial_send dev b h) = cpsr h"
    by (simp add: gpio_debug_serial_send_def Let_def)
qed

lemma serial_read_levels:
  "pin_levels (hist (fst (gpio_debug_serial_read dev h))) = pin_levels (hist h)"
  "cpsr (fst (gpio_debug_serial_read dev h)) = cpsr h"
  by (simp_all add: gpio_debug_serial_read_def io_simps gpio_regs Let_def split_beta)

lemma udelay_levels:
  assumes "timer_runs dev"
  shows "\<exists>h'. udelay dev d h = Some h' \<and> pin_levels (hist h') = pin_levels (hist h) \<and> cpsr h' = cpsr h"
proof -
  have "pin_levels ((polled dev ^^ n) g) = pin_levels g" for n g
    by (induction n) (simp_all add: polled_def)
  then show ?thesis using udelay_ends [OF assms, of d h] by auto
qed

lemma send_bit_levels:
  assumes "timer_runs dev"
  shows "\<exists>h' r' v'. send_bit dev val j (h, r, v) = Some (h', r', v') \<and>
    pin_levels (hist h') = pin_levels (hist h) @ byte_levels val j \<and> cpsr h' = cpsr h"
proof -
  let ?b = "if bit val j then 1 else 0 :: u8"
  obtain h1 where h1: "udelay dev SERIAL_DELAY (gpio_debug_serial_send dev ?b h) = Some h1"
    "pin_levels (hist h1) = pin_levels (hist h) @ [?b AND 0xBF]" "cpsr h1 = cpsr h"
    using udelay_levels [OF assms, of SERIAL_DELAY "gpio_debug_serial_send dev ?b h"] by (auto simp: serial_send_levels)
  obtain h2 v2 where h2: "(if j = 7 then gpio_debug_serial_read dev h1 else (h1, v)) = (h2, v2)" by force
  have h2': "pin_levels (hist h2) = pin_levels (hist h1)" "cpsr h2 = cpsr h1"
    using h2 serial_read_levels [of dev h1] by (auto split: if_splits)
  obtain h3 where h3: "udelay dev SERIAL_DELAY (gpio_debug_serial_send dev (0x80 OR ?b) h2) = Some h3"
    "pin_levels (hist h3) = pin_levels (hist h2) @ [(0x80 OR ?b) AND 0xBF]" "cpsr h3 = cpsr h2"
    using udelay_levels [OF assms, of SERIAL_DELAY "gpio_debug_serial_send dev (0x80 OR ?b) h2"]
    by (auto simp: serial_send_levels)
  obtain h4 r4 where h4: "gpio_debug_serial_read dev h3 = (h4, r4)" by force
  have h4': "pin_levels (hist h4) = pin_levels (hist h3)" "cpsr h4 = cpsr h3"
    using serial_read_levels [of dev h3] by (simp_all add: h4)
  have m: "[?b AND 0xBF, (0x80 OR ?b) AND 0xBF] = byte_levels val j" by (simp add: byte_levels_def)
  have "send_bit dev val j (h, r, v) = Some (h4, push_bit 1 r OR r4, v2)"
    unfolding send_bit_def Let_def prod.case h1(1) Option.bind.bind_lunit h2 h3(1) h4 by simp
  moreover have "pin_levels (hist h4) = pin_levels (hist h) @ byte_levels val j"
    unfolding m [symmetric] by (simp only: h4' h3 h2' h1 append.assoc append_Cons append_Nil)
  ultimately show ?thesis using h4'(2) h3(3) h2'(2) h1(3) by simp
qed

lemma send_bits_levels:
  assumes "timer_runs dev"
  shows "\<exists>h' r' v'. fold_opt (send_bit dev val) js (h, r, v) = Some (h', r', v') \<and>
    pin_levels (hist h') = pin_levels (hist h) @ concat (map (byte_levels val) js) \<and> cpsr h' = cpsr h"
proof (induction js arbitrary: h r v)
  case (Cons j js)
  obtain h1 r1 v1 where s: "send_bit dev val j (h, r, v) = Some (h1, r1, v1)"
    "pin_levels (hist h1) = pin_levels (hist h) @ byte_levels val j" "cpsr h1 = cpsr h"
    using send_bit_levels [OF assms] by blast
  then show ?case using Cons.IH [of h1 r1 v1] by auto
qed simp

lemma terminate_levels:
  assumes "timer_runs dev"
  shows "\<exists>h'. serial_force_terminate dev h = Some h' \<and>
    pin_levels (hist h') = pin_levels (hist h) @ [0x0F, 0x8F, 0x0F, 0x00] \<and> cpsr h' = cpsr h"
proof -
  note d = udelay_levels [OF assms, of SERIAL_DELAY]
  obtain h1 where h1: "udelay dev SERIAL_DELAY (gpio_debug_serial_send dev 0x0F h) = Some h1"
    "pin_levels (hist h1) = pin_levels (hist h) @ [0x0F]" "cpsr h1 = cpsr h"
    using d [of "gpio_debug_serial_send dev 0x0F h"] by (auto simp: serial_send_levels)
  obtain h2 where h2: "udelay dev SERIAL_DELAY (gpio_debug_serial_send dev 0x8F h1) = Some h2"
    "pin_levels (hist h2) = pin_levels (hist h1) @ [0x8F]" "cpsr h2 = cpsr h1"
    using d [of "gpio_debug_serial_send dev 0x8F h1"] by (auto simp: serial_send_levels)
  show ?thesis
    using d [of "gpio_debug_serial_send dev 0x00 (gpio_debug_serial_send dev 0x0F h2)"] h1 h2
    by (auto simp: serial_force_terminate_def serial_send_levels)
qed

lemma serial_send_frame:
  assumes "timer_runs dev"
  shows "\<exists>st'. serial_send dev val st = Some st' \<and>
    pin_levels (hist (shw st')) = pin_levels (hist (shw st)) @ frame_levels val \<and>
    cpsr (shw st') = cpsr (shw st) \<and> serial_line st' = serial_line st"
proof -
  obtain h c where k: "irq_kill (shw st) = (h, c)" by force
  have hk: "hist h = hist (shw st)" using k by (auto simp: irq_kill_def)
  obtain h1 r v where f: "fold_opt (send_bit dev val) [7, 6, 5, 4, 3, 2, 1, 0] (h, 0, 0) = Some (h1, r, v)"
    "pin_levels (hist h1) = pin_levels (hist h) @ concat (map (byte_levels val) [7, 6, 5, 4, 3, 2, 1, 0])"
    "cpsr h1 = cpsr h"
    using send_bits_levels [OF assms] by blast
  obtain h2 where h2: "serial_force_terminate dev h1 = Some h2"
    "pin_levels (hist h2) = pin_levels (hist h1) @ [0x0F, 0x8F, 0x0F, 0x00]" "cpsr h2 = cpsr h1"
    using terminate_levels [OF assms] by blast
  have "cpsr (irq_restore c h2) = cpsr (shw st)"
    by (rule irq_bracket [OF k]) (simp add: h2(3) f(3))
  moreover have "hist (irq_restore c h2) = hist h2" by (simp add: irq_restore_def)
  ultimately show ?thesis
    using f h2 hk unfolding serial_send_def k Let_def prod.case f(1) Option.bind.bind_lunit h2(1)
    by (simp add: frame_levels_def)
qed

lemma send_chars_frame:
  assumes "timer_runs dev"
  shows "\<exists>st'. fold_opt (send_char dev) s st = Some st' \<and>
    pin_levels (hist (shw st')) = pin_levels (hist (shw st)) @ concat (map frame_levels s) \<and>
    cpsr (shw st') = cpsr (shw st) \<and> serial_line st' = serial_line st + of_nat (count_list s 10)"
proof (induction s arbitrary: st)
  case (Cons c s)
  let ?st = "if c = 10 then serial_line_inc st else st"
  have "shw ?st = shw st" "serial_line ?st = serial_line st + (if c = 10 then 1 else 0)"
    by (simp_all add: serial_line_inc_def)
  then obtain st1 where st1: "send_char dev c st = Some st1"
    "pin_levels (hist (shw st1)) = pin_levels (hist (shw st)) @ frame_levels c"
    "cpsr (shw st1) = cpsr (shw st)" "serial_line st1 = serial_line st + (if c = 10 then 1 else 0)"
    using serial_send_frame [OF assms, of c ?st] by (auto simp: send_char_def)
  then show ?case using Cons.IH [of st1] by auto
qed simp

text \<open>The levels of a text determine the text.\<close>

lemma frame_inj: "frame_levels c = frame_levels d \<longleftrightarrow> c = d"
proof
  assume eq: "frame_levels c = frame_levels d"
  have i: "(if p then 1 else 0 :: u8) = (if q then 1 else 0) \<longleftrightarrow> p = q" for p q by simp
  have same: "\<forall>j \<in> set [7, 6, 5, 4, 3, 2, 1, 0]. bit c j = bit d j"
    using eq by (simp add: frame_levels_def byte_levels_def Let_def i)
  show "c = d"
  proof (rule bit_word_eqI)
    fix n assume "n < LENGTH(8)"
    then have "n \<in> set [7, 6, 5, 4, 3, 2, 1, 0]" by (simp, arith)
    with same show "bit c n = bit d n" by blast
  qed
qed simp

lemma frames_inj: "concat (map frame_levels s) = concat (map frame_levels t) \<longleftrightarrow> s = t"
proof (induction s arbitrary: t)
  case Nil
  then show ?case by (cases t) (simp_all add: frame_levels_def)
next
  case (Cons c s)
  have "length (frame_levels x) = 20" for x by (simp add: frame_levels_def byte_levels_def Let_def)
  moreover have "frame_levels x \<noteq> []" for x by (simp add: frame_levels_def)
  ultimately show ?case using Cons.IH by (cases t) (simp_all add: frame_inj)
qed

section \<open>Properties\<close>

text \<open>
  C38. A text sent over the console, with a timer that runs: the call returns; whatever the other registers
  return, it has put on the pins, for each byte in order, the eight bits from the most significant one,
  each with the clock low and then high, and the terminator; so another text would have given
  other levels.  Each newline counts one line, and the interrupt mask is what it was.
\<close>

theorem serial_text_levels:
  assumes "timer_runs dev"
  shows "\<exists>st'. serial_send_str dev s st = Some st' \<and>
    pin_levels (hist (shw st')) = pin_levels (hist (shw st)) @
      concat (map (\<lambda>c. concat (map (\<lambda>j. let b = (if bit c j then 1 else 0) in [b, 0x80 OR b]) [7, 6, 5, 4, 3, 2, 1, 0])
        @ [0x0F, 0x8F, 0x0F, 0x00]) s) \<and>
    serial_line st' = serial_line st + of_nat (count_list s 10) \<and>
    cpsr (shw st') = cpsr (shw st) \<and>
    (\<forall>t st2. serial_send_str dev t st = Some st2 \<and> pin_levels (hist (shw st2)) = pin_levels (hist (shw st')) \<longrightarrow> t = s)"
proof -
  obtain h c where k: "irq_kill (shw st) = (h, c)" by force
  have hk: "hist h = hist (shw st)" using k by (auto simp: irq_kill_def)
  have run: "\<exists>st'. serial_send_str dev s st = Some st' \<and>
      pin_levels (hist (shw st')) = pin_levels (hist (shw st)) @ concat (map frame_levels s) \<and>
      serial_line st' = serial_line st + of_nat (count_list s 10) \<and> cpsr (shw st') = cpsr (shw st)" for s
  proof -
    obtain st1 where st1: "fold_opt (send_char dev) s (st\<lparr>shw := h\<rparr>) = Some st1"
      "pin_levels (hist (shw st1)) = pin_levels (hist h) @ concat (map frame_levels s)"
      "cpsr (shw st1) = cpsr h" "serial_line st1 = serial_line st + of_nat (count_list s 10)"
      using send_chars_frame [OF assms, of s "st\<lparr>shw := h\<rparr>"] by auto
    have "cpsr (irq_restore c (shw st1)) = cpsr (shw st)" by (rule irq_bracket [OF k st1(3)])
    moreover have "hist (irq_restore c (shw st1)) = hist (shw st1)" by (simp add: irq_restore_def)
    ultimately show ?thesis
      using st1 hk unfolding serial_send_str_def k Let_def prod.case st1(1) Option.bind.bind_lunit by simp
  qed
  have fr: "frame_levels = (\<lambda>c. concat (map (\<lambda>j. let b = (if bit c j then 1 else 0) in [b, 0x80 OR b]) [7, 6, 5, 4, 3, 2, 1, 0])
      @ [0x0F, 0x8F, 0x0F, 0x00])"
    by (simp add: fun_eq_iff frame_levels_def byte_levels_def)
  obtain st' where st': "serial_send_str dev s st = Some st'"
    "pin_levels (hist (shw st')) = pin_levels (hist (shw st)) @ concat (map frame_levels s)"
    "serial_line st' = serial_line st + of_nat (count_list s 10)" "cpsr (shw st') = cpsr (shw st)"
    using run by blast
  have "t = s" if "serial_send_str dev t st = Some st2" "pin_levels (hist (shw st2)) = pin_levels (hist (shw st'))" for t st2
    using run [of t] that st'(2) by (auto simp: frames_inj)
  then show ?thesis
    using st' unfolding fr [symmetric] by (intro exI [of _ st']) auto
qed

text \<open>A device whose timer ticks with every access, and whose other registers keep what is stored.\<close>

definition demo_device :: device where
  "demo_device = \<lparr> dev32 = (\<lambda>h a. if a = LT_TIMER then of_nat (length h) else stored 0 h a), dev16 = (\<lambda>_ _. 0) \<rparr>"

lemma demo_timer: "timer_runs demo_device"
  unfolding timer_runs_def
proof (intro allI conjI)
  fix g
  show "timer demo_device (polled demo_device g) \<in> {timer demo_device g, timer demo_device g + 1}"
    by (simp add: polled_def demo_device_def)
  show "\<exists>n. timer demo_device ((polled demo_device ^^ n) g) \<noteq> timer demo_device g"
    by (intro exI [of _ 1]) (simp add: polled_def demo_device_def)
qed

definition demo_serial :: serial where
  "demo_serial = \<lparr> shw = \<lparr> hist = [], cpsr = 0x13 \<rparr>, serial_buffer = 72 # 105 # replicate 254 0,
     serial_len = 2, allow_zeros = False, serial_line = 0, clear_saved = False \<rparr>"

theorem serial_text_levels_witness:
  "\<exists>st'. serial_send_str demo_device [10] demo_serial = Some st' \<and> serial_line st' = 1 \<and>
     pin_levels (hist (shw st')) = [0, 0x80, 0, 0x80, 0, 0x80, 0, 0x80, 1, 0x81, 0, 0x80, 1, 0x81, 0, 0x80, 0x0F, 0x8F, 0x0F, 0]"
proof -
  obtain st' where "serial_send_str demo_device [10] demo_serial = Some st'"
    "pin_levels (hist (shw st')) = pin_levels (hist (shw demo_serial)) @
      concat (map (\<lambda>c. concat (map (\<lambda>j. let b = (if bit c j then 1 else 0) in [b, 0x80 OR b]) [7, 6, 5, 4, 3, 2, 1, 0])
        @ [0x0F, 0x8F, 0x0F, 0x00]) [10 :: u8])"
    "serial_line st' = serial_line demo_serial + of_nat (count_list [10 :: u8] 10)"
    using serial_text_levels [OF demo_timer, of "[10]" demo_serial] by (elim exE conjE) (rule that)
  then show ?thesis by (simp add: demo_serial_def Let_def)
qed

section \<open>The receive buffer\<close>

lemma inv_shw [simp]: "serial_inv (st\<lparr>shw := h\<rparr>) = serial_inv st"
  by (simp add: serial_inv_def)

lemma inv_other [simp]:
  "serial_inv (st\<lparr>clear_saved := b\<rparr>) = serial_inv st" "serial_inv (st\<lparr>serial_line := l\<rparr>) = serial_inv st"
  by (simp_all add: serial_inv_def)

lemma serial_send_inv:
  assumes "serial_inv st" "serial_send dev val st = Some st'"
  shows "serial_inv st'"
proof -
  have "unat (n + 1) \<le> 255" if "unat (n :: u16) < 255" for n
    using that by (simp add: unat_word_ariths)
  then show ?thesis
    using assms by (auto simp: serial_inv_def serial_send_def Let_def Option.bind_eq_Some_conv split_beta)
qed

lemma send_char_inv: "serial_inv st \<Longrightarrow> send_char dev c st = Some st' \<Longrightarrow> serial_inv st'"
  unfolding send_char_def by (rule serial_send_inv) (auto simp: serial_line_inc_def)

lemma serial_send_str_inv: "serial_inv st \<Longrightarrow> serial_send_str dev s st = Some st' \<Longrightarrow> serial_inv st'"
  by (auto simp: serial_send_str_def Let_def Option.bind_eq_Some_conv split_beta
      dest: fold_opt_inv [where P = serial_inv and f = "send_char dev", rotated 2] intro: send_char_inv)

lemma serial_printf_inv: "serial_inv st \<Longrightarrow> serial_printf dev s st = Some st' \<Longrightarrow> serial_inv st'"
  by (simp add: serial_printf_def serial_send_str_inv)

lemma serial_clear_inv:
  assumes "serial_inv st" "serial_clear dev st = Some st'"
  shows "serial_inv st'"
proof -
  have f: "serial_inv st2" if "fold_opt (\<lambda>_. g) xs st1 = Some st2" "serial_inv st1"
      "\<And>a b. serial_inv a \<Longrightarrow> g a = Some b \<Longrightarrow> serial_inv b" for g st1 st2 and xs :: "nat list"
    using fold_opt_inv [where P = serial_inv and f = "\<lambda>_. g", OF _ that(2,1)] that(3) by blast
  obtain st1 st2 st3 st4 where steps:
    "(if clear_saved st then Some st
      else do { st \<leftarrow> fold_opt (\<lambda>_. serial_send dev 10) [0..<256] st;
                st \<leftarrow> serial_printf dev [27, 91, 115] st; Some (st\<lparr>clear_saved := True\<rparr>) }) = Some st1"
    "serial_printf dev [27, 91, 117] st1 = Some st2"
    "fold_opt (\<lambda>_. serial_printf dev [10]) [0..<nat (sint (serial_line st))] st2 = Some st3"
    "serial_printf dev [27, 91, 72, 27, 91, 50, 74] st3 = Some st4" "st' = st4\<lparr>serial_line := 0\<rparr>"
    using assms(2) unfolding serial_clear_def Let_def Option.bind_eq_Some_conv by blast
  have "serial_inv st1"
  proof (cases "clear_saved st")
    case True
    then show ?thesis using steps(1) assms(1) by simp
  next
    case False
    then obtain a b where ab: "fold_opt (\<lambda>_. serial_send dev 10) [0..<256] st = Some a"
      "serial_printf dev [27, 91, 115] a = Some b" "st1 = b\<lparr>clear_saved := True\<rparr>"
      using steps(1) by (auto simp: Option.bind_eq_Some_conv)
    have "serial_inv a" by (rule f [OF ab(1) assms(1) serial_send_inv])
    then show ?thesis using serial_printf_inv [OF _ ab(2)] ab(3) by simp
  qed
  then have "serial_inv st2" by (rule serial_printf_inv [OF _ steps(2)])
  then have "serial_inv st3" by (rule f [OF steps(3) _ serial_printf_inv])
  then show ?thesis using serial_printf_inv [OF _ steps(4)] steps(5) by simp
qed

text \<open>The operations of the console as data.\<close>

datatype serial_op =
  S_Send u8 | S_SendU32 u32 | S_Str "u8 list" | S_Printf "u8 list" | S_Read | S_Poll | S_Clear
  | S_AllowZeros | S_DisallowZeros | S_LineInc | S_NoScroll

fun serial_exec :: "device \<Rightarrow> serial_op \<Rightarrow> serial \<Rightarrow> serial option" where
  "serial_exec dev (S_Send v) = serial_send dev v"
| "serial_exec dev (S_SendU32 v) = serial_send_u32 dev v"
| "serial_exec dev (S_Str s) = serial_send_str dev s"
| "serial_exec dev (S_Printf s) = serial_printf dev s"
| "serial_exec dev S_Read = (\<lambda>st. Some (fst (serial_in_read st)))"
| "serial_exec dev S_Poll = serial_poll dev"
| "serial_exec dev S_Clear = serial_clear dev"
| "serial_exec dev S_AllowZeros = (\<lambda>st. Some (serial_allow_zeros st))"
| "serial_exec dev S_DisallowZeros = (\<lambda>st. Some (serial_disallow_zeros st))"
| "serial_exec dev S_LineInc = (\<lambda>st. Some (serial_line_inc st))"
| "serial_exec dev S_NoScroll = (\<lambda>st. Some (serial_line_noscroll st))"

lemma flags_inv [simp]:
  "serial_inv st \<Longrightarrow> serial_inv (fst (serial_in_read st))"
  "serial_inv (serial_allow_zeros st) = serial_inv st" "serial_inv (serial_disallow_zeros st) = serial_inv st"
  "serial_inv (serial_line_inc st) = serial_inv st" "serial_inv (serial_line_noscroll st) = serial_inv st"
  by (simp_all add: serial_in_read_def serial_inv_def serial_allow_zeros_def serial_disallow_zeros_def
      serial_line_inc_def serial_line_noscroll_def)

lemma serial_exec_inv:
  assumes "serial_inv st" "serial_exec dev op st = Some st'"
  shows "serial_inv st'"
proof (cases op)
  case (S_SendU32 v)
  then obtain bs where bs: "fold_opt (serial_send dev) bs st = Some st'"
    using assms(2) unfolding S_SendU32 serial_exec.simps serial_send_u32_def by blast
  show ?thesis by (rule fold_opt_inv [where P = serial_inv and f = "serial_send dev", OF serial_send_inv assms(1) bs])
qed (use assms in \<open>auto simp: serial_poll_def
      intro: serial_send_inv serial_send_str_inv serial_printf_inv serial_clear_inv\<close>)

text \<open>
  The receive buffer never overflows: any operations of the console keep the number
  of received bytes at most 255, and emptying the buffer yields those bytes, padded with
  zeros to 256.
\<close>

lemma serial_buffer_bounded:
  assumes "serial_inv st"
  shows "fold_opt (serial_exec dev) ops st = Some st' \<Longrightarrow> serial_inv st'"
    and "fst (snd (serial_in_read st)) =
      take (unat (serial_len st)) (serial_buffer st) @ replicate (256 - unat (serial_len st)) 0"
proof -
  show "serial_inv st'" if "fold_opt (serial_exec dev) ops st = Some st'"
    by (rule fold_opt_inv [where P = serial_inv, OF serial_exec_inv assms that])
  show "fst (snd (serial_in_read st)) =
      take (unat (serial_len st)) (serial_buffer st) @ replicate (256 - unat (serial_len st)) 0"
    using assms
    by (auto simp: serial_in_read_def Let_def serial_inv_def list_update_append drop_replicate
        intro!: list_update_same_conv [THEN iffD2])
qed

end
