(* ===== verification/BootMap.thy ===== *)
theory BootMap
  imports IosElf Trampoline
begin

text \<open>
  The memory map of the boot (\<^verbatim>\<open>main.c\<close>: \<^verbatim>\<open>add_mirror\<close>, \<^verbatim>\<open>init_phdrs\<close>): the loader cuts its own
  image off the end of the RAM disk and maps it at six more addresses, one within the reach
  of a branch for every group of modules it patches.
\<close>

section \<open>The operations\<close>

definition RAMDISK_END :: u32 where "RAMDISK_END = 0x28000000"

definition CARVEOUT_SZ :: "u32 \<Rightarrow> u32" where
  "CARVEOUT_SZ base = RAMDISK_END - base"

text \<open>The stores to the fields of the entry that was opened, in the order of the source.\<close>

definition fill_phdr :: "mem \<Rightarrow> nat \<Rightarrow> phdr \<Rightarrow> mem" where
  "fill_phdr m i p =
     (let m = phdr_upd m i P_TYPE (\<lambda>_. p_type p);
          m = phdr_upd m i P_OFFSET (\<lambda>_. p_offset p);
          m = phdr_upd m i P_VADDR (\<lambda>_. p_vaddr p);
          m = phdr_upd m i P_PADDR (\<lambda>_. p_paddr p);
          m = phdr_upd m i P_FILESZ (\<lambda>_. p_filesz p);
          m = phdr_upd m i P_MEMSZ (\<lambda>_. p_memsz p);
          m = phdr_upd m i P_FLAGS (\<lambda>_. p_flags p)
      in phdr_upd m i P_ALIGN (\<lambda>_. p_align p))"

definition mirror_phdr :: "u32 \<Rightarrow> u32 \<Rightarrow> phdr" where
  "mirror_phdr base vaddr =
     \<lparr> p_type = 1, p_offset = 0, p_vaddr = vaddr, p_paddr = base, p_filesz = 0,
       p_memsz = 0x100000, p_flags = IOS_PHDR_FLAGS IOS_RWX (uid_val IOS_KERNEL), p_align = 1 \<rparr>"

definition base_phdr :: "u32 \<Rightarrow> phdr" where
  "base_phdr base =
     \<lparr> p_type = 1, p_offset = 0, p_vaddr = base, p_paddr = base, p_filesz = CARVEOUT_SZ base,
       p_memsz = CARVEOUT_SZ base, p_flags = IOS_PHDR_FLAGS IOS_RWX (uid_val IOS_KERNEL), p_align = 1 \<rparr>"

definition add_mirror :: "u32 \<Rightarrow> u32 \<Rightarrow> mem \<Rightarrow> mem" where
  "add_mirror base vaddr m =
     (let (m, i) = ios_elf_add_phdr m base in fill_phdr m i (mirror_phdr base vaddr))"

definition init_phdrs :: "u32 \<Rightarrow> mem \<Rightarrow> mem" where
  "init_phdrs base m =
     (let (m, i) = ios_elf_add_phdr m base;
          m = fill_phdr m i (base_phdr base);
          m = phdr_upd m (i - 1) P_MEMSZ (\<lambda>v. v - CARVEOUT_SZ base);
          m = add_mirror base MCP_ALT_BASE m;
          m = add_mirror base FS_ALT_BASE m;
          m = add_mirror base NET_ALT_BASE m;
          m = add_mirror base NSEC_ALT_BASE m;
          m = add_mirror base BSP_ALT_BASE m
      in add_mirror base KERN_ALT_BASE m)"

section \<open>The table as a list\<close>

definition phdr_table :: "mem \<Rightarrow> nat \<Rightarrow> phdr list" where
  "phdr_table m n = map (phdr_get m) [3..<n]"

text \<open>The entry of an address, by the virtual address the search asks for.\<close>

definition insert_at :: "u32 \<Rightarrow> phdr \<Rightarrow> phdr list \<Rightarrow> phdr list" where
  "insert_at addr p t =
     takeWhile (\<lambda>h. p_vaddr h \<le> addr) t @ p # dropWhile (\<lambda>h. p_vaddr h \<le> addr) t"

lemma length_table [simp]: "length (phdr_table m n) = n - 3"
  by (simp add: phdr_table_def)

lemma nth_table [simp]: "j < n - 3 \<Longrightarrow> phdr_table m n ! j = phdr_get m (3 + j)"
  by (simp add: phdr_table_def)

lemma more_offs_distinct [simp]:
  "P_TYPE \<noteq> P_OFFSET" "P_TYPE \<noteq> P_VADDR" "P_TYPE \<noteq> P_PADDR" "P_TYPE \<noteq> P_FILESZ" "P_TYPE \<noteq> P_MEMSZ"
  "P_TYPE \<noteq> P_FLAGS" "P_TYPE \<noteq> P_ALIGN" "P_OFFSET \<noteq> P_TYPE" "P_OFFSET \<noteq> P_VADDR" "P_OFFSET \<noteq> P_PADDR"
  "P_OFFSET \<noteq> P_FILESZ" "P_OFFSET \<noteq> P_MEMSZ" "P_OFFSET \<noteq> P_FLAGS" "P_OFFSET \<noteq> P_ALIGN"
  "P_VADDR \<noteq> P_TYPE" "P_VADDR \<noteq> P_OFFSET" "P_VADDR \<noteq> P_FLAGS" "P_VADDR \<noteq> P_ALIGN"
  "P_PADDR \<noteq> P_TYPE" "P_PADDR \<noteq> P_OFFSET" "P_PADDR \<noteq> P_FLAGS" "P_PADDR \<noteq> P_ALIGN"
  "P_FILESZ \<noteq> P_TYPE" "P_FILESZ \<noteq> P_OFFSET" "P_FILESZ \<noteq> P_FLAGS" "P_FILESZ \<noteq> P_ALIGN"
  "P_MEMSZ \<noteq> P_TYPE" "P_MEMSZ \<noteq> P_OFFSET" "P_MEMSZ \<noteq> P_FLAGS" "P_MEMSZ \<noteq> P_ALIGN"
  "P_FLAGS \<noteq> P_TYPE" "P_FLAGS \<noteq> P_OFFSET" "P_FLAGS \<noteq> P_VADDR" "P_FLAGS \<noteq> P_PADDR"
  "P_FLAGS \<noteq> P_FILESZ" "P_FLAGS \<noteq> P_MEMSZ" "P_FLAGS \<noteq> P_ALIGN"
  "P_ALIGN \<noteq> P_TYPE" "P_ALIGN \<noteq> P_OFFSET" "P_ALIGN \<noteq> P_VADDR" "P_ALIGN \<noteq> P_PADDR"
  "P_ALIGN \<noteq> P_FILESZ" "P_ALIGN \<noteq> P_MEMSZ" "P_ALIGN \<noteq> P_FLAGS"
  by (simp_all add: layout_simps)

lemma fill_phdr_other:
  assumes "i < 2 ^ 20" "j < 2 ^ 20" "i \<noteq> j" "field_off q"
  shows "phdr_fld (fill_phdr m i p) j q = phdr_fld m j q"
  using assms by (simp add: fill_phdr_def Let_def phdr_fld_upd)

lemma phdr_get_fill:
  assumes "i < 2 ^ 20" "j < 2 ^ 20"
  shows "phdr_get (fill_phdr m i p) j = (if j = i then p else phdr_get m j)"
proof (cases "j = i")
  case True
  then show ?thesis using assms by (simp add: phdr_get_def fill_phdr_def Let_def phdr_fld_upd)
next
  case False
  then show ?thesis using assms by (simp add: phdr_get_def fill_phdr_other)
qed

lemma fill_phdr_layout:
  assumes "phdr_layout m n" "3 \<le> i" "i < 2 ^ 20"
  shows "phdr_layout (fill_phdr m i p) n"
  using assms by (simp add: phdr_layout_def fill_phdr_other seg_simps)

text \<open>Opening and filling an entry is one insertion into the list.\<close>

lemma table_insert:
  fixes p :: phdr
  assumes lay: "phdr_layout m n" and add: "ios_elf_add_phdr m addr = (m', i)"
    and n: "n + 1 < 2 ^ 16" and two: "phdr_fld m 2 P_VADDR \<le> addr"
  defines "f \<equiv> fill_phdr m' i p"
  shows "phdr_layout f (n + 1) \<and> phdr_fld f 2 P_VADDR = phdr_fld m 2 P_VADDR \<and>
    phdr_fld f 2 P_MEMSZ = phdr_fld m 2 P_MEMSZ \<and> phdr_fld f 2 P_PADDR = phdr_fld m 2 P_PADDR \<and>
    i = 3 + length (takeWhile (\<lambda>h. p_vaddr h \<le> addr) (phdr_table m n)) \<and>
    phdr_table f (n + 1) = insert_at addr p (phdr_table m n)"
proof -
  obtain i: "2 \<le> i" "i \<le> n" "i = add_phdr_pos m addr n IOS_SEG_ELFINFO"
    by (rule add_phdr_stages [OF lay add])
  have n3: "3 \<le> n" using lay by (simp add: phdr_layout_def)
  have pos: "\<forall>j. 2 \<le> j \<and> j < i \<longrightarrow> phdr_fld m j P_VADDR \<le> addr"
    "i < n \<longrightarrow> addr < phdr_fld m i P_VADDR"
    using add_phdr_pos_spec [of IOS_SEG_ELFINFO n m addr] n3 i(3) by (simp_all add: seg_simps)
  have i3: "3 \<le> i"
  proof (rule ccontr)
    assume "\<not> 3 \<le> i"
    then have "i = 2" using i(1) by simp
    then show False using pos(2) n3 two by auto
  qed
  let ?t = "phdr_table m n" and ?P = "\<lambda>h. p_vaddr h \<le> addr"
  have tw: "takeWhile ?P ?t = take (i - 3) ?t"
    using pos i3 i(2)
    by (intro takeWhile_eq_take_P_nth) (auto simp: phdr_get_def not_le)
  have dw: "dropWhile ?P ?t = drop (i - 3) ?t"
    using i(2) by (simp add: dropWhile_eq_drop tw)
  have eq: "phdr_get f j = (if j < i then phdr_get m j else if j = i then p else phdr_get m (j - 1))"
    if "3 \<le> j" "j < n + 1" for j
  proof -
    have b: "i < 2 ^ 20" "j < 2 ^ 20" using that n i by simp_all
    have "phdr_get m' j = phdr_get m (if j < i then j else j - 1)" if "j \<noteq> i"
      using that \<open>3 \<le> j\<close> \<open>j < n + 1\<close> add_phdr_fld [OF lay add _ _ that]
      by (simp add: phdr_get_def phdr_bump_def seg_simps)
    then show ?thesis unfolding f_def phdr_get_fill [OF b] by auto
  qed
  have "phdr_table f (n + 1) = insert_at addr p ?t"
  proof (rule nth_equalityI)
    show "length (phdr_table f (n + 1)) = length (insert_at addr p ?t)"
      using i(2) i3 n3 by (simp add: insert_at_def tw dw)
    fix j assume "j < length (phdr_table f (n + 1))"
    then have j: "j < n - 2" using n3 by simp
    then show "phdr_table f (n + 1) ! j = insert_at addr p ?t ! j"
      using i(2) i3 n3 eq [of "3 + j"]
      by (auto simp: insert_at_def tw dw nth_append nth_Cons' min_def)
  qed
  moreover have "phdr_layout f (n + 1)"
    unfolding f_def using add_phdr_layout [OF lay add n] i3 i(2) n by (intro fill_phdr_layout) simp_all
  moreover have "phdr_fld f 2 q = phdr_fld m 2 q" if "field_off q" "q \<noteq> P_FILESZ" for q
    using that i3 n3 i(2) n add_phdr_fld [OF lay add, of q 2]
    by (simp add: f_def fill_phdr_other phdr_bump_def seg_simps)
  ultimately show ?thesis using tw i(2) i3 by simp
qed

text \<open>What the boot keeps between two insertions: the layout, the list, and entry 2.\<close>

definition map_state :: "mem \<Rightarrow> nat \<Rightarrow> phdr list \<Rightarrow> u32 \<times> u32 \<times> u32 \<Rightarrow> bool" where
  "map_state m n t e \<longleftrightarrow> phdr_layout m n \<and> phdr_table m n = t \<and>
     e = (phdr_fld m 2 P_VADDR, phdr_fld m 2 P_MEMSZ, phdr_fld m 2 P_PADDR)"

lemma fill_map_state:
  assumes "map_state m n t e" "n + 1 < 2 ^ 16" "fst e \<le> base" "ios_elf_add_phdr m base = (m', i)"
  shows "map_state (fill_phdr m' i p) (n + 1) (insert_at base p t) e"
    and "i = 3 + length (takeWhile (\<lambda>h. p_vaddr h \<le> base) t)"
  using assms table_insert [of m n base m' i p] by (auto simp: map_state_def)

lemma mirror_map_state:
  assumes "map_state m n t e" "n + 1 < 2 ^ 16" "fst e \<le> base"
  shows "map_state (add_mirror base v m) (n + 1) (insert_at base (mirror_phdr base v) t) e"
proof -
  obtain m' i where a: "ios_elf_add_phdr m base = (m', i)" by force
  show ?thesis using fill_map_state(1) [OF assms a] by (simp add: add_mirror_def a)
qed

lemma memsz_map_state:
  assumes "map_state m n (xs @ r # ys) e"
  shows "map_state (phdr_upd m (3 + length xs) P_MEMSZ f) n (xs @ r\<lparr>p_memsz := f (p_memsz r)\<rparr> # ys) e"
proof -
  let ?k = "3 + length xs" and ?m = "phdr_upd m (3 + length xs) P_MEMSZ f"
  have lay: "phdr_layout m n" and t: "phdr_table m n = xs @ r # ys"
    using assms by (simp_all add: map_state_def)
  have n: "?k < n" "n < 2 ^ 20"
    using arg_cong [OF t, of length] lay by (simp_all add: phdr_layout_def)
  have k: "?k < 2 ^ 20" using n by simp
  have get: "phdr_get ?m j = (if j = ?k then (phdr_get m j)\<lparr>p_memsz := f (p_memsz (phdr_get m j))\<rparr> else phdr_get m j)"
    if "j < n" for j
    using that k n(2) by (auto simp: phdr_get_def phdr_fld_upd)
  have r: "phdr_get m ?k = r" using arg_cong [OF t, of "\<lambda>l. l ! length xs"] n by simp
  have "phdr_table ?m n = (phdr_table m n)[length xs := r\<lparr>p_memsz := f (p_memsz r)\<rparr>]"
    using get r by (intro nth_equalityI) (auto simp: nth_list_update)
  moreover have "phdr_fld ?m j q = phdr_fld m j q" if "j < 3" "field_off q" for j q
    using that k by (simp add: phdr_fld_upd)
  ultimately show ?thesis
    using assms by (simp add: map_state_def t phdr_layout_def seg_simps)
qed

lemmas alt_bases =
  MCP_ALT_BASE_def FS_ALT_BASE_def NET_ALT_BASE_def NSEC_ALT_BASE_def BSP_ALT_BASE_def KERN_ALT_BASE_def

definition mirror_list :: "u32 \<Rightarrow> phdr list" where
  "mirror_list base = map (mirror_phdr base)
     [MCP_ALT_BASE, FS_ALT_BASE, NET_ALT_BASE, KERN_ALT_BASE, BSP_ALT_BASE, NSEC_ALT_BASE]"

lemma p_vaddr_new [simp]: "p_vaddr (mirror_phdr base v) = v" "p_vaddr (base_phdr base) = base"
  by (simp_all add: mirror_phdr_def base_phdr_def)

lemma insert_at_append:
  "\<forall>h \<in> set xs. p_vaddr h \<le> a \<Longrightarrow> ys = [] \<or> a < p_vaddr (hd ys) \<Longrightarrow> insert_at a p (xs @ ys) = xs @ p # ys"
  by (cases ys) (auto simp: insert_at_def takeWhile_append dropWhile_append not_le)

lemma mirror_step:
  assumes "map_state m n (zs @ ys) e" "n' = n + 1" "n' < 2 ^ 16" "fst e \<le> base"
    and "\<forall>h \<in> set zs. p_vaddr h \<le> base" "ys = [] \<or> base < p_vaddr (hd ys)"
  shows "map_state (add_mirror base v m) n' (zs @ mirror_phdr base v # ys) e"
  using mirror_map_state [OF assms(1) _ assms(4), of v] assms(2,3) insert_at_append [OF assms(5,6)] by simp

lemma init_phdrs_state:
  assumes m: "map_state m n (xs @ r # ys) e" and n: "n + 7 < 2 ^ 16" and two: "fst e \<le> base"
    and xs: "\<forall>h \<in> set (xs @ [r]). p_vaddr h \<le> base" and ys: "ys = [] \<or> base < p_vaddr (hd ys)"
    and base: "NET_ALT_BASE \<le> base" "base < NSEC_ALT_BASE"
  shows "map_state (init_phdrs base m) (n + 7)
    (xs @ r\<lparr>p_memsz := p_memsz r - CARVEOUT_SZ base\<rparr> # base_phdr base # mirror_list base @ ys) e"
proof -
  have le: "MCP_ALT_BASE \<le> base" "FS_ALT_BASE \<le> base" "KERN_ALT_BASE \<le> base"
    by (rule order_trans [OF _ base(1)], simp add: alt_bases)+
  have gt: "base < BSP_ALT_BASE" by (rule less_trans [OF base(2)]) (simp add: alt_bases)
  obtain m1 i where a: "ios_elf_add_phdr m base = (m1, i)" by force
  let ?xs = "xs @ [r\<lparr>p_memsz := p_memsz r - CARVEOUT_SZ base\<rparr>, base_phdr base]"
  have i: "i = 3 + length (xs @ [r])"
    using fill_map_state(2) [OF m _ two a] n xs ys
    by (cases ys) (auto simp: takeWhile_append not_le)
  have "map_state (fill_phdr m1 i (base_phdr base)) (n + 1) ((xs @ [r]) @ base_phdr base # ys) e"
    using fill_map_state(1) [OF m _ two a, of "base_phdr base"] n
      insert_at_append [OF xs ys, of "base_phdr base"] by simp
  then have "map_state (phdr_upd (fill_phdr m1 i (base_phdr base)) (i - 1) P_MEMSZ (\<lambda>v. v - CARVEOUT_SZ base))
      (n + 1) (?xs @ ys) e" (is "map_state ?m2 _ _ _")
    using memsz_map_state [of "fill_phdr m1 i (base_phdr base)" "n + 1" xs r "base_phdr base # ys" e]
    by (simp add: i)
  then have m2: "map_state ?m2 (n + 1) (?xs @ ys) e" .
  have le_xs: "\<forall>h \<in> set ?xs. p_vaddr h \<le> base" using xs by auto
  let ?M = "mirror_phdr base" and ?a = "add_mirror base"
  note step = mirror_step [where base = base]
  have m3: "map_state (?a MCP_ALT_BASE ?m2) (n + 2) ((?xs @ [?M MCP_ALT_BASE]) @ ys) e"
    using step [OF m2 _ _ two le_xs ys, of "n + 2" MCP_ALT_BASE] n by simp
  have m4: "map_state (?a FS_ALT_BASE (?a MCP_ALT_BASE ?m2)) (n + 3)
      ((?xs @ [?M MCP_ALT_BASE, ?M FS_ALT_BASE]) @ ys) e"
    using step [OF m3 _ _ two _ ys, of "n + 3" FS_ALT_BASE] n le_xs le by simp
  have m5: "map_state (?a NET_ALT_BASE (?a FS_ALT_BASE (?a MCP_ALT_BASE ?m2))) (n + 4)
      ((?xs @ [?M MCP_ALT_BASE, ?M FS_ALT_BASE, ?M NET_ALT_BASE]) @ ys) e" (is "map_state ?m5 _ (?zs @ _) _")
    using step [OF m4 _ _ two _ ys, of "n + 4" NET_ALT_BASE] n le_xs le by simp
  have zs: "\<forall>h \<in> set ?zs. p_vaddr h \<le> base" using le_xs le base by auto
  have m6: "map_state (?a NSEC_ALT_BASE ?m5) (n + 5) (?zs @ ?M NSEC_ALT_BASE # ys) e"
    using step [OF m5 _ _ two zs ys, of "n + 5" NSEC_ALT_BASE] n by simp
  have m7: "map_state (?a BSP_ALT_BASE (?a NSEC_ALT_BASE ?m5)) (n + 6)
      (?zs @ ?M BSP_ALT_BASE # ?M NSEC_ALT_BASE # ys) e"
    using step [OF m6 _ _ two zs, of "n + 6" BSP_ALT_BASE] n base by simp
  have "map_state (?a KERN_ALT_BASE (?a BSP_ALT_BASE (?a NSEC_ALT_BASE ?m5))) (n + 7)
      (?zs @ ?M KERN_ALT_BASE # ?M BSP_ALT_BASE # ?M NSEC_ALT_BASE # ys) e"
    using step [OF m7 _ _ two zs, of "n + 7" KERN_ALT_BASE] n gt by simp
  then show ?thesis by (simp add: init_phdrs_def a Let_def mirror_list_def)
qed

section \<open>Properties\<close>

text \<open>
  C5. The boot's memory map: from a table in the loader's layout in which a segment ends
  the ones up to the image's base, that segment loses the carve-out, and behind it come the
  image and its six mirrors, with the table grown by seven and every other entry as it was.
  The mirrors are at the addresses of \<^verbatim>\<open>config.h\<close>; the one for MCP is at
  \<^verbatim>\<open>0x05200000\<close>, where the comment in \<^verbatim>\<open>init_phdrs\<close> says \<^verbatim>\<open>0x05800000\<close>.
\<close>

theorem init_phdrs_table:
  assumes "phdr_layout m n" "n + 7 < 2 ^ 16" "phdr_fld m 2 P_VADDR \<le> base"
    and "phdr_table m n = xs @ r # ys" "\<forall>h \<in> set (xs @ [r]). p_vaddr h \<le> base"
    and "ys = [] \<or> base < p_vaddr (hd ys)"
    and "NET_ALT_BASE \<le> base" "base < NSEC_ALT_BASE"
  shows "phdr_layout (init_phdrs base m) (n + 7) \<and>
    phdr_table (init_phdrs base m) (n + 7) =
      xs @ r\<lparr>p_memsz := p_memsz r - CARVEOUT_SZ base\<rparr> # base_phdr base # mirror_list base @ ys \<and>
    map p_vaddr (mirror_list base) =
      [0x05200000, 0x10600000, 0x12200000, 0x08200000, 0xE5F00000, 0xE1300000]"
proof -
  have "map_state m n (xs @ r # ys) (phdr_fld m 2 P_VADDR, phdr_fld m 2 P_MEMSZ, phdr_fld m 2 P_PADDR)"
    using assms(1,4) by (simp add: map_state_def)
  from init_phdrs_state [OF this assms(2) _ assms(5,6,7,8)] assms(3)
  show ?thesis by (simp add: map_state_def mirror_list_def alt_bases)
qed

text \<open>A table of four entries: the three of the loader and a RAM disk from \<^verbatim>\<open>0x20000000\<close> to its end.\<close>

definition demo_map :: mem where
  "demo_map = (\<lambda>a. if a = PHDRS + 23 then 128 else if a = PHDRS + 40 then 0x1D
     else if a = PHDRS + 43 then 128 else if a = PHDRS + 55 then 32
     else if a = PHDRS + 104 then 0x20 else if a = PHDRS + 108 then 0x20
     else if a = PHDRS + 116 then 0x08 else 0)"

definition demo_ramdisk :: phdr where
  "demo_ramdisk = \<lparr> p_type = 0, p_offset = 0, p_vaddr = 0x20000000, p_paddr = 0x20000000,
     p_filesz = 0, p_memsz = 0x08000000, p_flags = 0, p_align = 0 \<rparr>"

lemma demo_map_layout: "phdr_layout demo_map 4" "phdr_fld demo_map 2 P_VADDR = 0"
  "phdr_table demo_map 4 = [] @ demo_ramdisk # []"
  by (simp_all add: phdr_layout_def phdr_table_def phdr_get_def phdr_fld_def phdr_addr_def read32_def demo_map_def
      demo_ramdisk_def layout_simps PHDRS_def upt_rec)

theorem init_phdrs_table_witness:
  "phdr_table (init_phdrs 0x27F00000 demo_map) 11 =
     demo_ramdisk\<lparr>p_memsz := 0x07F00000\<rparr> # base_phdr 0x27F00000 # mirror_list 0x27F00000"
  using init_phdrs_table [OF demo_map_layout(1) _ _ demo_map_layout(3), where base = "0x27F00000"]
  by (simp add: demo_map_layout(2) alt_bases demo_ramdisk_def CARVEOUT_SZ_def RAMDISK_END_def)

text \<open>The addresses of a segment, both bounds included as in the source.\<close>

definition hdr_has :: "phdr \<Rightarrow> u32 \<Rightarrow> bool" where
  "hdr_has h a \<longleftrightarrow> p_vaddr h \<le> a \<and> a \<le> p_vaddr h + p_memsz h"

lemma vaddr_in_table:
  assumes m: "map_state m n (pre @ h # post) e" and two: "\<not> (fst e \<le> a \<and> a \<le> fst e + fst (snd e))"
    and pre: "\<forall>g \<in> set pre. \<not> hdr_has g a" and h: "hdr_has h a"
  shows "ios_elf_vaddr_to_paddr m a = a - p_vaddr h + p_paddr h"
proof -
  let ?j = "3 + length pre" and ?t = "pre @ h # post"
  have lay: "phdr_layout m n" and t: "phdr_table m n = ?t"
    and e: "e = (phdr_fld m 2 P_VADDR, phdr_fld m 2 P_MEMSZ, phdr_fld m 2 P_PADDR)"
    using m by (simp_all add: map_state_def)
  have n: "?j < n" using arg_cong [OF t, of length] by simp
  have get: "phdr_get m (3 + k) = ?t ! k" if "k < n - 3" for k
    using arg_cong [OF t, of "\<lambda>l. l ! k"] that by simp
  have seg: "in_segment m a (3 + k) \<longleftrightarrow> hdr_has (?t ! k) a" if "k < n - 3" for k
    using get [OF that] by (simp add: in_segment_def hdr_has_def phdr_get_def flip: get [OF that])
  have h': "phdr_get m ?j = h" using get [of "length pre"] n by simp
  have "vaddr_loop m a n IOS_SEG_ELFINFO = a - phdr_fld m ?j P_VADDR + phdr_fld m ?j P_PADDR"
  proof (rule vaddr_loop_first)
    show "IOS_SEG_ELFINFO \<le> ?j" by (simp add: seg_simps)
    show "in_segment m a ?j" using seg [of "length pre"] n h by simp
    show "\<not> in_segment m a k" if range: "IOS_SEG_ELFINFO \<le> k" "k < ?j" for k
    proof (cases "k = 2")
      case True
      then show ?thesis using two by (simp add: in_segment_def e)
    next
      case False
      then have "k = 3 + (k - 3)" "k - 3 < length pre" using range by (auto simp: seg_simps)
      then obtain k' where k: "k = 3 + k'" "k' < length pre" by blast
      then show ?thesis using seg [of k'] n pre by (auto simp: nth_append)
    qed
  qed (rule n)
  moreover have "phdr_fld m ?j P_VADDR = p_vaddr h" "phdr_fld m ?j P_PADDR = p_paddr h"
    by (simp_all add: phdr_get_def flip: h')
  ultimately show ?thesis
    by (simp add: ios_elf_vaddr_to_paddr_def num_phdrs_layout [OF lay])
qed

lemma mirror_bounds:
  assumes "unat v + 0x100000 < 2 ^ 32" "unat off < 0x100000"
  shows "unat (v + off :: u32) = unat v + unat off"
  using assms by (simp add: unat_word_ariths)

lemma mirror_has:
  assumes "unat v + 0x100000 < 2 ^ 32" "unat v' + 0x100000 < 2 ^ 32" "unat off < 0x100000"
  shows "hdr_has (mirror_phdr base v') (v + off) \<longleftrightarrow>
    unat v' \<le> unat v + unat off \<and> unat v + unat off \<le> unat v' + 0x100000"
proof -
  have "unat (v' + 0x100000) = unat v' + 0x100000" using assms(2) by (simp add: unat_word_ariths)
  then show ?thesis
    using mirror_bounds [OF assms(1,3)]
    by (simp add: hdr_has_def mirror_phdr_def word_le_nat_alt)
qed

text \<open>The first mirror that holds an address near \<open>v\<close> is the one at \<open>v\<close>.\<close>

lemma mirror_split:
  assumes v: "v \<in> {MCP_ALT_BASE, FS_ALT_BASE, NET_ALT_BASE, KERN_ALT_BASE, BSP_ALT_BASE, NSEC_ALT_BASE}"
    and off: "unat off < 0x100000"
  obtains ws zs where
    "mirror_list base = map (mirror_phdr base) ws @ mirror_phdr base v # map (mirror_phdr base) zs"
    "\<forall>g \<in> set (map (mirror_phdr base) ws). \<not> hdr_has g (v + off)" "hdr_has (mirror_phdr base v) (v + off)"
proof -
  let ?vs = "[MCP_ALT_BASE, FS_ALT_BASE, NET_ALT_BASE, KERN_ALT_BASE, BSP_ALT_BASE, NSEC_ALT_BASE]"
  obtain ws zs where ws: "?vs = ws @ v # zs" "v \<notin> set ws" using v by (metis set_simps split_list_first empty_set)
  have vb: "unat v + 0x100000 < 2 ^ 32" using v by (auto simp: alt_bases)
  have nm: "\<not> hdr_has (mirror_phdr base w) (v + off)" if "w \<in> set ws" for w
  proof -
    have w: "w \<in> set ?vs" "w \<noteq> v" using that ws by auto
    then have wb: "unat w + 0x100000 < 2 ^ 32" by (auto simp: alt_bases)
    show ?thesis using w v off unfolding mirror_has [OF vb wb off] by (auto simp: alt_bases)
  qed
  show ?thesis
  proof (rule that)
    show "mirror_list base = map (mirror_phdr base) ws @ mirror_phdr base v # map (mirror_phdr base) zs"
      unfolding mirror_list_def ws(1) by simp
    show "hdr_has (mirror_phdr base v) (v + off)" using off by (simp add: mirror_has [OF vb vb off])
  qed (use nm in auto)
qed

text \<open>
  C6. The mirrors are reached: when the image is based between \<^verbatim>\<open>0x12300000\<close> and
  \<^verbatim>\<open>0x28000000\<close> and the RAM disk's segment ends at its end, an address in the first
  megabyte of a mirror that no segment listed before the image held, their end addresses
  included, is translated to the same offset in the image.  The condition on the end
  addresses is needed: the code takes the byte behind a segment for one of the segment.
\<close>

theorem mirrors_translate:
  assumes "phdr_layout m n" "n + 7 < 2 ^ 16" "phdr_fld m 2 P_VADDR \<le> base"
    and "phdr_table m n = xs @ r # ys" "\<forall>h \<in> set (xs @ [r]). p_vaddr h \<le> base"
    and "ys = [] \<or> base < p_vaddr (hd ys)"
    and "unat base \<in> {0x12300000 <..< 0x28000000}" "p_vaddr r + p_memsz r = RAMDISK_END"
    and v: "v \<in> {MCP_ALT_BASE, FS_ALT_BASE, NET_ALT_BASE, KERN_ALT_BASE, BSP_ALT_BASE, NSEC_ALT_BASE}"
    and off: "unat off < 0x100000"
    and free: "\<not> in_segment m (v + off) 2" "\<forall>h \<in> set (xs @ [r]). \<not> hdr_has h (v + off)"
  shows "ios_elf_vaddr_to_paddr (init_phdrs base m) (v + off) = base + off"
proof -
  let ?e = "(phdr_fld m 2 P_VADDR, phdr_fld m 2 P_MEMSZ, phdr_fld m 2 P_PADDR)"
  let ?r = "r\<lparr>p_memsz := p_memsz r - CARVEOUT_SZ base\<rparr>"
  have base: "NET_ALT_BASE \<le> base" "base < NSEC_ALT_BASE"
    using assms(7) by (simp_all add: alt_bases word_le_nat_alt word_less_nat_alt)
  have "map_state m n (xs @ r # ys) ?e" using assms(1,4) by (simp add: map_state_def)
  from init_phdrs_state [OF this assms(2) _ assms(5,6) base] assms(3)
  have st: "map_state (init_phdrs base m) (n + 7) (xs @ ?r # base_phdr base # mirror_list base @ ys) ?e" by simp
  have vb: "unat v + 0x100000 < 2 ^ 32" using v by (auto simp: alt_bases)
  note a = mirror_bounds [OF vb off]
  have top: "p_vaddr r + (p_memsz r - CARVEOUT_SZ base) = base"
    using assms(8) by (simp add: CARVEOUT_SZ_def algebra_simps)
  have far: "\<not> (v + off \<le> RAMDISK_END \<and> base \<le> v + off)"
    using v off assms(7) a by (auto simp: alt_bases RAMDISK_END_def word_le_nat_alt)
  have nr: "\<not> hdr_has ?r (v + off)"
  proof
    assume "hdr_has ?r (v + off)"
    then have "p_vaddr r \<le> v + off" "v + off \<le> base" by (simp_all add: hdr_has_def top)
    moreover have "base \<le> RAMDISK_END" using assms(7) by (simp add: RAMDISK_END_def word_le_nat_alt)
    ultimately show False using free(2) assms(8) by (auto simp: hdr_has_def)
  qed
  have nb: "\<not> hdr_has (base_phdr base) (v + off)"
    using far by (auto simp: hdr_has_def base_phdr_def CARVEOUT_SZ_def)
  obtain ws zs where
    ml: "mirror_list base = map (mirror_phdr base) ws @ mirror_phdr base v # map (mirror_phdr base) zs"
    and nm: "\<forall>g \<in> set (map (mirror_phdr base) ws). \<not> hdr_has g (v + off)"
    and hv: "hdr_has (mirror_phdr base v) (v + off)"
    by (rule mirror_split [OF v off])
  have "ios_elf_vaddr_to_paddr (init_phdrs base m) (v + off) = v + off - p_vaddr (mirror_phdr base v) + p_paddr (mirror_phdr base v)"
  proof (rule vaddr_in_table)
    show "map_state (init_phdrs base m) (n + 7)
      ((xs @ ?r # base_phdr base # map (mirror_phdr base) ws) @ mirror_phdr base v # map (mirror_phdr base) zs @ ys) ?e"
      using st by (simp add: ml)
    show "\<forall>g \<in> set (xs @ ?r # base_phdr base # map (mirror_phdr base) ws). \<not> hdr_has g (v + off)"
      using free(2) nr nb nm by auto
    show "\<not> (fst ?e \<le> v + off \<and> v + off \<le> fst ?e + fst (snd ?e))"
      using free(1) by (simp add: in_segment_def)
  qed (rule hv)
  then show ?thesis by (simp add: mirror_phdr_def)
qed

theorem mirrors_translate_witness:
  "ios_elf_vaddr_to_paddr (init_phdrs 0x27F00000 demo_map) 0x05200010 = 0x27F00010"
proof -
  have seg: "\<not> in_segment demo_map 0x05200010 2"
    by (simp add: in_segment_def phdr_fld_def phdr_addr_def read32_def demo_map_def layout_simps PHDRS_def)
  show ?thesis
    using mirrors_translate [OF demo_map_layout(1) _ _ demo_map_layout(3), where base = "0x27F00000"
        and v = MCP_ALT_BASE and off = "0x10"] seg
    by (simp add: demo_map_layout(2) alt_bases demo_ramdisk_def hdr_has_def RAMDISK_END_def)
qed

end
