(* ===== verification/Boot.thy ===== *)
theory Boot
  imports BootMap Dynamic Rednand Ipc Latte
begin

text \<open>
  \<^verbatim>\<open>main.c\<close>: what runs before the kernel (\<^verbatim>\<open>kern_main\<close>) and before MCP (\<^verbatim>\<open>mcp_main\<close>).  The
  plugins in the RAM disk are registered and linked, the configuration is read from the
  boot parameters, the firmware is patched and the entry points of the plugins are called.

  Patches are recorded in the order in which they are applied; their effect on memory is
  the subject of \<open>Patch\<close> and \<open>Trampoline\<close>.  The code of the plugins is a function on
  memory, the assembler's output is named by its text.
\<close>

section \<open>Environment and state\<close>

text \<open>
  The base of the image, the addresses of the objects and literals the code names, and the
  functions it calls by address.
\<close>

record boot_env =
  plugin_base :: u32
  obj :: "string \<Rightarrow> u32"
  lit :: "string \<Rightarrow> u32"
  call_entry :: "u32 \<Rightarrow> mem \<Rightarrow> mem"
  otp_stub_len :: nat
  stack_table :: "nat \<Rightarrow> nat"

record boot =
  bmem :: mem
  elfs :: "u32 list"
  debug_printf_enabled :: bool
  bprsh :: prsh_state
  brednand :: rednand_state
  otp_ptr :: u32
  seeprom_ptr :: "u32 option"
  patches :: "patch_op list"
  calls :: "u32 list"

definition add_patches :: "patch_op list \<Rightarrow> boot \<Rightarrow> boot" where
  "add_patches ps b = b\<lparr>patches := patches b @ ps\<rparr>"

section \<open>Plugins\<close>

partial_function (option) register_loop :: "boot_env \<Rightarrow> u32 \<Rightarrow> boot \<Rightarrow> boot option" where
  "register_loop env p b =
     (let next = wafel_plugin_next (bmem b) p
      in if next = 0 then Some b
         else if read32 (bmem b) next \<noteq> IPX_ELF_MAGIC then register_loop env next b
         else do {
           let b = b\<lparr>elfs := wafel_register_plugin (elfs b) next\<rparr>;
           a \<leftarrow> wafel_get_symbol_addr (bmem b) next (lit env ''enable_debug_printf'');
           register_loop env next (if a \<noteq> 0 then b\<lparr>debug_printf_enabled := True\<rparr> else b) })"

partial_function (option) linking_loop :: "u32 \<Rightarrow> boot \<Rightarrow> boot option" where
  "linking_loop p b =
     (let next = wafel_plugin_next (bmem b) p
      in if next = 0 then Some b
         else if read32 (bmem b) next \<noteq> IPX_ELF_MAGIC then linking_loop next b
         else do { m \<leftarrow> wafel_link_plugin (bmem b) (elfs b) next; linking_loop next (b\<lparr>bmem := m\<rparr>) })"

definition init_linking :: "boot_env \<Rightarrow> boot \<Rightarrow> boot option" where
  "init_linking env b =
     do { b \<leftarrow> register_loop env (plugin_base env) (b\<lparr>elfs := wafel_register_plugin (elfs b) (plugin_base env)\<rparr>);
          linking_loop (plugin_base env) b }"

partial_function (option) entry_calls :: "boot_env \<Rightarrow> u32 \<Rightarrow> u32 \<Rightarrow> boot \<Rightarrow> boot option" where
  "entry_calls env name p b =
     (let next = wafel_plugin_next (bmem b) p
      in if next = 0 then Some b
         else if read32 (bmem b) next \<noteq> IPX_ELF_MAGIC then entry_calls env name next b
         else do {
           ep \<leftarrow> wafel_get_symbol_addr (bmem b) next name;
           entry_calls env name next
             (if ep = 0 then b else b\<lparr>bmem := call_entry env ep (bmem b), calls := calls b @ [ep]\<rparr>) })"

definition call_plugin_entry :: "boot_env \<Rightarrow> string \<Rightarrow> boot \<Rightarrow> boot option" where
  "call_plugin_entry env entry_name b = entry_calls env (lit env entry_name) (plugin_base env) b"

section \<open>The configuration\<close>

text \<open>The packed \<^verbatim>\<open>rednand_config\<close> at an address.\<close>

definition rednand_config_at :: "mem \<Rightarrow> u32 \<Rightarrow> rednand_config" where
  "rednand_config_at m p =
     \<lparr> slc_start = read32 m p, slc_length = read32 m (p + 4),
       slccmpt_start = read32 m (p + 8), slccmpt_length = read32 m (p + 12),
       mlc_start = read32 m (p + 16), mlc_length = read32 m (p + 20),
       c_disable_scfm = m (p + 24) \<noteq> 0, c_scfm_on_slccmpt = m (p + 25) \<noteq> 0,
       c_initilized = m (p + 26) \<noteq> 0, c_slc_nocrypto = m (p + 27) \<noteq> 0,
       c_slccmpt_nocrypto = m (p + 28) \<noteq> 0, c_mlc_nocrypto = m (p + 29) \<noteq> 0,
       c_sys_mount_slc = m (p + 30) \<noteq> 0, c_sys_mount_slccmpt = m (p + 31) \<noteq> 0,
       c_sys_mount_mlc = m (p + 32) \<noteq> 0 \<rparr>"

definition SEEPROM_SIZE :: u32 where "SEEPROM_SIZE = 512"

definition strcpy_lit :: "u32 \<Rightarrow> string \<Rightarrow> boot \<Rightarrow> boot" where
  "strcpy_lit a s b = b\<lparr>bmem := store_bytes (bmem b) a (str s @ [0])\<rparr>"

definition get_entry :: "string \<Rightarrow> boot \<Rightarrow> boot \<times> (u32 \<times> u32) option" where
  "get_entry name b =
     (let (p, r) = prsh_get_entry (bmem b) (bprsh b) (Some (str name))
      in (b\<lparr>bprsh := p\<rparr>, case r of Inl _ \<Rightarrow> None | Inr e \<Rightarrow> Some e))"

text \<open>
  The parts of \<^verbatim>\<open>init_config\<close>.  A part that ends in \<^verbatim>\<open>crash_and_burn\<close> does not return; the
  patches up to then have been applied.  \<^verbatim>\<open>minute_location\<close> is the pointer of its entry, as
  the source has it.
\<close>

definition config_rednand :: "bool \<Rightarrow> boot \<Rightarrow> boot \<times> outcome" where
  "config_rednand is_55x b =
     (let (b, r) = get_entry ''rednand'' b
      in case r of None \<Rightarrow> (b, Returned)
         | Some (p, sz) \<Rightarrow>
             if \<not> c_initilized (rednand_config_at (bmem b) p) then (b, Returned)
             else if \<not> is_55x then (b, Stopped)
             else let (st, ps, out) = rednand_init (rednand_config_at (bmem b) p) (unat sz) (brednand b)
                  in (add_patches ps (b\<lparr>brednand := st\<rparr>), out))"

definition config_fw_path :: "boot_env \<Rightarrow> boot \<Rightarrow> boot" where
  "config_fw_path env b =
     (let (b, r1) = get_entry ''minute_on_slc'' b;
          (b, r2) = get_entry ''minute_location'' b;
          on_slc = (case r2 of Some (loc, _) \<Rightarrow> bit loc 0 | None \<Rightarrow> r1 \<noteq> None);
          b = (case r2 of
                 Some (loc, _) \<Rightarrow> if bit loc 1 then strcpy_lit (obj env ''fw_img_filename_buffer'') ''minute.img'' b else b
               | None \<Rightarrow> b)
      in if on_slc then strcpy_lit (obj env ''fw_img_path_buffer'') ''/vol/system/hax'' b else b)"

definition config_seeprom :: "boot \<Rightarrow> boot \<times> outcome" where
  "config_seeprom b =
     (let (b, r) = get_entry ''seeprom'' b
      in case r of None \<Rightarrow> (b, Returned)
         | Some (p, sz) \<Rightarrow>
             if sz < SEEPROM_SIZE then (b, Stopped)
             else (add_patches redseeprom_enable (b\<lparr>seeprom_ptr := Some p\<rparr>), Returned))"

definition init_config :: "boot_env \<Rightarrow> bool \<Rightarrow> boot \<Rightarrow> boot \<times> outcome" where
  "init_config env is_55x b =
     (let (b, boot) = get_entry ''minute_boot'' b
      in if boot = None then (b, Stopped)
         else
           let (b, _) = get_entry ''stroopwafel_config'' b;
               (b, out) = config_rednand is_55x b
           in if out = Stopped then (b, Stopped)
              else
                let b = config_fw_path env b;
                    (b, otp) = get_entry ''otp'' b;
                    b = (case otp of Some (p, _) \<Rightarrow> b\<lparr>otp_ptr := p\<rparr> | None \<Rightarrow> b)
                in config_seeprom b)"

section \<open>Patches of every firmware\<close>

text \<open>
  The read of the OTP: the pattern is searched in a megabyte of the kernel, then at most
  0x100 words back for the instruction that begins the function, over which the stub is
  copied.  The result of the search is not checked: without a match the walk back starts
  at address 0.
\<close>

definition OTP_PATTERN :: "u8 list" where
  "OTP_PATTERN = [0xE5, 0x85, 0x31, 0xEC, 0xE0, 0x84, 0x00, 0x07]"

fun walk_back :: "mem \<Rightarrow> nat \<Rightarrow> u32 \<Rightarrow> u32" where
  "walk_back m 0 a = a"
| "walk_back m (Suc n) a = (if read32 m a = 0xE92D47F0 then a else walk_back m n (a - 4))"

definition patch_otp :: "boot_env \<Rightarrow> boot \<Rightarrow> boot option" where
  "patch_otp env b =
     (if otp_ptr b = 0 then Some b
      else do {
        found \<leftarrow> boyer_moore_search (stack_table env) (load_bytes (bmem b) 0x08100000 0x100000) OTP_PATTERN;
        let a = (case found of Some k \<Rightarrow> 0x08100000 + of_nat k | None \<Rightarrow> 0);
        let a = walk_back (bmem b) 0x100 a;
        Some (b\<lparr>bmem := memmove (bmem b) a (obj env ''otp_read_replace_hacky'') (otp_stub_len env)\<rparr>) })"

definition MMU_PATTERN :: "u8 list" where
  "MMU_PATTERN = [0xE1, 0xA0, 0x10, 0x00, 0xE3, 0xA0, 0x23, 0x2A]"

text \<open>The early mapping: a pattern that is not found ends in \<^verbatim>\<open>while(1)\<close>, here \<open>None\<close>.\<close>

definition patch_mmu :: "boot_env \<Rightarrow> boot \<Rightarrow> boot option" where
  "patch_mmu env b =
     (case boyer_moore_search (stack_table env) (load_bytes (bmem b) 0x08100000 0x200000) MMU_PATTERN of
        Some (Some k) \<Rightarrow>
          Some (add_patches [ASM_PATCH (0x08100000 + of_nat k) ''mov r2, #0x400000; sub r1, r0, r2; mov r0, r1''] b)
      | _ \<Rightarrow> None)"

definition patch_general :: "boot_env \<Rightarrow> boot \<Rightarrow> boot option" where
  "patch_general env b = do { b \<leftarrow> patch_otp env b; patch_mmu env b }"

text \<open>
  The three mappings the kernel's table is replaced by: virtual and physical address, size,
  and the words the source leaves unnamed.
\<close>

definition mcpIoMappings_patch :: "u32 list" where
  "mcpIoMappings_patch =
     [0x0D000000, 0x0D000000, 0x001C0000, 0, 3, 0,
      0x0D800000, 0x0D800000, 0x001C0000, 0, 3, 0,
      0x0C200000, 0x0C200000, 0x00100000, 0, 3, 0]"

text \<open>What the stub does in C: the copy, between \<^verbatim>\<open>irq_kill\<close> and \<^verbatim>\<open>irq_restore\<close>.\<close>

definition otp_read_replace :: "boot \<Rightarrow> u32 \<Rightarrow> u32 \<Rightarrow> nat \<Rightarrow> boot \<times> int" where
  "otp_read_replace b which_word pOut len =
     (b\<lparr>bmem := memmove (bmem b) pOut (otp_ptr b + 4 * which_word) len\<rparr>, 0)"

text \<open>A little-endian load at any address.\<close>

definition read32_unaligned_reversed :: "mem \<Rightarrow> u32 \<Rightarrow> u32" where
  "read32_unaligned_reversed m p =
     (let val_3 = ucast (m p); val_2 = ucast (m (p + 1)); val_1 = ucast (m (p + 2)); val_0 = ucast (m (p + 3))
      in push_bit 24 val_0 OR push_bit 16 val_1 OR push_bit 8 val_2 OR val_3)"

text \<open>
  The hooks that let FS mount FAT on USB (off in \<^verbatim>\<open>config.h\<close>): the driver also takes USB
  devices, and a FAT volume on one is named \<^verbatim>\<open>ext\<close>.  The two functions of the firmware are
  parameters, \<open>hax\<close> is the register the second hook reads.
\<close>

definition fat_register_hook :: "(mem \<Rightarrow> u32 \<Rightarrow> mem \<times> u32) \<Rightarrow> mem \<Rightarrow> u32 \<Rightarrow> mem \<times> u32" where
  "fat_register_hook FS_REGISTER_FS_DRIVER m opaque =
     FS_REGISTER_FS_DRIVER (m(opaque + 0xC := 6, opaque + 0xD := 0x11, opaque + 0xE := 0)) opaque"

definition fsa_dev_register_hook :: "(int \<Rightarrow> string) \<Rightarrow> mem \<Rightarrow> u32 \<Rightarrow> int \<Rightarrow> string" where
  "fsa_dev_register_hook FS_DEVTYPE_TO_NAME m hax a =
     (if a = 0x11 \<and> load_bytes m (read32 m (hax + 0x5C) + 8) 4 = str ''fat'' @ [0]
      then ''ext'' else FS_DEVTYPE_TO_NAME a)"

text \<open>
  The abort handlers print what they find on the abort stack and stop: the sixteen registers, the
  instruction that was executed, and the words that follow; \<open>which\<close> is 0, 1 and 2 for a prefetch
  abort, a data abort and an undefined instruction.
\<close>

definition abt_replace :: "mem \<Rightarrow> u32 \<Rightarrow> nat \<Rightarrow> u32 list \<times> u32 \<times> u32 list" where
  "abt_replace m stack which =
     (let word = \<lambda>i. read32 m (stack + 4 * of_nat i)
      in (map (\<lambda>i. word (i + 1)) [0..<16],
          read32 m (word 16 + (if which = 1 then - 8 else if which = 2 then - 4 else 0)),
          map word [16..<128]))"

section \<open>Patches of 5.5.x\<close>

text \<open>
  One list per module, in the order of the source, for the configuration of \<^verbatim>\<open>config.h\<close>
  (\<^verbatim>\<open>MCP_PATCHES\<close>, \<^verbatim>\<open>BOOT_DIRS_CLEAR\<close> and \<^verbatim>\<open>OTP_IN_MEM\<close> are on; the other switches are
  off, and with them every patch of FS).
\<close>

definition patch_55x_kernel :: "boot_env \<Rightarrow> patch_op list" where
  "patch_55x_kernel env =
     [U32_PATCH 0x08140DE0 (obj env ''mcpIoMappings_patch''),
      U32_PATCH 0x08140DE4 3,
      U32_PATCH 0x08140DE8 (uid_val IOS_MCP),
      ASM_PATCH 0x081253C4 ''str r3, [r7,#0x10]; str r3, [r7,#0x0C]; str r3, [r7,#0x04]; str r3, [r7,#0x14]; str r3, [r7,#0x08]; str r3, [r7,#0x34]'',
      ASM_PATCH 0x081253B8 ''str r3, [r7,#28]'',
      ASM_PATCH 0x08124678 ''mov r6, #3'',
      ASM_PATCH 0x08125270 ''orr r3, #0x650'',
      ASM_PATCH 0x08124D88 ''mov r12, #3'',
      ASM_PATCH 0x081223FC ''bx lr'',
      ASM_PATCH 0x08120374 ''mov r12, #0x3'',
      ASM_PATCH 0x081203C4 ''nop'',
      ASM_PATCH 0x08124AD8 ''mov r0, #0x0; bx lr'',
      ASM_PATCH 0x0812A088 ''mov r1, r5; mov r2, r6; mov r3, r7; bx r4'',
      ASM_PATCH 0x0812A134 ''ldr r3, _iabt_hook; bx r3; _iabt_hook: .word iabt_replace'',
      ASM_PATCH 0x0812A1AC ''ldr r3, _dabt_hook; bx r3; _dabt_hook: .word dabt_replace'',
      ASM_PATCH 0x08129E50 ''ldr r3, _undef_hook; bx r3; _undef_hook: .word undef_abt_replace'',
      ASM_PATCH 0x08129AA0 ''ldr r3, _panic_hook; bx r3; _panic_hook: .word ios_panic_replace'',
      HOOK_BEFORE 0x081214dc ''ipc_init'']"

definition patch_55x_mcp_launch :: "boot_env \<Rightarrow> u32 \<Rightarrow> patch_op list" where
  "patch_55x_mcp_launch env entry =
     [T_ASM_PATCH 0x0501F7A2 ''MOVS R0,#1'',
      T_ASM_PATCH 0x0501F9A2 ''MOVS R0, #1'',
      BL_TRAMPOLINE entry ''MCP_ALTBASE_ADDR(mcp_entry)'',
      BL_T_TRAMPOLINE 0x0500A678 ''MCP_ALTBASE_ADDR(ancast_crypt_check)'',
      BL_T_TRAMPOLINE 0x050282AE ''MCP_ALTBASE_ADDR(launch_os_hook)'',
      U32_PATCH 0x050284D8 (obj env ''fw_img_path_buffer''),
      U32_PATCH 0x050284E0 (obj env ''fw_img_filename_buffer''),
      T_ASM_PATCH 0x05016C8C ''push {lr}'',
      BL_T_TRAMPOLINE 0x05016C8E ''MCP_ALTBASE_ADDR(boot_dirs_clear_t)'',
      T_ASM_PATCH 0x05016C92 ''mov r0, #0; pop {pc}'',
      U32_PATCH 0x05022474 0xFFFFFFFF,
      T_ASM_PATCH 0x0502E59A ''mov r0, #0x0'',
      T_HOOK_BEFORE 0x0502001E ''sleep_hook'']"

text \<open>The second half; \<open>ramdisk_size\<close> is the word at \<^verbatim>\<open>0x0502365C\<close> that is patched.\<close>

definition patch_55x_mcp_checks :: "boot_env \<Rightarrow> u32 \<Rightarrow> patch_op list" where
  "patch_55x_mcp_checks env ramdisk_size =
     [T_ASM_PATCH 0x0500A818 ''mov r0, #0; mov r0, #0'',
      ASM_PATCH 0x05052C44 ''mov r0, #0; bx lr'',
      T_ASM_PATCH 0x0500A7C8 ''nop; nop'',
      T_ASM_PATCH 0x0500A7D0 ''nop; nop; nop; nop; nop; nop; nop; nop; nop; nop; nop; nop; nop'',
      T_ASM_PATCH 0x0500A7F4 ''nop; nop; nop; nop; nop; mov r3, #0x2'',
      T_ASM_PATCH 0x05025EE6 ''mov r0, #0; nop'',
      T_ASM_PATCH 0x05026BA8 ''mov r0, #0; nop'',
      T_ASM_PATCH 0x05026C54 ''mov r0, #0; nop'',
      T_ASM_PATCH 0x0502574E ''nop; nop'',
      ASM_PATCH 0x05052A90 ''mov r0, #0; bx lr'',
      T_ASM_PATCH 0x0500A7CA ''nop'',
      T_ASM_PATCH 0x05014CAC ''mov r0, #0; bx lr'',
      U32_PATCH 0x0502365C (ramdisk_size - CARVEOUT_SZ (plugin_base env)),
      BL_T_TRAMPOLINE 0x05008BB6 ''MCP_ALTBASE_ADDR(c2w_seeprom_hook_t)'',
      T_ASM_PATCH 0x05008C18 ''mov r4, #0x50; lsl r4, r4, #0x4'',
      BL_T_TRAMPOLINE 0x05008810 ''MCP_ALTBASE_ADDR(c2w_boot_hook_t)'',
      T_ASM_PATCH 0x05008814 ''nop'']"

definition patch_55x_acp :: "patch_op list" where
  "patch_55x_acp = [ASM_PATCH 0xE0030BC0 ''mov r0, #0; bx lr'', ASM_PATCH 0xE0030474 ''mov r0, #0; bx lr'']"

definition patch_55x_crypto :: "patch_op list" where
  "patch_55x_crypto =
     [ASM_PATCH 0x040017E0 ''mov r0, #0'', ASM_PATCH 0x040019C4 ''mov r0, #0'',
      ASM_PATCH 0x04001BB0 ''mov r0, #0'', ASM_PATCH 0x04001D40 ''mov r0, #0'',
      BL_TRAMPOLINE 0x04002D5C ''MCP_ALTBASE_ADDR(crypto_keychange_hook)'',
      BL_TRAMPOLINE 0x04002EE8 ''MCP_ALTBASE_ADDR(crypto_disable_hook)'',
      BL_TRAMPOLINE 0x04003120 ''MCP_ALTBASE_ADDR(crypto_keychange_hook)'',
      BL_TRAMPOLINE 0x040032A0 ''MCP_ALTBASE_ADDR(crypto_disable_hook)'',
      ASM_PATCH 0x040045A8 ''mov r2, #0; mov r3, #0'']"

definition patch_55x :: "boot_env \<Rightarrow> boot \<Rightarrow> boot" where
  "patch_55x env b =
     (let m = bmem b;
          entry = ios_elf_get_module_entrypoint m (uid_val IOS_MCP);
          ramdisk_size = read32 m (ios_elf_vaddr_to_paddr m 0x0502365C)
      in add_patches (patch_55x_kernel env @ patch_55x_mcp_launch env entry @
           patch_55x_mcp_checks env ramdisk_size @ patch_55x_acp @ patch_55x_crypto) b)"

section \<open>The entry points\<close>

definition is_55x :: "mem \<Rightarrow> bool" where
  "is_55x m \<longleftrightarrow> ios_elf_get_module_entrypoint m (uid_val IOS_MCP) = 0x05056718 \<and>
     read32 m 0x08120248 = 0xE92D47F0 \<and> read32 m 0x08120290 = 0xE58531EC"

text \<open>\<^verbatim>\<open>kern_main\<close>; the invalidation of the instruction cache at its end is \<open>Cache.ic_invalidateall\<close>.\<close>

definition kern_main :: "boot_env \<Rightarrow> boot \<Rightarrow> (boot \<times> outcome) option" where
  "kern_main env b =
     do { let b = b\<lparr>bmem := init_phdrs (plugin_base env) (bmem b)\<rparr>;
          b \<leftarrow> init_linking env b;
          let v = is_55x (bmem b);
          let (b, out) = init_config env v b;
          if out = Stopped then Some (b, Stopped)
          else do { b \<leftarrow> patch_general env b;
                    let b = (if v then patch_55x env b else b);
                    b \<leftarrow> call_plugin_entry env ''kern_entry'' b;
                    Some (b, Returned) } }"

text \<open>
  \<^verbatim>\<open>mcp_main\<close> starts a thread that only prints, when the kernel gives it one, and calls the
  plugins.
\<close>

definition mcp_main :: "boot_env \<Rightarrow> boot \<Rightarrow> boot option" where
  "mcp_main env b = call_plugin_entry env ''mcp_entry'' b"

section \<open>vWii: patches in the images that are about to boot\<close>

text \<open>A scan that replaces the first word equal to \<open>old\<close>.\<close>

partial_function (option) replace_word :: "mem \<Rightarrow> u32 \<Rightarrow> u32 \<Rightarrow> u32 \<Rightarrow> u32 \<Rightarrow> mem option" where
  "replace_word m a stop old new =
     (if a < stop
      then if read32 m a = old then Some (write32 m a new) else replace_word m (a + 4) stop old new
      else Some m)"

definition c2w_boot_hook_fixup_c2w_ptrs :: "mem \<Rightarrow> mem option" where
  "c2w_boot_hook_fixup_c2w_ptrs m = replace_word m 0x01000000 0x01F80000 0xFFF07F00 0xFFF07B00"

definition c2w_boot_hook_fixup_ios_ptrs :: "mem \<Rightarrow> mem option" where
  "c2w_boot_hook_fixup_ios_ptrs m =
     (let ios_paddr = read32 m 0x1018
      in replace_word m ios_paddr (ios_paddr + 0x260000) 0xFFFE7CC0 0xFFFE7B00)"

partial_function (option) find_push :: "mem \<Rightarrow> u32 \<Rightarrow> u32 \<Rightarrow> u32 \<Rightarrow> nat \<Rightarrow> mem option" where
  "find_push m b low stub len =
     (if low \<le> b
      then if read16 m b = 0xB5F0 then Some (memmove m b stub len) else find_push m (b - 2) low stub len
      else Some m)"

partial_function (option) otpread_loop :: "mem \<Rightarrow> u32 \<Rightarrow> u32 \<Rightarrow> u32 \<Rightarrow> nat \<Rightarrow> mem option" where
  "otpread_loop m a stop stub len =
     (if a < stop
      then if read32 m a = 0x0D8001EC
           then do { m \<leftarrow> find_push m a (a - 0x1000) stub len; otpread_loop m (a + 4) stop stub len }
           else otpread_loop m (a + 4) stop stub len
      else Some m)"

definition c2w_boot_hook_find_and_replace_otpread :: "u32 \<Rightarrow> nat \<Rightarrow> mem \<Rightarrow> mem option" where
  "c2w_boot_hook_find_and_replace_otpread stub len m =
     (let ios_paddr = read32 m 0x1018 in otpread_loop m ios_paddr (ios_paddr + 0x260000) stub len)"

partial_function (option) oc_loop :: "mem \<Rightarrow> u32 \<Rightarrow> u32 \<Rightarrow> mem option" where
  "oc_loop m a stop =
     (if a < stop
      then if read32 m a = 0xE3C22020 \<and> read32 m (a + 4) = 0xE3822020 then Some (write32 m (a + 4) 0)
           else oc_loop m (a + 4) stop
      else Some m)"

definition c2w_oc_hax_patch :: "mem \<Rightarrow> mem option" where
  "c2w_oc_hax_patch m = oc_loop m 0x01000000 0x01F80000"

text \<open>\<^verbatim>\<open>hai_redirect_mlc2sd\<close>: both strings take 16 bytes with their terminators.\<close>

partial_function (option) redirect_loop :: "mem \<Rightarrow> u32 \<Rightarrow> u32 \<Rightarrow> mem option" where
  "redirect_loop m a stop =
     (if a < stop
      then redirect_loop
             (if load_bytes m a 16 = str ''/dev/sdio/MLC01'' @ [0]
              then store_bytes m a (str ''/dev/sdio/slot0'' @ [0]) else m) (a + 2) stop
      else Some m)"

definition hai_redirect_mlc2sd :: "mem \<Rightarrow> mem option" where
  "hai_redirect_mlc2sd m =
     (let ios_paddr = read32 m 0x1018 in redirect_loop m ios_paddr (ios_paddr + 0x260000))"

definition rednand_patch_hai :: "rednand_state \<Rightarrow> mem \<Rightarrow> mem option" where
  "rednand_patch_hai st m =
     (if hai_from_mlc (hai st) \<and> partition_size (redmlc st) \<noteq> 0 then hai_redirect_mlc2sd m else Some m)"

definition c2w_patches :: "rednand_state \<Rightarrow> u32 \<Rightarrow> nat \<Rightarrow> mem \<Rightarrow> mem option" where
  "c2w_patches st stub len m =
     do { m \<leftarrow> c2w_boot_hook_fixup_c2w_ptrs m;
          m \<leftarrow> c2w_boot_hook_find_and_replace_otpread stub len m;
          m \<leftarrow> c2w_boot_hook_fixup_ios_ptrs m;
          rednand_patch_hai st m }"

end
