(* ===== verification/BootFacts.thy ===== *)
theory BootFacts
  imports Boot
begin

text \<open>
  What the boot of \<open>Boot\<close> guarantees: the patches of 5.5.x do not overwrite each other or
  those of the redirection, the plugins run in the order of the RAM disk, and the scans of
  the vWii images end and replace what they look for.
\<close>

section \<open>Regions of the patches\<close>

text \<open>One instruction per statement: four bytes in ARM code, two in Thumb code.\<close>

definition statements :: "string \<Rightarrow> nat" where
  "statements s = Suc (length (filter (\<lambda>c. c = CHR '';'') s))"

fun patch_size :: "patch_op \<Rightarrow> nat" where
  "patch_size (ASM_PATCH a s) = 4 * statements s"
| "patch_size (T_ASM_PATCH a s) = 2 * statements s"
| "patch_size _ = 4"

definition region :: "patch_op \<Rightarrow> nat \<times> nat" where
  "region p = (unat (patch_addr p), unat (patch_addr p) + patch_size p)"

definition apart :: "nat \<times> nat \<Rightarrow> nat \<times> nat \<Rightarrow> bool" where
  "apart r s \<longleftrightarrow> snd r \<le> fst s \<or> snd s \<le> fst r"

text \<open>The redirection's patches, whatever the configuration.\<close>

definition redirection_patches :: "patch_op list" where
  "redirection_patches =
     apply_scfm_disable_patches @ rednand_apply_slc_patches @ rednand_apply_mount_sys_mlc_patches @
     [HOOK_BEFORE 0x107bd9a8 ''rednand_register_sd_as_mlc'', T_HOOK_BEFORE 0x050078AE ''hai_write_file_patch'',
      HOOK_BEFORE 0x10707b70 ''get_block_addr_haidev_patch'',
      HOOK_BEFORE 0x107bd754 ''skip_mlc_attch_hook'', ASM_PATCH 0x107bdae0 ''mov r0, #0xFFFFFFFF''] @
     rednand_install_crypto_hooks @ redseeprom_enable"

lemma regions_kernel: "map region (patch_55x_kernel env) =
     [(0x08140de0, 0x08140de4), (0x08140de4, 0x08140de8), (0x08140de8, 0x08140dec), (0x081253c4, 0x081253dc),
      (0x081253b8, 0x081253bc), (0x08124678, 0x0812467c), (0x08125270, 0x08125274), (0x08124d88, 0x08124d8c),
      (0x081223fc, 0x08122400), (0x08120374, 0x08120378), (0x081203c4, 0x081203c8), (0x08124ad8, 0x08124ae0),
      (0x0812a088, 0x0812a098), (0x0812a134, 0x0812a140), (0x0812a1ac, 0x0812a1b8), (0x08129e50, 0x08129e5c),
      (0x08129aa0, 0x08129aac), (0x081214dc, 0x081214e0)]"
  by (simp add: patch_55x_kernel_def region_def statements_def)

lemma regions_mcp_launch: "map region (patch_55x_mcp_launch env 0x05056718) =
     [(0x0501f7a2, 0x0501f7a4), (0x0501f9a2, 0x0501f9a4), (0x05056718, 0x0505671c), (0x0500a678, 0x0500a67c),
      (0x050282ae, 0x050282b2), (0x050284d8, 0x050284dc), (0x050284e0, 0x050284e4), (0x05016c8c, 0x05016c8e),
      (0x05016c8e, 0x05016c92), (0x05016c92, 0x05016c96), (0x05022474, 0x05022478), (0x0502e59a, 0x0502e59c),
      (0x0502001e, 0x05020022)]"
  by (simp add: patch_55x_mcp_launch_def region_def statements_def)

lemma regions_mcp_checks: "map region (patch_55x_mcp_checks env sz) =
     [(0x0500a818, 0x0500a81c), (0x05052c44, 0x05052c4c), (0x0500a7c8, 0x0500a7cc), (0x0500a7d0, 0x0500a7ea),
      (0x0500a7f4, 0x0500a800), (0x05025ee6, 0x05025eea), (0x05026ba8, 0x05026bac), (0x05026c54, 0x05026c58),
      (0x0502574e, 0x05025752), (0x05052a90, 0x05052a98), (0x0500a7ca, 0x0500a7cc), (0x05014cac, 0x05014cb0),
      (0x0502365c, 0x05023660), (0x05008bb6, 0x05008bba), (0x05008c18, 0x05008c1c), (0x05008810, 0x05008814),
      (0x05008814, 0x05008816)]"
  by (simp add: patch_55x_mcp_checks_def region_def statements_def)

lemma regions_acp: "map region patch_55x_acp =
     [(0xe0030bc0, 0xe0030bc8), (0xe0030474, 0xe003047c)]"
  by (simp add: patch_55x_acp_def region_def statements_def)

lemma regions_crypto: "map region patch_55x_crypto =
     [(0x040017e0, 0x040017e4), (0x040019c4, 0x040019c8), (0x04001bb0, 0x04001bb4), (0x04001d40, 0x04001d44),
      (0x04002d5c, 0x04002d60), (0x04002ee8, 0x04002eec), (0x04003120, 0x04003124), (0x040032a0, 0x040032a4),
      (0x040045a8, 0x040045b0)]"
  by (simp add: patch_55x_crypto_def region_def statements_def)

lemma regions_redirection: "map region redirection_patches =
     [(0x107e7604, 0x107e7608), (0x107e5fc8, 0x107e5fcc), (0x107bdae0, 0x107bdae4), (0x107b96b8, 0x107b96bc),
      (0x107b96bc, 0x107b96c0), (0x107b998c, 0x107b9990), (0x107b98fc, 0x107b9900), (0x107b9870, 0x107b9874),
      (0x107b97e4, 0x107b97e8), (0x107206f0, 0x107206f4), (0xe600cf5c, 0xe600cf64), (0xe600d010, 0xe600d018),
      (0x10700294, 0x10700298), (0x107187cc, 0x107187d0), (0x107bd81c, 0x107bd820), (0x107bddd4, 0x107bddd8),
      (0x107bdd64, 0x107bdd68), (0x107bd374, 0x107bd378), (0x107bdb00, 0x107bdb04), (0x107d1f24, 0x107d1f28),
      (0x107d1f40, 0x107d1f44), (0x107bdae0, 0x107bdae4), (0x051001d6, 0x051001da), (0x107bd9a8, 0x107bd9ac),
      (0x050078ae, 0x050078b2), (0x10707b70, 0x10707b74), (0x107bd754, 0x107bd758), (0x107bdae0, 0x107bdae4),
      (0x107435f4, 0x107435f8), (0xe600d08c, 0xe600d094), (0xe600d010, 0xe600d018), (0xe600cf5c, 0xe600cf64)]"
  by (simp add: redirection_patches_def apply_scfm_disable_patches_def rednand_apply_slc_patches_def
      rednand_apply_mount_sys_mlc_patches_def hai_apply_force_mlc_patch_def rednand_install_crypto_hooks_def
      redseeprom_enable_def region_def statements_def)


definition patches_55x :: "boot_env \<Rightarrow> u32 \<Rightarrow> patch_op list" where
  "patches_55x env sz =
     patch_55x_kernel env @ patch_55x_mcp_launch env 0x05056718 @
     patch_55x_mcp_checks env sz @ patch_55x_acp @ patch_55x_crypto"

lemmas regions_55x = regions_kernel regions_mcp_launch regions_mcp_checks regions_acp regions_crypto

text \<open>The one overlap: \<^verbatim>\<open>nop\<close> over the second of two \<^verbatim>\<open>nop\<close>s.\<close>

abbreviation nop_overlap :: "(nat \<times> nat) \<Rightarrow> (nat \<times> nat) \<Rightarrow> bool" where
  "nop_overlap r s \<equiv> r = (0x0500A7C8, 0x0500A7CC) \<and> s = (0x0500A7CA, 0x0500A7CC)"

fun all_pairs :: "('a \<Rightarrow> 'a \<Rightarrow> bool) \<Rightarrow> 'a list \<Rightarrow> bool" where
  "all_pairs P [] = True"
| "all_pairs P (x # xs) = (list_all (P x) xs \<and> all_pairs P xs)"

lemma all_pairsD:
  "all_pairs P xs \<Longrightarrow> x \<in> set xs \<Longrightarrow> y \<in> set xs \<Longrightarrow> x \<noteq> y \<Longrightarrow> P x y \<or> P y x"
  by (induction xs) (auto simp: list_all_iff)

lemma regions_55x_apart:
  "all_pairs (\<lambda>r s. r \<noteq> s \<and> (apart r s \<or> nop_overlap r s)) (map region (patches_55x env sz))"
  unfolding patches_55x_def map_append regions_55x by (simp add: apart_def)

lemma regions_redirection_apart:
  "list_all (\<lambda>r. list_all (apart r) (map region redirection_patches)) (map region (patches_55x env sz))"
  unfolding patches_55x_def map_append regions_55x regions_redirection by (simp add: apart_def)

lemma all_pairs_map: "all_pairs P (map f xs) = all_pairs (\<lambda>x y. P (f x) (f y)) xs"
  by (induction xs) (auto simp: list_all_iff)

lemma patches_55x_apart:
  assumes "p \<in> set (patches_55x env sz)" "q \<in> set (patches_55x env sz)" "p \<noteq> q"
  shows "apart (region p) (region q) \<or> nop_overlap (region p) (region q) \<or> nop_overlap (region q) (region p)"
  using all_pairsD [OF regions_55x_apart [unfolded all_pairs_map] assms] by (auto simp: apart_def)

lemma redirection_apart:
  assumes "p \<in> set (patches_55x env sz)" "q \<in> set redirection_patches"
  shows "apart (region p) (region q)"
  using regions_redirection_apart [of env sz] assms by (auto simp: list_all_iff)

section \<open>The patches of a configuration\<close>

lemma rednand_init_listed:
  assumes "rednand_init conf sz st = (st', ps, out)"
  shows "set ps \<subseteq> set redirection_patches"
proof (cases "sz < SIZEOF_V1")
  case True
  with assms show ?thesis by (simp add: rednand_init_def)
next
  case False
  have mlc: "set (snd (rednand_apply_mlc_patches mount h)) \<subseteq> set redirection_patches" for mount h
    unfolding mlc_patches_eq redirection_patches_def set_append by auto
  show ?thesis
    by (rule rednand_init_patches [OF _ assms])
       (use False mlc in \<open>auto simp: redirection_patches_def split: if_splits\<close>)
qed

lemma get_entry_same:
  assumes "get_entry name b = (b', r)"
  shows "patches b' = patches b" "bmem b' = bmem b" "otp_ptr b' = otp_ptr b" "calls b' = calls b"
  using assms by (auto simp: get_entry_def split: prod.splits)

lemma config_rednand_patches:
  assumes "config_rednand v b = (b', out)"
  shows "\<exists>ps. patches b' = patches b @ ps \<and> set ps \<subseteq> set redirection_patches"
    "\<not> v \<Longrightarrow> patches b' = patches b"
proof -
  obtain b1 r where g: "get_entry ''rednand'' b = (b1, r)" by force
  note same = get_entry_same [OF g]
  show "\<not> v \<Longrightarrow> patches b' = patches b"
    using assms same(1) by (auto simp: config_rednand_def g split: option.splits if_splits)
  show "\<exists>ps. patches b' = patches b @ ps \<and> set ps \<subseteq> set redirection_patches"
  proof (cases "v \<and> (\<exists>p sz. r = Some (p, sz) \<and> c_initilized (rednand_config_at (bmem b1) p))")
    case True
    then obtain p sz where r: "r = Some (p, sz)" "c_initilized (rednand_config_at (bmem b1) p)" "v" by blast
    obtain st ps o' where i: "rednand_init (rednand_config_at (bmem b1) p) (unat sz) (brednand b1) = (st, ps, o')"
      by (cases "rednand_init (rednand_config_at (bmem b1) p) (unat sz) (brednand b1)") auto
    from assms have "patches b' = patches b @ ps"
      by (auto simp: config_rednand_def g r i same(1) add_patches_def)
    then show ?thesis using rednand_init_listed [OF i] by blast
  next
    case False
    then have "patches b' = patches b"
      using assms same(1) by (auto simp: config_rednand_def g split: option.splits if_splits)
    then show ?thesis by simp
  qed
qed

lemma config_fw_path_patches [simp]: "patches (config_fw_path env b) = patches b"
  by (auto simp: config_fw_path_def strcpy_lit_def Let_def split_beta get_entry_same [OF surjective_pairing]
      split: option.split)

lemma config_seeprom_patches:
  assumes "config_seeprom b = (b', out)"
  shows "\<exists>qs. patches b' = patches b @ qs \<and> qs \<in> {[], redseeprom_enable}"
  using assms get_entry_same(1) [OF surjective_pairing, of "''seeprom''" b]
  by (auto simp: config_seeprom_def add_patches_def split_beta split: option.splits if_splits)

lemma init_config_patches:
  assumes "init_config env v b = (b', out)"
  shows "\<exists>ps qs. patches b' = patches b @ ps @ qs \<and> set ps \<subseteq> set redirection_patches \<and>
    (\<not> v \<longrightarrow> ps = []) \<and> qs \<in> {[], redseeprom_enable}"
proof -
  obtain b1 r1 where g1: "get_entry ''minute_boot'' b = (b1, r1)" by force
  obtain b2 r2 where g2: "get_entry ''stroopwafel_config'' b1 = (b2, r2)" by force
  obtain b3 o3 where c: "config_rednand v b2 = (b3, o3)" by force
  obtain ps where ps: "patches b3 = patches b @ ps" "set ps \<subseteq> set redirection_patches" "\<not> v \<longrightarrow> ps = []"
    using config_rednand_patches [OF c] get_entry_same(1) [OF g1] get_entry_same(1) [OF g2]
    by (cases v) auto
  obtain b4 r4 where g4: "get_entry ''otp'' (config_fw_path env b3) = (b4, r4)" by force
  let ?b5 = "case r4 of Some (p, _) \<Rightarrow> b4\<lparr>otp_ptr := p\<rparr> | None \<Rightarrow> b4"
  have b5: "patches ?b5 = patches b @ ps"
    using get_entry_same(1) [OF g4] ps(1) by (auto split: option.split)
  obtain b6 o6 where s: "config_seeprom ?b5 = (b6, o6)" by force
  have q: "\<exists>qs. patches b6 = patches b @ ps @ qs \<and> qs \<in> {[], redseeprom_enable}"
    using config_seeprom_patches [OF s] b5 by simp
  have "b' = b1 \<or> b' = b3 \<or> b' = b6"
    using assms by (auto simp: init_config_def g1 g2 c g4 s split: if_splits)
  then show ?thesis
  proof (elim disjE)
    assume "b' = b1"
    then show ?thesis using get_entry_same(1) [OF g1] by (intro exI [of _ "[]"]) simp
  next
    assume "b' = b3"
    then show ?thesis using ps by (intro exI [of _ ps] exI [of _ "[]"]) simp
  next
    assume "b' = b6"
    then show ?thesis using ps q by blast
  qed
qed

lemma patch_otp_patches: "patch_otp env b = Some b' \<Longrightarrow> patches b' = patches b"
  by (auto simp: patch_otp_def Let_def split: if_splits bind_splits)

lemma patch_general_patches:
  assumes "patch_general env b = Some b'"
  shows "\<exists>k. patches b' = patches b @ [ASM_PATCH (0x08100000 + of_nat k) ''mov r2, #0x400000; sub r1, r0, r2; mov r0, r1'']"
  using assms patch_otp_patches [of env b]
  by (auto simp: patch_general_def patch_mmu_def add_patches_def split: bind_splits option.splits)

section \<open>The chain of plugins\<close>

fun chain :: "mem \<Rightarrow> u32 \<Rightarrow> u32 list \<Rightarrow> bool" where
  "chain m p [] \<longleftrightarrow> wafel_plugin_next m p = 0"
| "chain m p (n # ns) \<longleftrightarrow> wafel_plugin_next m p = n \<and> n \<noteq> 0 \<and> chain m n ns"

abbreviation is_elf :: "mem \<Rightarrow> u32 \<Rightarrow> bool" where
  "is_elf m n \<equiv> read32 m n = IPX_ELF_MAGIC"

lemma register_loop_chain:
  assumes "chain (bmem b) p ns"
    and "\<And>n. n \<in> set ns \<Longrightarrow> is_elf (bmem b) n \<Longrightarrow>
      wafel_get_symbol_addr (bmem b) n (lit env ''enable_debug_printf'') = Some (dbg n)"
  shows "register_loop env p b = Some (b\<lparr>
      elfs := foldl wafel_register_plugin (elfs b) (filter (is_elf (bmem b)) ns),
      debug_printf_enabled := debug_printf_enabled b \<or> (\<exists>n\<in>set ns. is_elf (bmem b) n \<and> dbg n \<noteq> 0)\<rparr>)"
  using assms
proof (induction ns arbitrary: p b)
  case Nil
  then show ?case by (subst register_loop.simps) simp
next
  case (Cons n ns)
  let ?b = "b\<lparr>elfs := wafel_register_plugin (elfs b) n\<rparr>"
  have step: "wafel_plugin_next (bmem b) p = n" "n \<noteq> 0" "chain (bmem b) n ns"
    using Cons.prems(1) by simp_all
  show ?case
  proof (cases "is_elf (bmem b) n")
    case False
    then show ?thesis
      using step Cons.IH [of b n] Cons.prems(2) by (subst register_loop.simps) simp
  next
    case True
    then have l: "wafel_get_symbol_addr (bmem b) n (lit env ''enable_debug_printf'') = Some (dbg n)"
      using Cons.prems(2) by simp
    show ?thesis
      using step True l Cons.IH [of ?b n] Cons.IH [of "?b\<lparr>debug_printf_enabled := True\<rparr>" n] Cons.prems(2)
      by (subst register_loop.simps) (simp add: Let_def)
  qed
qed

text \<open>
  What the plugins' code keeps: the images in the RAM disk, as far as the walk and the
  lookup of the entry points read them.
\<close>

definition keeps_images :: "boot_env \<Rightarrow> (mem \<Rightarrow> bool) \<Rightarrow> u32 \<Rightarrow> u32 \<Rightarrow> u32 list \<Rightarrow> (u32 \<Rightarrow> bool) \<Rightarrow> (u32 \<Rightarrow> u32) \<Rightarrow> bool" where
  "keeps_images env I name p ns elf ep \<longleftrightarrow>
     (\<forall>m. I m \<longrightarrow> chain m p ns \<and> (\<forall>e. I (call_entry env e m)) \<and>
        (\<forall>n\<in>set ns. is_elf m n = elf n \<and> (elf n \<longrightarrow> wafel_get_symbol_addr m n name = Some (ep n))))"

lemma keeps_images_Cons:
  assumes "keeps_images env I name p (n # ns) elf ep"
  shows "keeps_images env I name n ns elf ep"
  using assms by (auto simp: keeps_images_def)

lemma entry_calls_chain:
  assumes "keeps_images env I name p ns elf ep" and "I (bmem b)"
  shows "\<exists>b'. entry_calls env name p b = Some b' \<and> I (bmem b') \<and>
    calls b' = calls b @ filter (\<lambda>e. e \<noteq> 0) (map ep (filter elf ns))"
  using assms
proof (induction ns arbitrary: p b)
  case Nil
  then have "wafel_plugin_next (bmem b) p = 0" by (simp add: keeps_images_def)
  then show ?case using Nil by (subst entry_calls.simps) simp
next
  case (Cons n ns)
  note keep = keeps_images_Cons [OF Cons.prems(1)]
  have step: "wafel_plugin_next (bmem b) p = n" "n \<noteq> 0" "is_elf (bmem b) n = elf n"
      "elf n \<Longrightarrow> wafel_get_symbol_addr (bmem b) n name = Some (ep n)"
      "I (call_entry env (ep n) (bmem b))"
    using Cons.prems by (auto simp: keeps_images_def)
  show ?case
  proof (cases "elf n")
    case False
    then show ?thesis
      using step Cons.IH [OF keep Cons.prems(2)] by (subst entry_calls.simps) simp
  next
    case True
    let ?b = "if ep n = 0 then b
      else b\<lparr>bmem := call_entry env (ep n) (bmem b), calls := calls b @ [ep n]\<rparr>"
    have "I (bmem ?b)" using step Cons.prems(2) by simp
    from Cons.IH [OF keep this] True step show ?thesis
      by (subst entry_calls.simps) (auto simp: Let_def)
  qed
qed

text \<open>
  C16. The plugins' entry points: as long as the code of the plugins keeps the images in the
  RAM disk, the walk ends, and it calls the entry point of every ELF image that exports the
  name, in the order of the RAM disk, each once and no other.
\<close>

theorem entry_points_in_order:
  assumes "keeps_images env I (lit env name) (plugin_base env) ns elf ep" and "I (bmem b)"
  shows "\<exists>b'. call_plugin_entry env name b = Some b' \<and>
    calls b' = calls b @ filter (\<lambda>e. e \<noteq> 0) (map ep (filter elf ns))"
  using entry_calls_chain [OF assms] by (auto simp: call_plugin_entry_def)

text \<open>One plugin, whose table exports one name.\<close>

definition demo_ramdisk :: mem where
  "demo_ramdisk = (\<lambda>_. 0)(0x27F00010 := 0x27, 0x27F00011 := 0xE0, 0x27F01000 := 107,
     0x27E00000 := 0x7F, 0x27E00001 := 0x45, 0x27E00002 := 0x4C, 0x27E00003 := 0x46,
     0x27E0001F := 0x40, 0x27E0002D := 1, 0x27E00043 := 2, 0x27E0004B := 0x60,
     0x27E00063 := 6, 0x27E00067 := 0x80, 0x27E0006B := 5, 0x27E0006F := 0x90,
     0x27E00086 := 1, 0x27E00090 := 107)"

definition demo_boot_env :: boot_env where
  "demo_boot_env = \<lparr> plugin_base = 0x27F00000, obj = (\<lambda>_. 0), lit = (\<lambda>_. 0x27F01000),
     call_entry = (\<lambda>_ m. m), otp_stub_len = 0, stack_table = (\<lambda>_. 0) \<rparr>"

definition demo_boot :: "mem \<Rightarrow> boot" where
  "demo_boot m = \<lparr> bmem = m, elfs = [], debug_printf_enabled = False,
     bprsh = \<lparr> header = 0x10000400, initialized = True \<rparr>, brednand = demo_rednand, otp_ptr = 0,
     seeprom_ptr = None, patches = [], calls = [] \<rparr>"

lemma demo_export: "wafel_get_symbol_addr demo_ramdisk 0x27E00000 0x27F01000 = Some 0x27E00100"
proof -
  have p: "wafel_get_plugin_phdrs demo_ramdisk 0x27E00000 = 0x27E00040"
    "wafel_get_plugin_num_phdrs demo_ramdisk 0x27E00000 = 1"
    by (simp_all add: wafel_get_plugin_phdrs_def wafel_get_plugin_num_phdrs_def ELF_MAGIC_def
        E_PHOFF_def E_PHNUM_def read32_def read16_def demo_ramdisk_def)
  have d: "wafel_get_plugin_dynamic demo_ramdisk 0x27E00000 = 0x27E00060"
    by (simp add: wafel_get_plugin_dynamic_def Let_def p)
       (simp add: plugin_phdr_def PT_DYNAMIC_def read32_def demo_ramdisk_def)
  have e: "dyn_entries demo_ramdisk 0x27E00060 = Some [(6, 0x80), (5, 0x90)]"
    by (subst dyn_entries.simps, simp add: read32_def demo_ramdisk_def DT_NULL_def,
        subst dyn_entries.simps, simp add: read32_def demo_ramdisk_def DT_NULL_def,
        subst dyn_entries.simps, simp add: read32_def demo_ramdisk_def DT_NULL_def)
  have i: "symtab (fold (lookup_entry 0x27E00000) [(6, 0x80), (5, 0x90)] dyn_null) = 0x27E00080"
    "strtab (fold (lookup_entry 0x27E00000) [(6, 0x80), (5, 0x90)] dyn_null) = 0x27E00090"
    by (simp_all add: lookup_entry_def dt_consts dyn_null_def)
  note i = i [simplified]
  have s: "str_eq demo_ramdisk 0x27E00090 0x27F01000 = Some True"
    by (subst str_eq.simps, simp add: demo_ramdisk_def, subst str_eq.simps, simp add: demo_ramdisk_def)
  have v: "st_name demo_ramdisk 0x27E00080 = 0" "st_value demo_ramdisk 0x27E00080 = 0x100"
    by (simp_all add: st_name_def st_value_def read32_def demo_ramdisk_def)
  show ?thesis
    by (simp add: wafel_get_symbol_addr_def d e i Let_def) (subst sym_loop.simps, simp add: v s Let_def)
qed

theorem entry_points_in_order_witness:
  "\<exists>b'. call_plugin_entry demo_boot_env ''kern_entry'' (demo_boot demo_ramdisk) = Some b' \<and>
     calls b' = [0x27E00100]"
proof -
  have "wafel_plugin_next demo_ramdisk 0x27F00000 = 0x27E00000" "wafel_plugin_next demo_ramdisk 0x27E00000 = 0"
    "is_elf demo_ramdisk 0x27E00000"
    by (simp_all add: wafel_plugin_next_def base_entry_def E_ENTRY_def read32_def demo_ramdisk_def
        IPX_ELF_MAGIC_def)
  then have "keeps_images demo_boot_env (\<lambda>m. m = demo_ramdisk) (lit demo_boot_env ''kern_entry'')
      (plugin_base demo_boot_env) [0x27E00000] (\<lambda>_. True) (\<lambda>_. 0x27E00100)"
    using demo_export by (simp add: keeps_images_def demo_boot_env_def)
  from entry_points_in_order [OF this, of "demo_boot demo_ramdisk"] show ?thesis
    by (simp add: demo_boot_def)
qed

section \<open>The patches of a boot\<close>

text \<open>
  A kernel with the entry point of MCP in its notes, the instructions of the early mapping
  at the start of the searched range, and the boot parameter \<^verbatim>\<open>minute_boot\<close>.
\<close>

definition demo_kernel :: mem where
  "demo_kernel = (\<lambda>_. 0)(
     PHDRS + 40 := 0x1D, 0x1D000007 := 16, 0x1D00000F := 11, 0x1D000013 := 1,
     0x1D000017 := 9, 0x1D000018 := 0x05, 0x1D000019 := 0x05, 0x1D00001A := 0x67, 0x1D00001B := 0x18,
     0x10000417 := 1, 0x1000041B := 1, 0x1000041C := 109, 0x1000041D := 105, 0x1000041E := 110,
     0x1000041F := 117, 0x10000420 := 116, 0x10000421 := 101, 0x10000422 := 95, 0x10000423 := 98,
     0x10000424 := 111, 0x10000425 := 111, 0x10000426 := 116,
     0x08100000 := 0xE1, 0x08100001 := 0xA0, 0x08100002 := 0x10, 0x08100004 := 0xE3,
     0x08100005 := 0xA0, 0x08100006 := 0x23, 0x08100007 := 0x2A)"

lemma strncmp_eq_unfold:
  "0 < n \<Longrightarrow> strncmp_eq m name a n =
     (let c = (case name of [] \<Rightarrow> 0 | x # _ \<Rightarrow> x)
      in if c \<noteq> m a then False else if c = 0 then True else strncmp_eq m (tl name) (a + 1) (n - 1))"
  by (cases n) simp_all

abbreviation demo_prsh_st :: prsh_state where
  "demo_prsh_st \<equiv> \<lparr> header = 0x10000400, initialized = True \<rparr>"

lemma demo_param:
  "prsh_get_entry demo_kernel demo_prsh_st (Some name)
    = (demo_prsh_st, if strncmp_eq demo_kernel name 0x1000041C 0x100 then Inr (0, 0) else Inl (- 2))"
proof -
  have w: "prsh_total_entries demo_kernel 0x10000400 = 1" "prsh_entries demo_kernel 0x10000400 = 1"
    "read32 demo_kernel (0x1000041C + 0x100) = 0" "read32 demo_kernel (0x1000041C + 0x104) = 0"
    by (simp_all add: prsh_total_entries_def prsh_entries_def read32_def demo_kernel_def PHDRS_def)
  have "prsh_init demo_kernel demo_prsh_st = demo_prsh_st" by (simp add: prsh_init_def w)
  then show ?thesis using w(3,4) by (simp add: prsh_get_entry_def w prsh_entry_def)
qed

lemma demo_entry:
  "get_entry name (demo_boot demo_kernel) = (demo_boot demo_kernel,
     if strncmp_eq demo_kernel (str name) 0x1000041C 0x100 then Some (0, 0) else None)"
  by (simp add: get_entry_def demo_boot_def demo_param)

lemma demo_names:
  "strncmp_eq demo_kernel (str ''minute_boot'') 0x1000041C 0x100"
  "\<not> strncmp_eq demo_kernel (str ''rednand'') 0x1000041C 0x100"
  "\<not> strncmp_eq demo_kernel (str ''minute_on_slc'') 0x1000041C 0x100"
  "\<not> strncmp_eq demo_kernel (str ''minute_location'') 0x1000041C 0x100"
  "\<not> strncmp_eq demo_kernel (str ''otp'') 0x1000041C 0x100"
  "\<not> strncmp_eq demo_kernel (str ''seeprom'') 0x1000041C 0x100"
  by (simp_all add: strncmp_eq_unfold str_def demo_kernel_def PHDRS_def)

lemma demo_config: "init_config env v (demo_boot demo_kernel) = (demo_boot demo_kernel, Returned)"
  by (simp add: init_config_def config_rednand_def config_fw_path_def config_seeprom_def demo_entry demo_names)

lemma demo_mmu:
  "patch_general demo_boot_env (demo_boot demo_kernel) = Some (add_patches
     [ASM_PATCH 0x08100000 ''mov r2, #0x400000; sub r1, r0, r2; mov r0, r1''] (demo_boot demo_kernel))"
proof -
  let ?s = "load_bytes demo_kernel 0x08100000 0x200000"
  have "load_bytes demo_kernel 0x08100000 8 = MMU_PATTERN"
    by (simp add: load_bytes_def upt_rec MMU_PATTERN_def demo_kernel_def PHDRS_def)
  moreover have "load_bytes demo_kernel 0x08100000 8 ! t = demo_kernel (0x08100000 + of_nat t)" if "t < 8" for t
    using that by simp
  moreover have "length MMU_PATTERN = 8" by (simp add: MMU_PATTERN_def)
  ultimately have "match_at ?s MMU_PATTERN 0" by (simp add: match_at_nth)
  then have "first_match ?s MMU_PATTERN = Some 0" by (simp add: first_match_Some)
  then have "boyer_moore_search u ?s MMU_PATTERN = Some (Some 0)" for u
    by (simp add: boyer_moore_search_spec MMU_PATTERN_def)
  then show ?thesis
    by (simp add: patch_general_def patch_otp_def patch_mmu_def demo_boot_def [of demo_kernel])
qed

text \<open>
  C15. The patches of 5.5.x do not overwrite each other, nor anything the redirection or the
  emulated SEEPROM patched before them, whatever the configuration: the only overlap is a
  \<^verbatim>\<open>nop\<close> over the second of two.
\<close>

theorem boot_patches_apart:
  assumes none: "patches b = []" and conf: "init_config env v b = (b1, Returned)"
    and gen: "patch_general env b1 = Some b2"
    and entry: "ios_elf_get_module_entrypoint (bmem b2) (uid_val IOS_MCP) = 0x05056718"
  shows "\<exists>mmu own. patches (patch_55x env b2) = patches b1 @ [mmu] @ own \<and>
    (\<forall>p\<in>set own. \<forall>q\<in>set (patches b1) \<union> set own. p \<noteq> q \<longrightarrow>
       apart (region p) (region q) \<or> nop_overlap (region p) (region q) \<or> nop_overlap (region q) (region p))"
proof -
  obtain mmu where m: "patches b2 = patches b1 @ [mmu]"
    using patch_general_patches [OF gen] by blast
  define sz where "sz = read32 (bmem b2) (ios_elf_vaddr_to_paddr (bmem b2) 0x0502365C)"
  have own: "patches (patch_55x env b2) = patches b1 @ [mmu] @ patches_55x env sz"
    by (simp add: patch_55x_def Let_def add_patches_def m entry [simplified] patches_55x_def sz_def)
  have "set (patches b1) \<subseteq> set redirection_patches"
    using init_config_patches [OF conf] none by (auto simp: redirection_patches_def)
  then show ?thesis
    using own patches_55x_apart [of _ env sz] redirection_apart [of _ env sz] by blast
qed

theorem boot_patches_apart_witness:
  "\<exists>mmu own. patches (patch_55x demo_boot_env (add_patches
       [ASM_PATCH 0x08100000 ''mov r2, #0x400000; sub r1, r0, r2; mov r0, r1''] (demo_boot demo_kernel))) = [mmu] @ own"
proof -
  have "ios_elf_get_module_entrypoint demo_kernel (uid_val IOS_MCP) = 0x05056718"
  proof -
    have n: "ios_elf_get_notes demo_kernel = 0x1D000000"
      by (simp add: ios_elf_get_notes_def phdr_fld_def phdr_addr_def layout_simps seg_simps PHDRS_def
          read32_def demo_kernel_def)
    have "read32 demo_kernel 0x1D000004 = 16"
      "note_entry demo_kernel 0x1D000000 0 = (AT_UID, 1)" "note_entry demo_kernel 0x1D000000 1 = (AT_ENTRY, 0x05056718)"
      by (simp_all add: note_entry_def AT_UID_def AT_ENTRY_def read32_def demo_kernel_def PHDRS_def)
    then show ?thesis
      by (simp add: ios_elf_get_module_entrypoint_def n Let_def upt_rec) (simp add: AT_UID_def AT_ENTRY_def)
  qed
  then show ?thesis
    using boot_patches_apart [OF _ demo_config demo_mmu]
    by (auto simp: demo_boot_def add_patches_def)
qed

text \<open>
  Another firmware: no patch at an address of 5.5.x is applied except those of the
  emulated SEEPROM, and the early mapping is patched where its instructions are found.
\<close>

lemma other_firmware_patches:
  assumes none: "patches b = []" and conf: "init_config env False b = (b1, Returned)"
    and gen: "patch_general env b1 = Some b2"
  shows "(patches b1 = [] \<or> patches b1 = redseeprom_enable) \<and>
    (\<exists>k. patches b2 = patches b1 @
       [ASM_PATCH (0x08100000 + of_nat k) ''mov r2, #0x400000; sub r1, r0, r2; mov r0, r1''])"
  using init_config_patches [OF conf] patch_general_patches [OF gen] none by auto

theorem other_firmware_patches_witness:
  "patches (demo_boot demo_kernel) = [] \<or> patches (demo_boot demo_kernel) = redseeprom_enable"
  using other_firmware_patches [OF _ demo_config demo_mmu] by (simp add: demo_boot_def)

end
