(* ===== verification/BootScan.thy ===== *)
theory BootScan
  imports Boot
begin

text \<open>
  The scans over the vWii images (\<^verbatim>\<open>main.c\<close>: \<^verbatim>\<open>c2w_patches\<close>, \<^verbatim>\<open>c2w_oc_hax_patch\<close>;
  \<^verbatim>\<open>hai.c\<close>: \<^verbatim>\<open>hai_redirect_mlc2sd\<close>): they end, and replace what they look for.
\<close>

section \<open>Scans for a word\<close>

lemma find_shift:
  "find P [0..<Suc n] = (if P 0 then Some 0 else map_option Suc (find (\<lambda>k. P (Suc k)) [0..<n]))"
proof -
  have "[0..<Suc n] = 0 # map Suc [0..<n]" by (simp add: upt_conv_Cons map_Suc_upt)
  moreover have "find P (map Suc xs) = map_option Suc (find (\<lambda>k. P (Suc k)) xs)" for xs
    by (induction xs) auto
  ultimately show ?thesis by simp
qed

text \<open>A window of \<open>n\<close> steps of \<open>d\<close> bytes from \<open>a\<close> up to \<open>stop\<close>, inside the address space.\<close>

abbreviation window :: "u32 \<Rightarrow> u32 \<Rightarrow> nat \<Rightarrow> nat \<Rightarrow> bool" where
  "window a stop d n \<equiv> unat stop = unat a + d * n"

lemma window_step:
  assumes "window a stop d (Suc n)" and "0 < d"
  shows "a < stop" "window (a + of_nat d) stop d n"
proof -
  have lt: "unat a + d < 2 ^ 32"
    using assms unat_u32_less [of stop] by (simp add: algebra_simps)
  then have d: "unat (of_nat d :: u32) = d" by (simp add: unat_of_nat_u32)
  then have "unat (a + of_nat d) = unat a + d" using lt by (simp add: unat_plus_if')
  then show "window (a + of_nat d) stop d n" using assms(1) by simp
  show "a < stop" using assms by (simp add: word_less_nat_alt)
qed

lemma window_0: "window a stop d 0 \<Longrightarrow> \<not> a < stop"
  by (simp add: word_less_nat_alt)

lemma replace_word_find:
  assumes "window a stop 4 n"
  shows "replace_word m a stop old new =
    Some (case find (\<lambda>k. read32 m (a + of_nat (4 * k)) = old) [0..<n] of
            None \<Rightarrow> m | Some k \<Rightarrow> write32 m (a + of_nat (4 * k)) new)"
  using assms
proof (induction n arbitrary: a)
  case 0
  then show ?case using window_0 by (subst replace_word.simps) simp
next
  case (Suc n)
  note w = window_step [OF Suc.prems, simplified]
  show ?case
    using w(1) Suc.IH [OF w(2)]
    by (subst replace_word.simps)
       (simp add: find_shift algebra_simps split: option.split del: upt_Suc)
qed

lemma oc_loop_find:
  assumes "window a stop 4 n"
  shows "oc_loop m a stop =
    Some (case find (\<lambda>k. read32 m (a + of_nat (4 * k)) = 0xE3C22020 \<and>
                         read32 m (a + of_nat (4 * k) + 4) = 0xE3822020) [0..<n] of
            None \<Rightarrow> m | Some k \<Rightarrow> write32 m (a + of_nat (4 * k) + 4) 0)"
  using assms
proof (induction n arbitrary: a)
  case 0
  then show ?case using window_0 by (subst oc_loop.simps) simp
next
  case (Suc n)
  note w = window_step [OF Suc.prems, simplified]
  show ?case
    using w(1) Suc.IH [OF w(2)]
    by (subst oc_loop.simps)
       (simp add: find_shift algebra_simps split: option.split del: upt_Suc)
qed

section \<open>The redirection of the block device\<close>

definition MLC01 :: "u8 list" where "MLC01 = str ''/dev/sdio/MLC01'' @ [0]"
definition SLOT0 :: "u8 list" where "SLOT0 = str ''/dev/sdio/slot0'' @ [0]"

definition names_mlc :: "mem \<Rightarrow> u32 \<Rightarrow> bool" where
  "names_mlc m a \<longleftrightarrow> load_bytes m a 16 = MLC01"

lemma names_mlc_nth: "names_mlc m a \<Longrightarrow> k < 16 \<Longrightarrow> m (a + of_nat k) = MLC01 ! k"
  unfolding names_mlc_def by (metis nth_load_bytes)

definition redirect_at :: "mem \<Rightarrow> u32 \<Rightarrow> mem" where
  "redirect_at m a = (if names_mlc m a then store_bytes m a SLOT0 else m)"

lemma slot0_nth: "store_bytes m a SLOT0 x = (if adist a x < 16 then SLOT0 ! adist a x else m x)"
  by (simp add: store_bytes_def SLOT0_def str_def)

text \<open>
  Storing the new name neither makes nor breaks the old one at another even distance: two
  occurrences of \<^verbatim>\<open>/d\<close> are never four bytes apart in it.
\<close>

lemma even_cases:
  fixes j :: nat
  assumes "j < 16" "even j"
  shows "j \<in> {0, 2, 4, 6, 8, 10, 12, 14}"
proof -
  have "j = 0 \<or> j = 2 \<or> j = 4 \<or> j = 6 \<or> j = 8 \<or> j = 10 \<or> j = 12 \<or> j = 14"
    using assms by presburger
  then show ?thesis by simp
qed

lemmas names_def = MLC01_def SLOT0_def str_def

lemma names_after_store:
  assumes n: "names_mlc (store_bytes m a SLOT0) c" and ev: "even (adist a c)"
  shows "c \<noteq> a \<and> names_mlc m c"
proof -
  define m' where "m' = store_bytes m a SLOT0"
  have mx: "m' x = (if adist a x < 16 then SLOT0 ! adist a x else m x)" for x
    unfolding m'_def by (rule slot0_nth)
  note n = n [folded m'_def]
  have at: "m' (c + of_nat k) = MLC01 ! k" if "k < 16" for k
    using names_mlc_nth [OF n that] .
  have ne: "c \<noteq> a"
  proof
    assume "c = a"
    then show False using at [of 10] by (simp add: mx names_def)
  qed
  then have sum: "adist a c + adist c a = 2 ^ 32" by (intro adist_sum) simp
  then have ev': "even (adist c a)" using ev by (metis even_add even_numeral even_power zero_less_numeral)
  have "\<not> adist a c < 16"
  proof
    assume lt: "adist a c < 16"
    then have j: "adist a c \<in> {0, 2, 4, 6, 8, 10, 12, 14}" using ev by (rule even_cases)
    have "unat (d + 1) = unat d + 1" if "unat d < 16" for d :: u32
      using that by (simp add: unat_plus_if')
    from this [OF lt] have u: "unat (c + 1 - a) = adist a c + 1" by (simp add: diff_add_eq)
    have "SLOT0 ! adist a c = 47" using at [of 0] lt by (simp add: mx names_def)
    moreover have "SLOT0 ! (adist a c + 1) = 100" if "adist a c < 15"
      using at [of 1] that u by (simp add: mx names_def)
    ultimately show False using j ne by (auto simp: names_def unat_eq_zero)
  qed
  moreover have "\<not> adist c a < 16"
  proof
    assume lt: "adist c a < 16"
    then have j: "adist c a \<in> {0, 2, 4, 6, 8, 10, 12, 14}" using ev' by (rule even_cases)
    have "MLC01 ! adist c a = 47" using at [OF lt] by (simp add: mx names_def)
    moreover have "MLC01 ! (adist c a + 1) = 100" if "adist c a < 15"
      using at [of "adist c a + 1"] that by (simp add: mx names_def add.assoc [symmetric])
    ultimately show False using j ne by (auto simp: names_def unat_eq_zero)
  qed
  ultimately have d: "disjoint_regions a 16 c 16" by (simp add: disjoint_regions_def not_less)
  have "load_bytes m' c 16 = load_bytes m c 16"
  proof (rule load_bytes_cong)
    fix x assume "adist c x < 16"
    then have "16 \<le> adist a x" using d disjoint_regionsD disjoint_sym by blast
    then show "m' x = m x" by (simp add: mx)
  qed
  then show ?thesis using n ne by (simp add: names_mlc_def)
qed

lemma even_steps:
  assumes "k < n" "window a stop 2 n"
  shows "adist a (a + of_nat (2 * k)) = 2 * k"
proof -
  have "2 * k < 2 ^ 32" using assms unat_u32_less [of stop] by simp
  then have "unat (of_nat (2 * k) :: u32) = 2 * k" by (rule unat_of_nat_u32)
  then show ?thesis by simp
qed

lemma names_redirect_at:
  assumes "names_mlc (redirect_at m a) c" "even (adist a c)"
  shows "c \<noteq> a" "names_mlc m c"
  using assms names_after_store [of m a c] by (auto simp: redirect_at_def split: if_splits)

lemma redirect_at_changes:
  assumes "redirect_at m a x \<noteq> m x"
  shows "names_mlc m a" "adist a x < 16"
  using assms by (auto simp: redirect_at_def slot0_nth split: if_splits)

lemma redirect_loop_step:
  "redirect_loop m a stop = (if a < stop then redirect_loop (redirect_at m a) (a + 2) stop else Some m)"
  by (subst redirect_loop.simps) (simp add: redirect_at_def names_mlc_def MLC01_def SLOT0_def)

lemma redirect_loop_spec:
  assumes "window a stop 2 n"
  shows "\<exists>m'. redirect_loop m a stop = Some m' \<and>
    (\<forall>k<n. \<not> names_mlc m' (a + of_nat (2 * k))) \<and>
    (\<forall>c. even (adist a c) \<and> names_mlc m' c \<longrightarrow> names_mlc m c) \<and>
    (\<forall>x. m' x \<noteq> m x \<longrightarrow> (\<exists>k<n. names_mlc m (a + of_nat (2 * k)) \<and> adist (a + of_nat (2 * k)) x < 16))"
  using assms
proof (induction n arbitrary: a m)
  case 0
  then show ?case using window_0 by (subst redirect_loop_step) simp
next
  case (Suc n)
  note w = window_step [OF Suc.prems, simplified]
  let ?m = "redirect_at m a"
  have par: "even (adist (a + 2) c) = even (adist a c)" for c
  proof -
    have "adist a c = (adist (a + 2) c + 2) mod 2 ^ 32"
      by (simp add: unat_word_ariths(1) [of "c - (a + 2)" 2, symmetric, simplified])
    then show ?thesis by (simp add: dvd_mod_iff)
  qed
  have at: "a + of_nat (2 * Suc k) = a + 2 + of_nat (2 * k)" for k by (simp add: algebra_simps)
  obtain m' where r: "redirect_loop ?m (a + 2) stop = Some m'"
      and gone: "\<forall>k<n. \<not> names_mlc m' (a + 2 + of_nat (2 * k))"
      and pres: "\<And>c. even (adist a c) \<Longrightarrow> names_mlc m' c \<Longrightarrow> names_mlc ?m c"
      and chg: "\<And>x. m' x \<noteq> ?m x \<Longrightarrow>
        \<exists>k<n. names_mlc ?m (a + 2 + of_nat (2 * k)) \<and> adist (a + 2 + of_nat (2 * k)) x < 16"
    using Suc.IH [OF w(2), of ?m] unfolding par by blast
  have step: "redirect_loop m a stop = Some m'" using r w(1) by (subst redirect_loop_step) simp
  have "\<not> names_mlc m' (a + of_nat (2 * k))" if "k < Suc n" for k
  proof (cases k)
    case 0
    then show ?thesis using pres [of a] names_redirect_at(1) [of m a a] by auto
  next
    case (Suc j)
    then show ?thesis using gone that at [of j] by (simp add: add.assoc)
  qed
  moreover have "names_mlc m c" if "even (adist a c)" "names_mlc m' c" for c
    using names_redirect_at(2) [OF pres [OF that] that(1)] .
  moreover have "\<exists>k<Suc n. names_mlc m (a + of_nat (2 * k)) \<and> adist (a + of_nat (2 * k)) x < 16"
    if x: "m' x \<noteq> m x" for x
  proof (cases "m' x = ?m x")
    case True
    with x have "?m x \<noteq> m x" by simp
    from redirect_at_changes [OF this] show ?thesis by (intro exI [of _ 0]) simp
  next
    case False
    from chg [OF this] obtain k where k: "k < n" "names_mlc ?m (a + of_nat (2 * Suc k))"
        "adist (a + of_nat (2 * Suc k)) x < 16" unfolding at by blast
    have "even (adist a (a + of_nat (2 * Suc k)))"
      using even_steps [OF _ Suc.prems, of "Suc k"] k(1) by simp
    from names_redirect_at(2) [OF k(2) this] k show ?thesis by (intro exI [of _ "Suc k"]) simp
  qed
  ultimately show ?case using step by blast
qed

section \<open>The scans end\<close>

lemma find_push_total:
  assumes "2 \<le> unat low"
  shows "\<exists>m'. find_push m b low stub len = Some m' \<and>
    (\<forall>x. (\<forall>c. low \<le> c \<and> c \<le> b \<longrightarrow> len \<le> adist c x) \<longrightarrow> m' x = m x)"
proof (induction "unat b" arbitrary: b rule: less_induct)
  case less
  show ?case
  proof (cases "low \<le> b")
    case False
    then show ?thesis by (subst find_push.simps) simp
  next
    case True
    show ?thesis
    proof (cases "read16 m b = 0xB5F0")
      case h: True
      then show ?thesis using True by (subst find_push.simps) (auto simp: memmove_other)
    next
      case False
      have "2 \<le> unat b" using True assms by (simp add: word_le_nat_alt)
      then have u: "unat (b - 2) = unat b - 2" by (simp add: unat_sub_if')
      with \<open>2 \<le> unat b\<close> have lt: "unat (b - 2) < unat b" "b - 2 \<le> b" by (simp_all add: word_le_nat_alt)
      obtain m' where "find_push m (b - 2) low stub len = Some m'"
          "\<forall>x. (\<forall>c. low \<le> c \<and> c \<le> b - 2 \<longrightarrow> len \<le> adist c x) \<longrightarrow> m' x = m x"
        using less.hyps [OF lt(1)] by blast
      then show ?thesis using True False lt(2) by (subst find_push.simps) (auto intro: order_trans)
    qed
  qed
qed

text \<open>Outside \<open>[lo, hi)\<close>, where the stubs go, memory keeps its contents.\<close>

lemma otpread_loop_total:
  assumes "window a stop 4 n" and "0x1002 \<le> unat a"
    and "\<forall>c. a - 0x1000 \<le> c \<and> c < stop \<longrightarrow> len \<le> adist c x"
  shows "\<exists>m'. otpread_loop m a stop stub len = Some m' \<and> m' x = m x"
  using assms
proof (induction n arbitrary: a m)
  case 0
  then show ?case using window_0 by (subst otpread_loop.simps) simp
next
  case (Suc n)
  note w = window_step [OF Suc.prems(1), simplified]
  have ua: "unat (a - 0x1000) = unat a - 0x1000" using Suc.prems(2) by (simp add: unat_sub_if')
  have ub: "unat (a + 4) = unat a + 4" using w(2) Suc.prems(1) by simp
  then have uc: "unat (a + 4 - 0x1000) = unat a + 4 - 0x1000" using Suc.prems(2) by (simp add: unat_sub_if')
  have low: "2 \<le> unat (a - 0x1000)" using ua Suc.prems(2) by simp
  have le: "a - 0x1000 \<le> a + 4 - 0x1000" unfolding word_le_nat_alt ua uc by simp
  have rest: "\<forall>c. a + 4 - 0x1000 \<le> c \<and> c < stop \<longrightarrow> len \<le> adist c x"
    using Suc.prems(3) le order_trans by blast
  have IH: "\<exists>m'. otpread_loop m (a + 4) stop stub len = Some m' \<and> m' x = m x" for m
    by (rule Suc.IH [OF w(2) _ rest]) (use ub Suc.prems(2) in simp)
  obtain m1 where f: "find_push m a (a - 0x1000) stub len = Some m1" "m1 x = m x"
    using find_push_total [OF low, of m a stub len] Suc.prems(3) w(1)
    by (metis order.strict_trans1)
  obtain m2 where "otpread_loop m1 (a + 4) stop stub len = Some m2" "m2 x = m1 x" using IH by blast
  moreover obtain m3 where "otpread_loop m (a + 4) stop stub len = Some m3" "m3 x = m x" using IH by blast
  ultimately show ?case using f w(1) by (subst otpread_loop.simps) auto
qed

text \<open>What the stages of \<^verbatim>\<open>c2w_patches\<close> leave alone: the pointer to the image.\<close>

lemma window_image:
  assumes "unat p + 0x260000 < 2 ^ 32" and "0 < d" "d * n = 0x260000"
  shows "window p (p + 0x260000) d n"
  using assms by (simp add: unat_plus_if')

lemma replace_word_keeps:
  assumes "window a stop 4 n" and "0x2000 \<le> unat a" and "unat stop < 2 ^ 32 - 16"
  shows "\<exists>m'. replace_word m a stop old new = Some m' \<and> read32 m' 0x1018 = read32 m 0x1018"
proof (cases "find (\<lambda>k. read32 m (a + of_nat (4 * k)) = old) [0..<n]")
  case None
  then show ?thesis by (simp add: replace_word_find [OF assms(1)])
next
  case (Some k)
  then have k: "k < n" by (auto simp: find_Some_iff)
  have "4 * k < 2 ^ 32" using k assms(1,3) by simp
  then have "unat (of_nat (4 * k) :: u32) = 4 * k" by (rule unat_of_nat_u32)
  then have u: "unat (a + of_nat (4 * k)) = unat a + 4 * k"
    using k assms(1,3) by (simp add: unat_plus_if')
  have "disjoint_regions (a + of_nat (4 * k)) 4 0x1018 4"
    unfolding disjoint_regions_def unat_sub_if' u using k assms by auto
  then show ?thesis
    using Some by (simp add: replace_word_find [OF assms(1)] read32_write32_other)
qed

lemma otpread_keeps:
  assumes "0x3000 \<le> unat p" and "unat p + 0x260000 + len < 2 ^ 32"
  shows "\<exists>m'. otpread_loop m p (p + 0x260000) stub len = Some m' \<and> read32 m' 0x1018 = read32 m 0x1018"
proof -
  have w: "window p (p + 0x260000) 4 0x98000" using assms by (intro window_image) simp_all
  have s: "unat (p + 0x260000) = unat p + 0x260000" using w by simp
  have "len \<le> adist c x" if "p - 0x1000 \<le> c \<and> c < p + 0x260000" "unat x < 0x1020" for c x
  proof -
    have "unat p - 0x1000 \<le> unat c" "unat c < unat p + 0x260000"
      using that(1) assms(1) s by (simp_all add: word_le_nat_alt word_less_nat_alt unat_sub_if')
    then show ?thesis using that(2) assms by (simp add: unat_sub_if') arith
  qed
  then have "\<exists>m'. otpread_loop m p (p + 0x260000) stub len = Some m' \<and> m' x = m x" if "unat x < 0x1020" for x
    using otpread_loop_total [OF w, of len x] assms that by simp
  from this [of "0x1018"] this [of "0x1019"] this [of "0x101A"] this [of "0x101B"]
  show ?thesis by (auto simp: read32_def)
qed

text \<open>
  The bound on the image is needed. For a match at \<^verbatim>\<open>0x1000\<close> the scan backwards compares with
  0, so it wraps around and never ends when no halfword is the instruction it looks for; for one
  below, the bound itself wraps and nothing is scanned.
\<close>

lemma low_image_hangs:
  assumes "\<And>x. read16 m x \<noteq> 0xB5F0"
  shows "find_push m b 0 stub len = None"
proof -
  have "low = 0 \<longrightarrow> (\<forall>x. read16 m x \<noteq> 0xB5F0) \<longrightarrow> False" if "find_push m b low stub len = Some m'" for b low m m'
    using that
  proof (rule find_push.raw_induct [rotated], goal_cases)
    case (1 f m b low stub len m')
    then show ?case by (auto split: if_splits)
  qed
  then show ?thesis using assms by (cases "find_push m b 0 stub len") blast+
qed

lemma low_image_skips:
  "unat a < 0x1000 \<Longrightarrow> find_push m a (a - 0x1000) stub len = Some m"
  by (subst find_push.simps) (simp add: word_le_nat_alt unat_sub_if')

section \<open>Properties\<close>

text \<open>
  The pointer to the SEEPROM image: of the words of the boot stage's image exactly the
  first that points to the old place is redirected, and an image without one is unchanged;
  the overclocking patch removes the instruction after the first match in the same way.
\<close>

lemma c2w_first_match:
  "c2w_boot_hook_fixup_c2w_ptrs m =
     Some (case find (\<lambda>k. read32 m (0x01000000 + of_nat (4 * k)) = 0xFFF07F00) [0..<0x3E0000] of
             None \<Rightarrow> m | Some k \<Rightarrow> write32 m (0x01000000 + of_nat (4 * k)) 0xFFF07B00) \<and>
   c2w_oc_hax_patch m =
     Some (case find (\<lambda>k. read32 m (0x01000000 + of_nat (4 * k)) = 0xE3C22020 \<and>
                          read32 m (0x01000000 + of_nat (4 * k) + 4) = 0xE3822020) [0..<0x3E0000] of
             None \<Rightarrow> m | Some k \<Rightarrow> write32 m (0x01000000 + of_nat (4 * k) + 4) 0)"
  unfolding c2w_boot_hook_fixup_c2w_ptrs_def c2w_oc_hax_patch_def
  by (intro conjI replace_word_find oc_loop_find; simp)

text \<open>
  C31. Redirecting hai to the SD card: for an image inside the address space the scan ends,
  no even address of the image names the MLC any more, and every byte that changed was in a
  name the image had.
\<close>

theorem hai_redirect_all:
  assumes "unat (read32 m 0x1018) + 0x260000 < 2 ^ 32"
  defines "p \<equiv> read32 m 0x1018"
  shows "\<exists>m'. hai_redirect_mlc2sd m = Some m' \<and>
    (\<forall>k<0x130000. load_bytes m' (p + of_nat (2 * k)) 16 \<noteq> str ''/dev/sdio/MLC01'' @ [0]) \<and>
    (\<forall>x. m' x \<noteq> m x \<longrightarrow> (\<exists>k<0x130000.
       load_bytes m (p + of_nat (2 * k)) 16 = str ''/dev/sdio/MLC01'' @ [0] \<and>
       adist (p + of_nat (2 * k)) x < 16))"
proof -
  have "window p (p + 0x260000) 2 0x130000" using assms by (intro window_image) simp_all
  from redirect_loop_spec [OF this, of m] show ?thesis
    unfolding hai_redirect_mlc2sd_def Let_def p_def [symmetric] names_mlc_def MLC01_def by blast
qed

theorem hai_redirect_all_witness:
  "\<exists>m'. hai_redirect_mlc2sd (\<lambda>_. 0) = Some m' \<and>
     (\<forall>k<0x130000. load_bytes m' (of_nat (2 * k)) 16 \<noteq> str ''/dev/sdio/MLC01'' @ [0])"
proof -
  have z: "read32 (\<lambda>_. 0) 0x1018 = 0" by (simp add: read32_def)
  show ?thesis using hai_redirect_all [of "\<lambda>_. 0"] unfolding z add_0 by auto
qed

text \<open>
  C32. The patches of a vWii boot return: for an image that starts at \<^verbatim>\<open>0x3000\<close> or above and whose end, with room for
  the stub, is inside the address space, no scan runs on and no stage loses the pointer to
  the image.
\<close>

theorem c2w_patches_return:
  assumes "0x3000 \<le> unat (read32 m 0x1018)"
    and "unat (read32 m 0x1018) + 0x260000 + len < 2 ^ 32 - 16"
  shows "\<exists>m'. c2w_patches st stub len m = Some m'"
proof -
  define p where "p = read32 m 0x1018"
  have pb: "0x3000 \<le> unat p" "unat p + 0x260000 + len < 2 ^ 32 - 16" using assms by (simp_all add: p_def)
  have w: "window p (p + 0x260000) 4 0x98000" "window p (p + 0x260000) 2 0x130000"
    using pb by (intro window_image; simp)+
  have s: "unat (p + 0x260000) < 2 ^ 32 - 16" using w(1) pb by simp
  obtain m1 where m1: "c2w_boot_hook_fixup_c2w_ptrs m = Some m1" "read32 m1 0x1018 = p"
    using replace_word_keeps [where a = "0x01000000" and stop = "0x01F80000" and n = "0x3E0000" and m = m
        and old = "0xFFF07F00" and new = "0xFFF07B00"]
    by (auto simp: c2w_boot_hook_fixup_c2w_ptrs_def p_def)
  obtain m2 where m2: "c2w_boot_hook_find_and_replace_otpread stub len m1 = Some m2" "read32 m2 0x1018 = p"
    using otpread_keeps [of p len m1 stub] pb m1(2)
    by (auto simp: c2w_boot_hook_find_and_replace_otpread_def)
  obtain m3 where m3: "c2w_boot_hook_fixup_ios_ptrs m2 = Some m3" "read32 m3 0x1018 = p"
    using replace_word_keeps [OF w(1) _ s, where m = m2 and old = "0xFFFE7CC0" and new = "0xFFFE7B00"] pb(1) m2(2)
    by (auto simp: c2w_boot_hook_fixup_ios_ptrs_def)
  have "\<exists>m4. rednand_patch_hai st m3 = Some m4"
    using redirect_loop_spec [OF w(2), of m3] m3(2)
    by (auto simp: rednand_patch_hai_def hai_redirect_mlc2sd_def)
  then show ?thesis using m1 m2 m3 by (auto simp: c2w_patches_def)
qed

theorem c2w_patches_return_witness:
  "\<exists>m'. c2w_patches demo_rednand 0x27F00000 64 ((\<lambda>_. 0)(0x1018 := 0x10)) = Some m'"
  by (rule c2w_patches_return) (simp_all add: read32_def)

end
