(* ===== verification/SaltPatch.thy ===== *)
theory SaltPatch
  imports CString "HOL-Library.Char_ord"
begin

text \<open>
  The host tool that builds \<^verbatim>\<open>ios.patch\<close> (\<^verbatim>\<open>salt-patch-src\<close>): the byte accessors and the
  hexadecimal texts of \<^verbatim>\<open>utils.c\<close>, and the encoder and reader of \<^verbatim>\<open>main.c\<close>.

  A file is the list of its bytes.  The buffers of 32-bit words are lists of bytes too: the
  code compares words and tests them for zero, which does not depend on the byte order of
  the host.  Reading behind a buffer is \<open>None\<close>.
\<close>

section \<open>Byte accessors\<close>

definition align_u32 :: "u32 \<Rightarrow> u32 \<Rightarrow> u32" where
  "align_u32 offset alignment = (let m = NOT (alignment - 1) in (offset + (alignment - 1)) AND m)"

text \<open>The mask is computed in 32 bits and then widened.\<close>

definition align64 :: "u64 \<Rightarrow> u32 \<Rightarrow> u64" where
  "align64 offset alignment =
     (let m = ucast (NOT (alignment - 1)) in (offset + ucast (alignment - 1)) AND m)"

definition getle64 :: "u8 list \<Rightarrow> u64" where
  "getle64 p = ucast (p ! 0) OR push_bit 8 (ucast (p ! 1)) OR push_bit 16 (ucast (p ! 2)) OR
     push_bit 24 (ucast (p ! 3)) OR push_bit 32 (ucast (p ! 4)) OR push_bit 40 (ucast (p ! 5)) OR
     push_bit 48 (ucast (p ! 6)) OR push_bit 56 (ucast (p ! 7))"

definition getbe64 :: "u8 list \<Rightarrow> u64" where
  "getbe64 p = push_bit 56 (ucast (p ! 0)) OR push_bit 48 (ucast (p ! 1)) OR push_bit 40 (ucast (p ! 2)) OR
     push_bit 32 (ucast (p ! 3)) OR push_bit 24 (ucast (p ! 4)) OR push_bit 16 (ucast (p ! 5)) OR
     push_bit 8 (ucast (p ! 6)) OR ucast (p ! 7)"

definition getle32 :: "u8 list \<Rightarrow> u32" where
  "getle32 p = ucast (p ! 0) OR push_bit 8 (ucast (p ! 1)) OR push_bit 16 (ucast (p ! 2)) OR
     push_bit 24 (ucast (p ! 3))"

definition getbe32 :: "u8 list \<Rightarrow> u32" where
  "getbe32 p = push_bit 24 (ucast (p ! 0)) OR push_bit 16 (ucast (p ! 1)) OR push_bit 8 (ucast (p ! 2)) OR
     ucast (p ! 3)"

definition getle16 :: "u8 list \<Rightarrow> u32" where
  "getle16 p = ucast (p ! 0) OR push_bit 8 (ucast (p ! 1))"

definition getbe16 :: "u8 list \<Rightarrow> u32" where
  "getbe16 p = push_bit 8 (ucast (p ! 0)) OR ucast (p ! 1)"

definition putle16 :: "u16 \<Rightarrow> u8 list" where
  "putle16 n = [ucast n, ucast (drop_bit 8 n)]"

definition putle32 :: "u32 \<Rightarrow> u8 list" where
  "putle32 n = [ucast n, ucast (drop_bit 8 n), ucast (drop_bit 16 n), ucast (drop_bit 24 n)]"

definition putbe16 :: "u16 \<Rightarrow> u8 list" where
  "putbe16 n = [ucast (drop_bit 8 n), ucast n]"

definition putbe32 :: "u32 \<Rightarrow> u8 list" where
  "putbe32 n = [ucast (drop_bit 24 n), ucast (drop_bit 16 n), ucast (drop_bit 8 n), ucast n]"

section \<open>Hexadecimal texts\<close>

definition ishex :: "char \<Rightarrow> bool" where
  "ishex c \<longleftrightarrow> (CHR ''0'' \<le> c \<and> c \<le> CHR ''9'') \<or> (CHR ''A'' \<le> c \<and> c \<le> CHR ''F'') \<or>
     (CHR ''a'' \<le> c \<and> c \<le> CHR ''f'')"

definition hextobin :: "char \<Rightarrow> u8" where
  "hextobin c =
     (if CHR ''0'' \<le> c \<and> c \<le> CHR ''9'' then of_char c - of_char (CHR ''0'')
      else if CHR ''A'' \<le> c \<and> c \<le> CHR ''F'' then of_char c - of_char (CHR ''A'') + 0xA
      else if CHR ''a'' \<le> c \<and> c \<le> CHR ''f'' then of_char c - of_char (CHR ''a'') + 0xA
      else 0)"

fun hex_loop :: "string \<Rightarrow> nat \<Rightarrow> u8 list \<Rightarrow> u8 list" where
  "hex_loop [] j bytes = bytes"
| "hex_loop (c # text) j bytes =
     (if ishex c
      then hex_loop text (Suc j)
             (if even j then bytes[j div 2 := push_bit 4 (hextobin c)]
              else bytes[j div 2 := bytes ! (j div 2) OR hextobin c])
      else hex_loop text j bytes)"

text \<open>\<^verbatim>\<open>hex2bytes\<close>: the code and the bytes; with a wrong count of digits nothing is written.\<close>

definition hex2bytes :: "string \<Rightarrow> u8 list \<Rightarrow> nat \<Rightarrow> int \<times> u8 list" where
  "hex2bytes text bytes sz =
     (if length (filter ishex text) \<noteq> sz * 2 then (- 1, bytes) else (0, hex_loop text 0 bytes))"

text \<open>\<^verbatim>\<open>%02X\<close>.\<close>

definition hex_digit :: "nat \<Rightarrow> char" where
  "hex_digit n = ''0123456789ABCDEF'' ! n"

definition print_02X :: "u8 \<Rightarrow> string" where
  "print_02X b = [hex_digit (unat b div 16), hex_digit (unat b mod 16)]"

text \<open>\<^verbatim>\<open>memdump\<close>: lines of 32 bytes, the first after the prefix, the others after as many spaces.\<close>

function memdump_loop :: "string \<Rightarrow> u8 list \<Rightarrow> nat \<Rightarrow> string" where
  "memdump_loop prefix data line =
     (if data = [] then ''''
      else (if line = 0 then prefix else replicate (length prefix) (CHR '' '')) @
           concat (map print_02X (take 32 data)) @ [CHR 0x0A] @
           memdump_loop prefix (drop 32 data) (Suc line))"
  by pat_completeness auto
termination by (relation "measure (\<lambda>(prefix, data, line). length data)") auto

declare memdump_loop.simps [simp del]

definition memdump :: "string \<Rightarrow> u8 list \<Rightarrow> string" where
  "memdump prefix data = memdump_loop prefix data 0"

text \<open>\<^verbatim>\<open>readkeyfile\<close>: the key is left alone unless the file has 16 bytes.\<close>

definition readkeyfile :: "u8 list \<Rightarrow> u8 list option \<Rightarrow> u8 list" where
  "readkeyfile key file = (case file of None \<Rightarrow> key | Some bs \<Rightarrow> if length bs \<noteq> 16 then key else bs)"

section \<open>The patch file\<close>

text \<open>Sections are linked at virtual addresses; the patches are applied to physical ones.\<close>

definition section_table :: "(u32 \<times> u32) list" where
  "section_table =
     [(0x04000000, 0x08280000), (0x04020000, 0x082A0000), (0x04024000, 0x082A4000), (0x04025000, 0x082A5000),
      (0x05000000, 0x081C0000), (0x05060000, 0x08220000), (0x05070000, 0x08230000), (0x05074000, 0x08234000),
      (0x05100000, 0x13D80000), (0xe0000000, 0x12900000), (0xe0100000, 0x12a00000), (0xe0121000, 0x12a21000),
      (0xe0122000, 0x12a22000), (0xe0123000, 0x12a23000), (0xe1000000, 0x12bc0000), (0xe10c0000, 0x12c80000),
      (0xe10e2000, 0x12ca2000), (0xe10e4000, 0x12ca4000), (0xe2000000, 0x12ec0000), (0xe2280000, 0x13140000),
      (0xe22c9000, 0x13189000), (0xe22ca000, 0x1318a000), (0xe22cb000, 0x1318b000), (0xe3000000, 0x13640000),
      (0xe3180000, 0x137c0000), (0xe31ad000, 0x137ed000), (0xe31ae000, 0x137ee000), (0xe31af000, 0x137ef000),
      (0xe4000000, 0x13a40000), (0xe4040000, 0x13a80000), (0xe4046000, 0x13a86000), (0xe4047000, 0x13a87000),
      (0xe5000000, 0x13c00000), (0xe5040000, 0x13c40000), (0xe5044000, 0x13c44000), (0xe5045000, 0x13c45000),
      (0xe6000000, 0x13cc0000), (0xe6040000, 0x13d00000), (0xe6042000, 0x13d02000), (0xe6047000, 0x13d07000),
      (0xe7000000, 0x082c0000), (0xeff00000, 0xfff00000)]"

definition virt_to_phys :: "u32 \<Rightarrow> u32" where
  "virt_to_phys addr = (case map_of section_table addr of Some p \<Rightarrow> p | None \<Rightarrow> addr)"

definition PATCHFILE_VERSION :: u32 where "PATCHFILE_VERSION = 1"

definition write_patch_header :: "u8 list" where
  "write_patch_header = str ''SALTPTCH'' @ putbe32 PATCHFILE_VERSION @ replicate 20 0"

text \<open>The checksum of the file with the field zeroed goes into the field; \<open>sha1\<close> is the digest.\<close>

definition write_patch_footer_and_hash :: "(u8 list \<Rightarrow> u8 list) \<Rightarrow> u8 list \<Rightarrow> u8 list" where
  "write_patch_footer_and_hash sha1 f_patch =
     (let f = f_patch @ putbe32 0xFF in take 12 f @ sha1 f @ drop 32 f)"

text \<open>A buffer of words as its bytes.\<close>

definition word_at :: "u8 list \<Rightarrow> nat \<Rightarrow> u8 list" where
  "word_at data i = take 4 (drop (4 * i) data)"

definition zero_word :: "u8 list \<Rightarrow> nat \<Rightarrow> bool" where
  "zero_word data i \<longleftrightarrow> word_at data i = [0, 0, 0, 0]"

definition patch_add_diff :: "u8 list \<Rightarrow> u8 list \<Rightarrow> u32 \<Rightarrow> u32 \<Rightarrow> u8 list" where
  "patch_add_diff f_patch data len_words base =
     f_patch @ putbe32 0 @ putbe32 base @ putbe32 (len_words * 4) @ take (unat (len_words * 4)) data"

definition patch_add_memset :: "u8 list \<Rightarrow> u32 \<Rightarrow> u32 \<Rightarrow> u8 list" where
  "patch_add_memset f_patch len_words base =
     f_patch @ putbe32 1 @ putbe32 base @ putbe32 (len_words * 4)"

definition round4 :: "nat \<Rightarrow> nat" where
  "round4 n = (n + 3) div 4 * 4"

text \<open>\<^verbatim>\<open>calloc\<close> of the rounded size, then \<^verbatim>\<open>fread\<close> of the file.\<close>

definition padded :: "u8 list \<Rightarrow> u8 list" where
  "padded file = file @ replicate (round4 (length file) - length file) 0"

text \<open>\<^verbatim>\<open>while(P) { i++; if(i >= n) break; }\<close>\<close>

function run_end :: "(nat \<Rightarrow> bool) \<Rightarrow> nat \<Rightarrow> nat \<Rightarrow> nat" where
  "run_end P n i = (if P i then if n \<le> Suc i then Suc i else run_end P n (Suc i) else i)"
  by pat_completeness auto
termination by (relation "measure (\<lambda>(P, n, i). n - i)") auto

declare run_end.simps [simp del]

lemma run_end_bounds:
  assumes "i < n"
  shows "i \<le> run_end P n i" "run_end P n i \<le> n" "P i \<Longrightarrow> i < run_end P n i"
    "\<forall>k. i \<le> k \<and> k < run_end P n i \<longrightarrow> P k"
proof -
  have "i \<le> run_end P n i \<and> run_end P n i \<le> n \<and> (P i \<longrightarrow> i < run_end P n i) \<and>
      (\<forall>k. i \<le> k \<and> k < run_end P n i \<longrightarrow> P k)"
    using assms
  proof (induction P n i rule: run_end.induct)
    case (1 P n i)
    show ?case
    proof (cases "P i \<and> \<not> n \<le> Suc i")
      case True
      then have IH: "Suc i \<le> run_end P n (Suc i) \<and> run_end P n (Suc i) \<le> n \<and>
          (\<forall>k. Suc i \<le> k \<and> k < run_end P n (Suc i) \<longrightarrow> P k)"
        using 1 by auto
      have "run_end P n i = run_end P n (Suc i)" using True by (subst run_end.simps) simp
      with IH True show ?thesis by (auto simp: Suc_le_eq nat_less_le)
    next
      case False
      then show ?thesis using 1(2) by (subst (1 2 3 4) run_end.simps) (auto simp: le_less_Suc_eq)
    qed
  qed
  then show "i \<le> run_end P n i" "run_end P n i \<le> n" "P i \<Longrightarrow> i < run_end P n i"
    "\<forall>k. i \<le> k \<and> k < run_end P n i \<longrightarrow> P k" by auto
qed

function add_loop :: "u8 list \<Rightarrow> nat \<Rightarrow> u32 \<Rightarrow> nat \<Rightarrow> u8 list \<Rightarrow> u8 list" where
  "add_loop data n base j f_patch =
     (if j < n then
        if zero_word data j
        then let i = run_end (zero_word data) n j
             in add_loop data n base i (patch_add_memset f_patch (of_nat (i - j)) (base + of_nat (4 * j)))
        else let i = run_end (\<lambda>k. \<not> zero_word data k) n j
             in add_loop data n base i
                  (patch_add_diff f_patch (drop (4 * j) data) (of_nat (i - j)) (base + of_nat (4 * j)))
      else f_patch)"
  by pat_completeness auto
termination
  by (relation "measure (\<lambda>(data, n, base, j, f_patch). n - j)")
     (auto intro!: diff_less_mono2 run_end_bounds(3))

declare add_loop.simps [simp del]

text \<open>Codes of failure: no memory, a short read.\<close>

definition patch_add_to_file :: "bool \<Rightarrow> bool \<Rightarrow> u8 list \<Rightarrow> u8 list \<Rightarrow> u32 \<Rightarrow> u8 list \<times> int" where
  "patch_add_to_file calloc_ok read_ok f_patched f_patch base =
     (if \<not> calloc_ok then (f_patch, - 1)
      else if \<not> read_ok then (f_patch, - 2)
      else let data = padded f_patched in (add_loop data (length data div 4) base 0 f_patch, 0))"

definition words_differ :: "u8 list \<Rightarrow> u8 list \<Rightarrow> nat \<Rightarrow> bool option" where
  "words_differ unpatched patched i =
     (if 4 * i + 4 \<le> length patched then Some (word_at unpatched i \<noteq> word_at patched i) else None)"

function diff_end :: "u8 list \<Rightarrow> u8 list \<Rightarrow> nat \<Rightarrow> nat \<Rightarrow> nat option" where
  "diff_end unpatched patched n i =
     (case words_differ unpatched patched i of
        None \<Rightarrow> None
      | Some d \<Rightarrow> if d then if n \<le> Suc i then Some (Suc i) else diff_end unpatched patched n (Suc i) else Some i)"
  by pat_completeness auto
termination by (relation "measure (\<lambda>(u, p, n, i). n - i)") auto

declare diff_end.simps [simp del]

lemma diff_end_run:
  assumes "i < n" "4 * n \<le> length patched"
  shows "diff_end unpatched patched n i = Some (run_end (\<lambda>k. word_at unpatched k \<noteq> word_at patched k) n i)"
  using assms
proof (induction unpatched patched n i rule: diff_end.induct)
  case (1 unpatched patched n i)
  have w: "words_differ unpatched patched i = Some (word_at unpatched i \<noteq> word_at patched i)"
    using "1.prems" by (simp add: words_differ_def)
  show ?case
    using 1 w by (subst diff_end.simps, subst run_end.simps) auto
qed

lemma diff_end_grows:
  "diff_end u p n i = Some k \<Longrightarrow> i \<le> k" "diff_end u p n i = Some k \<Longrightarrow> words_differ u p i = Some True \<Longrightarrow> i < k"
proof (induction u p n i rule: diff_end.induct)
  case (1 u p n i)
  {
    case 1
    show ?case using 1 "1.IH"(1) by (subst (asm) diff_end.simps) (force split: option.splits if_splits)
  next
    case 2
    show ?case using 2 "1.IH"(1) by (subst (asm) diff_end.simps) (force split: option.splits if_splits)
  }
qed

function diff_loop :: "u8 list \<Rightarrow> u8 list \<Rightarrow> nat \<Rightarrow> u32 \<Rightarrow> nat \<Rightarrow> u8 list \<Rightarrow> u8 list option" where
  "diff_loop unpatched patched n base j f_patch =
     (if j < n then
        case words_differ unpatched patched j of
          None \<Rightarrow> None
        | Some d \<Rightarrow>
            if d then
              case diff_end unpatched patched n j of
                None \<Rightarrow> None
              | Some i \<Rightarrow> diff_loop unpatched patched n base i
                  (patch_add_diff f_patch (drop (4 * j) patched) (of_nat (i - j)) (base + of_nat (4 * j)))
            else diff_loop unpatched patched n base (Suc j) f_patch
      else Some f_patch)"
  by pat_completeness auto
termination
  by (relation "measure (\<lambda>(u, p, n, base, j, f_patch). n - j)")
     (auto intro!: diff_less_mono2 dest: diff_end_grows(2))

declare diff_loop.simps [simp del]

text \<open>
  \<^verbatim>\<open>patch_diff_to_file\<close>; the words behind the unpatched file follow as one piece, whose
  length is computed in the width of \<^verbatim>\<open>size_t\<close>.
\<close>

definition patch_diff_to_file ::
  "bool \<Rightarrow> bool \<Rightarrow> bool \<Rightarrow> u8 list \<Rightarrow> u8 list \<Rightarrow> u8 list \<Rightarrow> u32 \<Rightarrow> (u8 list \<times> int) option" where
  "patch_diff_to_file calloc_ok read1_ok read2_ok f_unpatched f_patched f_patch base =
     (if \<not> calloc_ok then Some (f_patch, - 1)
      else if \<not> read1_ok then Some (f_patch, - 2)
      else if \<not> read2_ok then Some (f_patch, - 3)
      else
        let unpatched = padded f_unpatched; patched = padded f_patched;
            u_sz = length unpatched; p_sz = length patched
        in case diff_loop unpatched patched (u_sz div 4) base 0 f_patch of
             None \<Rightarrow> None
           | Some f \<Rightarrow>
               Some (if u_sz \<noteq> p_sz
                     then patch_add_diff f (drop u_sz patched)
                            (ucast (drop_bit 2 (of_nat p_sz - of_nat u_sz :: u64))) (base + of_nat u_sz)
                     else f, 0))"

section \<open>The sections of a directory\<close>

fun strstr :: "string \<Rightarrow> string \<Rightarrow> bool" where
  "strstr [] p = (p = [])"
| "strstr (c # s) p = (take (length p) (c # s) = p \<or> strstr s p)"

text \<open>
  \<^verbatim>\<open>sscanf(name, "%x.bin", &base_addr)\<close> on a name that begins neither with space nor with a
  sign: an optional \<^verbatim>\<open>0x\<close>, then digits, of whose value the low 32 bits are stored.  Without a
  digit nothing is stored.
\<close>

fun hex_value :: "string \<Rightarrow> u64 \<Rightarrow> u64" where
  "hex_value [] v = v"
| "hex_value (c # s) v = (if ishex c then hex_value s (16 * v + ucast (hextobin c)) else v)"

definition scan_x :: "string \<Rightarrow> u32 option" where
  "scan_x name =
     (let s = (if take 2 name \<in> {''0x'', ''0X''} \<and> drop 2 name \<noteq> [] \<and> ishex (name ! 2) then drop 2 name else name)
      in if s \<noteq> [] \<and> ishex (hd s) then Some (ucast (hex_value s 0)) else None)"

text \<open>
  One entry: its name, and the files of that name in the two directories.  Memory and reads
  are taken to suffice.  \<open>uninit\<close> is what the uninitialised address holds.
\<close>

datatype build = Undefined | Failed | Out "u8 list"

definition build_entry :: "u32 \<Rightarrow> u8 list \<Rightarrow> string \<times> u8 list option \<times> u8 list option \<Rightarrow> build" where
  "build_entry uninit f_patch e =
     (case e of (fn_cur, f_patched, f_unpatched) \<Rightarrow>
        if fn_cur \<noteq> [] \<and> hd fn_cur = CHR ''.'' then Out f_patch
        else if \<not> strstr fn_cur ''.bin'' \<or> \<not> strstr fn_cur ''0x'' then Out f_patch
        else
          let base_addr = virt_to_phys (case scan_x fn_cur of Some a \<Rightarrow> a | None \<Rightarrow> uninit)
          in case f_patched of None \<Rightarrow> Failed
             | Some p \<Rightarrow>
                 (case f_unpatched of
                    None \<Rightarrow> (case patch_add_to_file True True p f_patch base_addr of
                              (f, r) \<Rightarrow> if r \<noteq> 0 then Failed else Out f)
                  | Some u \<Rightarrow>
                      (case patch_diff_to_file True True True u p f_patch base_addr of
                         None \<Rightarrow> Undefined
                       | Some (f, r) \<Rightarrow> if r \<noteq> 0 then Failed else Out f)))"

fun build_entries :: "u32 \<Rightarrow> u8 list \<Rightarrow> (string \<times> u8 list option \<times> u8 list option) list \<Rightarrow> build" where
  "build_entries uninit f [] = Out f"
| "build_entries uninit f (e # es) =
     (case build_entry uninit f e of Out f \<Rightarrow> build_entries uninit f es | r \<Rightarrow> r)"

text \<open>
  \<^verbatim>\<open>main\<close> without an argument: the two directories can be opened or not, then the entries, then
  \<^verbatim>\<open>ios.img\<close> and the process image.  Nothing of the last two goes into the patch file, the calls
  that would add it are commented out, but the header table of the image must reach the word
  at \<^verbatim>\<open>0x30\<close>, and the other file is read without a check that it was opened.
\<close>

definition phdrs_read :: "u8 list \<Rightarrow> bool" where
  "phdrs_read img \<longleftrightarrow>
     0x804 + 0x2A + 4 \<le> length img \<and>
     0x34 \<le> unat (getbe16 (drop (0x804 + 0x2C) img) * getbe16 (drop (0x804 + 0x2A) img))"

definition salt_main ::
  "(u8 list \<Rightarrow> u8 list) \<Rightarrow> u32 \<Rightarrow> bool \<Rightarrow> u8 list option \<Rightarrow> u8 list option \<Rightarrow>
   (string \<times> u8 list option \<times> u8 list option) list \<Rightarrow> build" where
  "salt_main sha1 uninit dirs_ok img proc_elf es =
     (if \<not> dirs_ok then Failed
      else case build_entries uninit write_patch_header es of
        Out f \<Rightarrow>
          (case img of None \<Rightarrow> Failed
           | Some i \<Rightarrow> if phdrs_read i \<and> proc_elf \<noteq> None then Out (write_patch_footer_and_hash sha1 f) else Undefined)
      | r \<Rightarrow> r)"

section \<open>Reading a patch file\<close>

datatype read_entry = DataEntry u32 u32 | MemsetEntry u32 u32 | EOFEntry | UnknownEntry u32

datatype read_error = OpenFailed | InvalidMagic | UnsupportedVersion u32

text \<open>The words after the flip, and the walk over the chunks.\<close>

definition be_word :: "u8 list \<Rightarrow> u32 \<Rightarrow> u32 option" where
  "be_word f i =
     (if 4 * unat i + 4 \<le> length f then Some (getbe32 (drop (4 * unat i) f)) else None)"

partial_function (option) read_loop :: "u8 list \<Rightarrow> u32 \<Rightarrow> read_entry list option" where
  "read_loop f cur_word =
     (if unat cur_word < length f div 4
      then do { t \<leftarrow> be_word f cur_word;
                if t = 0
                then do { a \<leftarrow> be_word f (cur_word + 1); l \<leftarrow> be_word f (cur_word + 2);
                          es \<leftarrow> read_loop f (cur_word + (3 + l div 4)); Some (DataEntry a l # es) }
                else if t = 1
                then do { a \<leftarrow> be_word f (cur_word + 1); l \<leftarrow> be_word f (cur_word + 2);
                          es \<leftarrow> read_loop f (cur_word + 3); Some (MemsetEntry a l # es) }
                else do { es \<leftarrow> read_loop f (cur_word + 1);
                          Some ((if t = 0xFF then EOFEntry else UnknownEntry t) # es) } }
      else Some [])"

text \<open>
  The message about the version decodes the word a second time, so on a little-endian host it shows the
  bytes of the file in the opposite order.
\<close>

definition patch_read :: "u8 list option \<Rightarrow> (read_error + read_entry list) option" where
  "patch_read file =
     (case file of None \<Rightarrow> Some (Inl OpenFailed)
      | Some f \<Rightarrow>
          if length f < 12 then None
          else if take 8 f \<noteq> str ''SALTPTCH'' then Some (Inl InvalidMagic)
          else if getbe32 (drop 8 f) \<noteq> 1 then Some (Inl (UnsupportedVersion (getbe32 (rev (take 4 (drop 8 f))))))
          else map_option Inr (read_loop f 8))"

text \<open>
  The command line without the program name: help, the listing of a patch file, or the build of one.
  \<open>file\<close> opens a file by its name.
\<close>

datatype salt_result = Usage | Listing "(read_error + read_entry list) option" | Built build

definition salt_run :: "string list \<Rightarrow> (string \<Rightarrow> u8 list option) \<Rightarrow> build \<Rightarrow> salt_result" where
  "salt_run args file build =
     (if args \<noteq> [] \<and> (hd args = ''--help'' \<or> hd args = ''-h'') then Usage
      else if length args = 1 then Listing (patch_read (file (hd args)))
      else Built build)"

section \<open>What a chunk means\<close>

text \<open>The chunks of the format, their bytes, and what applying them does to memory.\<close>

datatype chunk = Data u32 "u8 list" | Memset u32 u32

fun chunk_bytes :: "chunk \<Rightarrow> u8 list" where
  "chunk_bytes (Data a bs) = putbe32 0 @ putbe32 a @ putbe32 (of_nat (length bs)) @ bs"
| "chunk_bytes (Memset a n) = putbe32 1 @ putbe32 a @ putbe32 n"

fun apply_chunk :: "mem \<Rightarrow> chunk \<Rightarrow> mem" where
  "apply_chunk m (Data a bs) = store_bytes m a bs"
| "apply_chunk m (Memset a n) = memset m a 0 (unat n)"

definition chunks_bytes :: "chunk list \<Rightarrow> u8 list" where
  "chunks_bytes cs = concat (map chunk_bytes cs)"

lemma chunks_bytes_simps [simp]:
  "chunks_bytes [] = []" "chunks_bytes (c # cs) = chunk_bytes c @ chunks_bytes cs"
  by (simp_all add: chunks_bytes_def)

lemma store_bytes_Nil [simp]: "store_bytes m a [] = m"
  by (simp add: store_bytes_def)

lemma store_bytes_append:
  assumes "length xs + length ys \<le> 2 ^ 32"
  shows "store_bytes m a (xs @ ys) = store_bytes (store_bytes m a xs) (a + of_nat (length xs)) ys"
proof
  fix x
  show "store_bytes m a (xs @ ys) x = store_bytes (store_bytes m a xs) (a + of_nat (length xs)) ys x"
  proof (cases "adist a x < length xs")
    case True
    have "\<not> adist (a + of_nat (length xs)) x < length ys" if "ys \<noteq> []"
    proof -
      have l: "length xs < 2 ^ 32" using assms that by (cases ys) auto
      then have u: "unat (of_nat (length xs) :: u32) = length xs" by (rule unat_of_nat_u32)
      have "unat (d - e) = 2 ^ 32 + unat d - unat e" if "unat d < unat e" for d e :: u32
        using that by (simp add: unat_sub_if')
      from this [of "x - a" "of_nat (length xs)"] have "adist (a + of_nat (length xs)) x = 2 ^ 32 + adist a x - length xs"
        using True u by (simp add: diff_diff_eq)
      then show ?thesis using assms by simp
    qed
    with True show ?thesis by (cases "ys = []") (auto simp: store_bytes_def nth_append)
  next
    case False
    then show ?thesis by (simp add: store_bytes_def adist_offset nth_append less_diff_conv2)
  qed
qed

lemma memset_store: "n < 2 ^ 32 \<Longrightarrow> memset m a c n = store_bytes m a (replicate n c)"
  by (auto simp: memset_def store_bytes_def)

lemma word_at_append:
  assumes "4 * i + 4 \<le> length data"
  shows "drop (4 * i) data = word_at data i @ drop (4 * Suc i) data"
proof -
  have "drop (4 * Suc i) data = drop 4 (drop (4 * i) data)" by (simp add: add.commute)
  then show ?thesis unfolding word_at_def by (metis append_take_drop_id)
qed

lemma zero_run:
  assumes "\<forall>k. j \<le> k \<and> k < i \<longrightarrow> zero_word data k" "j \<le> i" "4 * i \<le> length data"
  shows "take (4 * (i - j)) (drop (4 * j) data) = replicate (4 * (i - j)) 0"
  using assms
proof (induction "i - j" arbitrary: j)
  case (Suc d)
  then have j: "j < i" by simp
  have d: "drop (4 * j) data = [0, 0, 0, 0] @ drop (4 * Suc j) data"
    using word_at_append [of j data] Suc.prems(1,3) j by (simp add: zero_word_def)
  have e: "4 * (i - j) = Suc (Suc (Suc (Suc (4 * (i - Suc j)))))" using j by simp
  have IH: "take (4 * (i - Suc j)) (drop (4 * Suc j) data) = replicate (4 * (i - Suc j)) 0"
    using Suc.hyps(1) [of "Suc j"] Suc.hyps(2) Suc.prems j by auto
  show ?case unfolding d e by (simp only: append.simps take_Suc_Cons replicate_Suc IH)
qed simp

lemma chunk_len:
  assumes "4 * k < 2 ^ 32"
  shows "unat (of_nat k * 4 :: u32) = 4 * k" "of_nat k * 4 = (of_nat (4 * k) :: u32)"
proof -
  show e: "of_nat k * 4 = (of_nat (4 * k) :: u32)" by simp
  show "unat (of_nat k * 4 :: u32) = 4 * k" unfolding e by (rule unat_of_nat_u32) (use assms in simp)
qed

lemma patch_add_diff_chunk:
  assumes "4 * k < 2 ^ 32" "4 * k \<le> length d"
  shows "patch_add_diff f d (of_nat k) a = f @ chunk_bytes (Data a (take (4 * k) d))"
proof -
  have lt: "length (take (4 * k) d) = 4 * k" using assms(2) by simp
  show ?thesis
    unfolding patch_add_diff_def chunk_len(1) [OF assms(1)]
    unfolding chunk_len(2) [OF assms(1)] chunk_bytes.simps lt ..
qed

lemma patch_add_memset_chunk:
  assumes "4 * k < 2 ^ 32"
  shows "patch_add_memset f (of_nat k) a = f @ chunk_bytes (Memset a (of_nat (4 * k)))"
  unfolding patch_add_memset_def chunk_bytes.simps chunk_len(2) [OF assms] ..

text \<open>Encoding a whole file: the chunks store its bytes.\<close>

lemma add_loop_chunks:
  assumes "length data = 4 * n" "4 * n < 2 ^ 32" "j \<le> n"
  shows "\<exists>cs. add_loop data n base j f = f @ chunks_bytes cs \<and>
    (\<forall>m. foldl apply_chunk m cs = store_bytes m (base + of_nat (4 * j)) (drop (4 * j) data)) \<and>
    (\<forall>c\<in>set cs. case c of Data a bs \<Rightarrow> 4 dvd length bs \<and> length bs < 2 ^ 32 | Memset a k \<Rightarrow> True)"
  using assms
proof (induction "n - j" arbitrary: j f rule: less_induct)
  case less
  show ?case
  proof (cases "j < n")
    case False
    then show ?thesis using less.prems by (subst add_loop.simps) (auto intro!: exI [of _ "[]"])
  next
    case True
    define P where "P = (if zero_word data j then zero_word data else (\<lambda>k. \<not> zero_word data k))"
    define i where "i = run_end P n j"
    have Pj: "P j" by (simp add: P_def)
    note run = run_end_bounds [OF True, of P, folded i_def]
    have ji: "j < i" "i \<le> n" using run(2,3) Pj by auto
    define bs where "bs = take (4 * (i - j)) (drop (4 * j) data)"
    have lbs: "length bs = 4 * (i - j)" using ji less.prems(1) by (simp add: bs_def)
    have k: "4 * (i - j) < 2 ^ 32" "4 * (i - j) \<le> length (drop (4 * j) data)"
      using ji less.prems by simp_all
    note kd = k(2) and k = k(1)
    define c where "c = (if zero_word data j then Memset (base + of_nat (4 * j)) (of_nat (4 * (i - j)))
        else Data (base + of_nat (4 * j)) bs)"
    have step: "add_loop data n base j f = add_loop data n base i (f @ chunk_bytes c)"
    proof (cases "zero_word data j")
      case z: True
      have "run_end (zero_word data) n j = i" using z by (simp add: i_def P_def)
      then show ?thesis
        using True z patch_add_memset_chunk [OF k] by (subst add_loop.simps) (simp add: Let_def c_def)
    next
      case nz: False
      have "run_end (\<lambda>k. \<not> zero_word data k) n j = i" using nz by (simp add: i_def P_def)
      then show ?thesis
        using True nz patch_add_diff_chunk [OF k kd] by (subst add_loop.simps) (simp add: Let_def c_def bs_def)
    qed
    have dec: "n - i < n - j" using True ji(1) by linarith
    obtain cs where cs: "add_loop data n base i (f @ chunk_bytes c) = (f @ chunk_bytes c) @ chunks_bytes cs"
        "\<forall>m. foldl apply_chunk m cs = store_bytes m (base + of_nat (4 * i)) (drop (4 * i) data)"
        "\<forall>c\<in>set cs. case c of Data a bs \<Rightarrow> 4 dvd length bs \<and> length bs < 2 ^ 32 | Memset a k \<Rightarrow> True"
      using less.hyps [OF dec less.prems(1,2) ji(2), of "f @ chunk_bytes c"] by blast
    have ac: "apply_chunk m c = store_bytes m (base + of_nat (4 * j)) bs" for m
    proof (cases "zero_word data j")
      case z: True
      have "bs = replicate (4 * (i - j)) 0"
        unfolding bs_def by (rule zero_run) (use run(4) z ji less.prems(1) in \<open>auto simp: P_def\<close>)
      moreover have "unat (of_nat (4 * (i - j)) :: u32) = 4 * (i - j)" by (rule unat_of_nat_u32 [OF k])
      ultimately show ?thesis using z k by (simp only: c_def if_True apply_chunk.simps memset_store)
    qed (simp add: c_def)
    have split: "drop (4 * j) data = bs @ drop (4 * i) data"
    proof -
      have "4 * (i - j) + 4 * j = 4 * i" using ji by simp
      then have "drop (4 * i) data = drop (4 * (i - j)) (drop (4 * j) data)" by (metis drop_drop)
      then show ?thesis unfolding bs_def by (metis append_take_drop_id)
    qed
    have at: "base + of_nat (4 * j) + of_nat (length bs) = base + of_nat (4 * i)"
      using ji by (simp add: lbs of_nat_diff algebra_simps)
    have "foldl apply_chunk m (c # cs) = store_bytes m (base + of_nat (4 * j)) (drop (4 * j) data)" for m
    proof -
      have "store_bytes m (base + of_nat (4 * j)) (bs @ drop (4 * i) data) =
          store_bytes (store_bytes m (base + of_nat (4 * j)) bs) (base + of_nat (4 * i)) (drop (4 * i) data)"
        using store_bytes_append [of bs "drop (4 * i) data" m "base + of_nat (4 * j)"] less.prems lbs ji at by simp
      then show ?thesis using cs(2) ac split by simp
    qed
    moreover have "case c of Data a bs \<Rightarrow> 4 dvd length bs \<and> length bs < 2 ^ 32 | Memset a k \<Rightarrow> True"
      using lbs k by (auto simp: c_def)
    ultimately show ?thesis
      using step cs(1,3) by (intro exI [of _ "c # cs"]) simp
  qed
qed

text \<open>Encoding a difference: on memory that holds the old words, the chunks leave the new ones.\<close>

lemma word_at_eq:
  assumes "length xs = 4 * n" "length ys = 4 * n" "k < n" "word_at xs k = word_at ys k" "t < 4"
  shows "xs ! (4 * k + t) = ys ! (4 * k + t)"
proof -
  have "word_at xs k ! t = word_at ys k ! t" using assms(4) by simp
  then show ?thesis using assms by (simp add: word_at_def)
qed

text \<open>Loading and storing in pieces.\<close>

lemma load_bytes_take: "k \<le> n \<Longrightarrow> take k (load_bytes m a n) = load_bytes m a k"
  by (simp add: load_bytes_def take_map)

lemma load_bytes_drop: "drop k (load_bytes m a (k + l)) = load_bytes m (a + of_nat k) l"
  by (intro nth_equalityI) (simp_all add: algebra_simps)

lemma store_same:
  assumes "load_bytes m a (length bs) = bs"
  shows "store_bytes m a bs = m"
proof
  fix x
  have "bs ! adist a x = m x" if "adist a x < length bs"
    using nth_load_bytes [OF that, of m a] assms by simp
  then show "store_bytes m a bs x = m x" by (simp add: store_bytes_def)
qed

lemma load_behind_store:
  assumes "length bs + l \<le> 2 ^ 32"
  shows "load_bytes (store_bytes m a bs) (a + of_nat (length bs)) l = load_bytes m (a + of_nat (length bs)) l"
proof (rule nth_equalityI)
  fix k assume "k < length (load_bytes (store_bytes m a bs) (a + of_nat (length bs)) l)"
  then have k: "k < l" by simp
  have "unat (of_nat (length bs + k) :: u32) = length bs + k" by (rule unat_of_nat_u32) (use k assms in simp)
  then have "adist a (a + of_nat (length bs) + of_nat k) = length bs + k" by (simp add: add.assoc)
  then show "load_bytes (store_bytes m a bs) (a + of_nat (length bs)) l ! k = load_bytes m (a + of_nat (length bs)) l ! k"
    using k by (simp add: store_bytes_def)
qed simp

text \<open>
  One piece of the comparison: a word that is the same, for which nothing is written, or a run of words
  that differ, for which one chunk is.  Storing the piece leaves the rest as it was.
\<close>

lemma diff_piece:
  assumes old: "load_bytes m a (k + l) = drop d u" and len: "length bs = k" "k + l < 2 ^ 32"
    and c: "c = [] \<and> bs = take k (drop d u) \<or> c = [Data a bs]"
  shows "foldl apply_chunk m c = store_bytes m a bs"
    "load_bytes (store_bytes m a bs) (a + of_nat k) l = drop (d + k) u"
proof -
  have "store_bytes m a bs = m" if "bs = take k (drop d u)"
    using that old load_bytes_take [of k "k + l" m a] len by (intro store_same) simp
  then show "foldl apply_chunk m c = store_bytes m a bs" using c by auto
  show "load_bytes (store_bytes m a bs) (a + of_nat k) l = drop (d + k) u"
    using load_behind_store [of bs l m a] load_bytes_drop [of k m a l] old len by (simp add: add.commute)
qed

lemma diff_loop_chunks:
  assumes "length u = 4 * n" "4 * n \<le> length p" "length p < 2 ^ 32" "j \<le> n"
  shows "\<exists>cs. diff_loop u p n base j f = Some (f @ chunks_bytes cs) \<and>
    (\<forall>m. load_bytes m (base + of_nat (4 * j)) (4 * n - 4 * j) = drop (4 * j) u \<longrightarrow>
       foldl apply_chunk m cs = store_bytes m (base + of_nat (4 * j)) (take (4 * n - 4 * j) (drop (4 * j) p))) \<and>
    (\<forall>c\<in>set cs. case c of Data a bs \<Rightarrow> 4 dvd length bs \<and> length bs < 2 ^ 32 | Memset a k \<Rightarrow> True)"
  using assms
proof (induction "n - j" arbitrary: j f rule: less_induct)
  case less
  show ?case
  proof (cases "j < n")
    case False
    then show ?thesis using less.prems by (subst diff_loop.simps) (auto intro!: exI [of _ "[]"])
  next
    case True
    have w: "words_differ u p j = Some (word_at u j \<noteq> word_at p j)"
      using True less.prems by (simp add: words_differ_def)
    define i where "i = (if word_at u j = word_at p j then Suc j
        else run_end (\<lambda>k. word_at u k \<noteq> word_at p k) n j)"
    have ji: "j < i" "i \<le> n"
      using True run_end_bounds(2,3) [OF True, of "\<lambda>k. word_at u k \<noteq> word_at p k"] by (auto simp: i_def)
    define bs where "bs = take (4 * (i - j)) (drop (4 * j) p)"
    have lbs: "length bs = 4 * (i - j)" using ji less.prems(2) by (simp add: bs_def)
    have k: "4 * (i - j) < 2 ^ 32" "4 * (i - j) \<le> length (drop (4 * j) p)"
      using ji less.prems by simp_all
    define c where "c = (if word_at u j = word_at p j then [] else [Data (base + of_nat (4 * j)) bs])"
    have step: "diff_loop u p n base j f = diff_loop u p n base i (f @ chunks_bytes c)"
    proof (cases "word_at u j = word_at p j")
      case eq: True
      then show ?thesis using True w by (subst diff_loop.simps) (simp add: c_def i_def)
    next
      case ne: False
      have "diff_end u p n j = Some i"
        using diff_end_run [OF True less.prems(2), of u] ne by (simp add: i_def)
      then show ?thesis
        using True w ne patch_add_diff_chunk [OF k] by (subst diff_loop.simps) (simp add: c_def bs_def)
    qed
    have dec: "n - i < n - j" using True ji(1) by linarith
    obtain cs where cs: "diff_loop u p n base i (f @ chunks_bytes c) = Some ((f @ chunks_bytes c) @ chunks_bytes cs)"
        "\<And>m. load_bytes m (base + of_nat (4 * i)) (4 * n - 4 * i) = drop (4 * i) u \<Longrightarrow>
          foldl apply_chunk m cs = store_bytes m (base + of_nat (4 * i)) (take (4 * n - 4 * i) (drop (4 * i) p))"
        "\<forall>c\<in>set cs. case c of Data a bs \<Rightarrow> 4 dvd length bs \<and> length bs < 2 ^ 32 | Memset a k \<Rightarrow> True"
      using less.hyps [OF dec less.prems(1-3) ji(2), of "f @ chunks_bytes c"] by blast
    have split: "take (4 * n - 4 * j) (drop (4 * j) p) = bs @ take (4 * n - 4 * i) (drop (4 * i) p)"
    proof -
      have "4 * (i - j) + 4 * j = 4 * i" using ji by simp
      then have "drop (4 * i) p = drop (4 * (i - j)) (drop (4 * j) p)" by simp
      moreover have "4 * n - 4 * j = 4 * (i - j) + (4 * n - 4 * i)" using ji by simp
      ultimately show ?thesis unfolding bs_def by (simp only: take_add)
    qed
    have at: "base + of_nat (4 * j) + of_nat (length bs) = base + of_nat (4 * i)"
      using ji by (simp add: lbs of_nat_diff algebra_simps)
    have "foldl apply_chunk m (c @ cs) = store_bytes m (base + of_nat (4 * j)) (take (4 * n - 4 * j) (drop (4 * j) p))"
      if old: "load_bytes m (base + of_nat (4 * j)) (4 * n - 4 * j) = drop (4 * j) u" for m
    proof -
      have c': "c = [] \<and> bs = take (4 * (i - j)) (drop (4 * j) u) \<or> c = [Data (base + of_nat (4 * j)) bs]"
        by (simp add: c_def bs_def i_def word_at_def)
      have l: "4 * (i - j) + (4 * n - 4 * i) = 4 * n - 4 * j" "4 * j + 4 * (i - j) = 4 * i" using ji by simp_all
      have small: "4 * n - 4 * j < 2 ^ 32" using less.prems(2,3) by linarith
      note piece = diff_piece [of m _ "4 * (i - j)" "4 * n - 4 * i", unfolded l(1), OF old lbs small c', unfolded l(2)]
      from cs(2) [OF piece(2) [unfolded lbs [symmetric] at]] show ?thesis
        using piece(1) store_bytes_append [of bs "take (4 * n - 4 * i) (drop (4 * i) p)" m "base + of_nat (4 * j)"]
          less.prems lbs ji at split by simp
    qed
    moreover have "\<forall>c\<in>set c. case c of Data a bs \<Rightarrow> 4 dvd length bs \<and> length bs < 2 ^ 32 | Memset a k \<Rightarrow> True"
      using lbs k(1) by (auto simp: c_def)
    ultimately show ?thesis
      using step cs(1,3) by (intro exI [of _ "c @ cs"]) (auto simp: chunks_bytes_def)
  qed
qed

section \<open>The written file is read back\<close>

lemma bits_of_bytes:
  fixes n :: u32
  shows "push_bit 24 (ucast (ucast (drop_bit 24 n) :: u8)) OR push_bit 16 (ucast (ucast (drop_bit 16 n) :: u8)) OR
    push_bit 8 (ucast (ucast (drop_bit 8 n) :: u8)) OR ucast (ucast n :: u8) = n"
  using read32_write32 [of "\<lambda>_. 0" 0 n] by (simp add: read32_def write32_def)

lemma bits_of_half:
  fixes h :: u16
  shows "push_bit 8 (ucast (ucast (drop_bit 8 h) :: u8)) OR ucast (ucast h :: u8) = (ucast h :: u32)"
proof (rule bit_word_eqI)
  fix n assume "n < LENGTH(32)"
  then consider "n < 8" | "8 \<le> n" "n < 16" | "16 \<le> n" "n < 32" by force
  then show "bit (push_bit 8 (ucast (ucast (drop_bit 8 h) :: u8)) OR ucast (ucast h :: u8) :: u32) n
      = bit (ucast h :: u32) n"
    by cases (auto simp: bit_simps)
qed

lemma get_put [simp]:
  "getbe32 (putbe32 n @ xs) = n" "getle32 (putle32 n @ xs) = n"
  "getbe16 (putbe16 h @ xs) = ucast h" "getle16 (putle16 h @ xs) = ucast h"
  using bits_of_bytes [of n] bits_of_half [of h]
  by (simp_all add: getbe32_def putbe32_def getle32_def putle32_def
      getbe16_def putbe16_def getle16_def putle16_def ac_simps)

lemma length_put [simp]: "length (putbe32 n) = 4" "length (putle32 n) = 4"
  "length (putbe16 h) = 2" "length (putle16 h) = 2"
  by (simp_all add: putbe32_def putle32_def putbe16_def putle16_def)

definition chunk_ok :: "chunk \<Rightarrow> bool" where
  "chunk_ok c = (case c of Data a bs \<Rightarrow> 4 dvd length bs \<and> length bs < 2 ^ 32 | Memset a k \<Rightarrow> True)"

fun entry_of :: "chunk \<Rightarrow> read_entry" where
  "entry_of (Data a bs) = DataEntry a (of_nat (length bs))"
| "entry_of (Memset a n) = MemsetEntry a n"

lemma length_chunk: "chunk_ok c \<Longrightarrow> 4 dvd length (chunk_bytes c)"
  by (cases c) (auto simp: chunk_ok_def)

lemma be_word_at:
  assumes "length pre = 4 * unat cur" "f = pre @ putbe32 v @ rest"
  shows "be_word f cur = Some v"
  using assms by (simp add: be_word_def)

text \<open>The cursor, in words, is behind \<open>pre\<close>.\<close>

lemma read_chunk:
  assumes ok: "chunk_ok c" and pre: "length pre = 4 * unat cur" and f: "f = pre @ chunk_bytes c @ rest"
    and small: "length f < 2 ^ 32"
  shows "read_loop f cur = do { es \<leftarrow> read_loop f (cur + of_nat (length (chunk_bytes c) div 4));
      Some (entry_of c # es) }"
    "unat (cur + of_nat (length (chunk_bytes c) div 4)) = unat cur + length (chunk_bytes c) div 4"
proof -
  have lc: "length (chunk_bytes c) = (case c of Data a bs \<Rightarrow> 12 + length bs | Memset a k \<Rightarrow> 12)"
    by (cases c) simp_all
  have fits: "unat cur + length (chunk_bytes c) div 4 < 2 ^ 32"
    using pre f small by simp
  then have u: "unat (of_nat (length (chunk_bytes c) div 4) :: u32) = length (chunk_bytes c) div 4"
    by (intro unat_of_nat_u32) simp
  show adv: "unat (cur + of_nat (length (chunk_bytes c) div 4)) = unat cur + length (chunk_bytes c) div 4"
    using fits u by (simp add: unat_plus_if')
  have u1: "unat (cur + 1) = unat cur + 1" "unat (cur + 2) = unat cur + 2"
    using pre f small by (cases c; simp add: unat_plus_if')+
  have lt: "unat cur < length f div 4"
    using pre f by (cases c) simp_all
  show "read_loop f cur = do { es \<leftarrow> read_loop f (cur + of_nat (length (chunk_bytes c) div 4));
      Some (entry_of c # es) }"
  proof (cases c)
    case (Data a bs)
    let ?l = "of_nat (length bs) :: u32"
    have w: "be_word f cur = Some 0" "be_word f (cur + 1) = Some a" "be_word f (cur + 2) = Some ?l"
      using be_word_at [OF pre, of f 0] be_word_at [of "pre @ putbe32 0" "cur + 1" f a]
        be_word_at [of "pre @ putbe32 0 @ putbe32 a" "cur + 2" f ?l] pre f u1 Data by simp_all
    have ul: "unat ?l = length bs" by (rule unat_of_nat_u32) (use ok Data in \<open>simp add: chunk_ok_def\<close>)
    have "3 + ?l div 4 = of_nat (length (chunk_bytes c) div 4)"
    proof -
      have "unat (?l div 4) = length bs div 4" by (simp add: unat_div ul)
      then have "?l div 4 = of_nat (length bs div 4)" by (metis of_nat_unat ucast_id)
      moreover have "length (chunk_bytes c) div 4 = 3 + length bs div 4" by (simp add: lc Data)
      ultimately show ?thesis by simp
    qed
    then show ?thesis using w lt Data by (subst read_loop.simps) simp
  next
    case (Memset a n)
    have w: "be_word f cur = Some 1" "be_word f (cur + 1) = Some a" "be_word f (cur + 2) = Some n"
      using be_word_at [OF pre, of f 1] be_word_at [of "pre @ putbe32 1" "cur + 1" f a]
        be_word_at [of "pre @ putbe32 1 @ putbe32 a" "cur + 2" f n] pre f u1 Memset by simp_all
    then show ?thesis using lt Memset by (subst read_loop.simps) simp
  qed
qed

lemma read_chunks:
  assumes "\<forall>c\<in>set cs. chunk_ok c" "length pre = 4 * unat cur"
    "f = pre @ chunks_bytes cs @ putbe32 0xFF" "length f < 2 ^ 32"
  shows "read_loop f cur = Some (map entry_of cs @ [EOFEntry])"
  using assms
proof (induction cs arbitrary: pre cur)
  case Nil
  have lt: "unat cur < length f div 4" using Nil.prems by simp
  have u: "unat (cur + 1) = unat cur + 1" using Nil.prems by (simp add: unat_plus_if')
  have w: "be_word f cur = Some 0xFF" using be_word_at [OF Nil.prems(2), of f "0xFF" "[]"] Nil.prems(3) by simp
  have "read_loop f (cur + 1) = Some []"
    using Nil.prems u by (subst read_loop.simps) simp
  then show ?case using lt w by (subst read_loop.simps) simp
next
  case (Cons c cs)
  have ok: "chunk_ok c" using Cons.prems(1) by simp
  have f: "f = pre @ chunk_bytes c @ (chunks_bytes cs @ putbe32 0xFF)" using Cons.prems(3) by simp
  note step = read_chunk [OF ok Cons.prems(2) f Cons.prems(4)]
  have "length (pre @ chunk_bytes c) = 4 * unat (cur + of_nat (length (chunk_bytes c) div 4))"
    using Cons.prems(2) length_chunk [OF ok] unfolding step(2) by auto
  from Cons.IH [OF _ this _ Cons.prems(4)] Cons.prems(1) f step(1) show ?case by simp
qed

section \<open>Hexadecimal texts\<close>

lemma hex_loop_filter: "hex_loop s j bytes = hex_loop (filter ishex s) j bytes"
  by (induction s j bytes rule: hex_loop.induct) auto

lemma hex_digits_ok: "\<forall>n\<in>set [0..<16]. ishex (hex_digit n) \<and> hextobin (hex_digit n) = of_nat n"
  by code_simp

lemma hex_digit_ok:
  assumes "n < 16"
  shows "ishex (hex_digit n)" "hextobin (hex_digit n) = of_nat n"
  using hex_digits_ok assms by (simp_all only: set_upt atLeast0LessThan lessThan_iff Ball_def)

lemma unat_u8_less: "unat (b :: u8) < 256"
  by (rule order.strict_trans2 [OF unsigned_less]) simp

lemma ishex_print [simp]: "filter ishex (print_02X b) = print_02X b" "length (print_02X b) = 2"
proof -
  have "unat b div 16 < 16" using unat_u8_less [of b] by (simp add: less_mult_imp_div_less)
  then show "filter ishex (print_02X b) = print_02X b" "length (print_02X b) = 2"
    by (simp_all add: print_02X_def hex_digit_ok)
qed

lemma hex_loop_print:
  assumes "k < length bytes"
  shows "hex_loop (print_02X b @ text) (2 * k) bytes = hex_loop text (2 * Suc k) (bytes[k := b])"
proof -
  have d: "unat b div 16 < 16" "unat b mod 16 < 16" using unat_u8_less [of b] by (simp_all add: less_mult_imp_div_less)
  have hi: "push_bit 4 (of_nat (unat b div 16)) OR of_nat (unat b mod 16) = b"
  proof -
    have "(of_nat (unat b div 16) :: u8) = drop_bit 4 b" "(of_nat (unat b mod 16) :: u8) = take_bit 4 b"
      by (simp_all add: drop_bit_eq_div take_bit_eq_mod word_unat_eq_iff unat_div unat_mod unat_of_nat)
        (use unat_u8_less [of b] in \<open>simp_all add: less_mult_imp_div_less\<close>)
    then show ?thesis by (auto intro!: bit_word_eqI simp: bit_simps)
  qed
  show ?thesis
    using assms d by (simp add: print_02X_def hex_digit_ok hi)
qed

lemma hex_loop_bytes:
  assumes "k + length data \<le> length bytes"
  shows "hex_loop (concat (map print_02X data)) (2 * k) bytes
    = take k bytes @ data @ drop (k + length data) bytes"
  using assms
proof (induction data arbitrary: k bytes)
  case (Cons b data)
  have "hex_loop (concat (map print_02X (b # data))) (2 * k) bytes
      = hex_loop (concat (map print_02X data)) (2 * Suc k) (bytes[k := b])"
    using hex_loop_print [of k bytes] Cons.prems by simp
  also have "\<dots> = take (Suc k) (bytes[k := b]) @ data @ drop (Suc k + length data) (bytes[k := b])"
    using Cons.prems by (intro Cons.IH) simp
  also have "take (Suc k) (bytes[k := b]) = take k bytes @ [b]"
    using Cons.prems by (simp add: take_Suc_conv_app_nth)
  finally show ?case using Cons.prems by simp
qed simp

lemma memdump_hex:
  assumes "filter ishex prefix = []"
  shows "filter ishex (memdump_loop prefix data line) = concat (map print_02X data)"
  using assms
proof (induction prefix data line rule: memdump_loop.induct)
  case (1 prefix data line)
  have c: "filter ishex (concat (map print_02X xs)) = concat (map print_02X xs)" for xs
    by (induction xs) simp_all
  have sp: "\<not> ishex (CHR '' '')" "\<not> ishex (CHR 0x0A)" by (simp_all add: ishex_def less_eq_char_def)
  show ?case
  proof (cases "data = []")
    case False
    have "concat (map print_02X data) = concat (map print_02X (take 32 data)) @ concat (map print_02X (drop 32 data))"
      by (metis append_take_drop_id concat_append map_append)
    then show ?thesis
      using 1 False sp c by (subst memdump_loop.simps) (simp add: filter_replicate)
  qed (subst memdump_loop.simps, simp)
qed

lemma diff_end_readable:
  "diff_end u p n i = Some k \<Longrightarrow> 4 * i \<le> length p \<Longrightarrow> 4 * k \<le> length p"
proof (induction u p n i rule: diff_end.induct)
  case (1 u p n i)
  from "1.prems" show ?case
    using "1.IH" [of True]
    by (subst (asm) diff_end.simps) (auto split: option.splits if_splits simp: words_differ_def)
qed

lemma diff_loop_overread:
  assumes "length p < 4 * n" "4 * j \<le> length p"
  shows "diff_loop u p n base j f = None"
  using assms
proof (induction "n - j" arbitrary: j f rule: less_induct)
  case less
  have j: "j < n" using less.prems by simp
  show ?case
  proof (cases "words_differ u p j")
    case None
    then show ?thesis using j by (subst diff_loop.simps) simp
  next
    case (Some d)
    have rd: "4 * j + 4 \<le> length p" using Some by (auto simp: words_differ_def split: if_splits)
    show ?thesis
    proof (cases d)
      case False
      have "n - Suc j < n - j" "4 * Suc j \<le> length p" using j rd by simp_all
      from less.hyps [OF this(1) less.prems(1) this(2)] show ?thesis
        using j Some False by (subst diff_loop.simps) simp
    next
      case True
      show ?thesis
      proof (cases "diff_end u p n j")
        case None
        then show ?thesis using j Some True by (subst diff_loop.simps) simp
      next
        case (Some i)
        have "j < i" using diff_end_grows(2) [OF Some] \<open>words_differ u p j = Some d\<close> True by simp
        then have "n - i < n - j" using j by linarith
        from less.hyps [OF this less.prems(1) diff_end_readable [OF Some less.prems(2)]] show ?thesis
          using j Some True \<open>words_differ u p j = Some d\<close> by (subst diff_loop.simps) simp
      qed
    qed
  qed
qed

section \<open>Properties\<close>

lemma round4_props: "4 dvd round4 n" "n \<le> round4 n" "round4 n < n + 4"
proof -
  have "(n + 3) div 4 * 4 + (n + 3) mod 4 = n + 3" by (rule div_mult_mod_eq)
  moreover have "(n + 3) mod 4 < 4" by simp
  ultimately show "n \<le> round4 n" "round4 n < n + 4" unfolding round4_def by linarith+
  show "4 dvd round4 n" by (simp add: round4_def)
qed

lemma length_padded [simp]: "length (padded file) = round4 (length file)"
  using round4_props(2) [of "length file"] by (simp add: padded_def)

lemma add_applies:
  assumes "round4 (length file) < 2 ^ 32"
  shows "\<exists>cs. patch_add_to_file True True file f base = (f @ chunks_bytes cs, 0) \<and> (\<forall>c\<in>set cs. chunk_ok c) \<and>
    (\<forall>m. foldl apply_chunk m cs = store_bytes m base (padded file))"
proof -
  have "length (padded file) = 4 * (round4 (length file) div 4)" using round4_props(1) [of "length file"] by simp
  from add_loop_chunks [OF this, of 0 base f] assms round4_props(1) [of "length file"] show ?thesis
    by (auto simp: patch_add_to_file_def Let_def chunk_ok_def)
qed

text \<open>
  C25. Encoding a whole section: the encoder writes well-formed chunks, and applying them
  stores exactly the bytes of the section, padded to a word, at its address.
\<close>

theorem salt_add_applies:
  assumes "round4 (length file) < 2 ^ 32"
  shows "\<exists>cs. patch_add_to_file True True file f base = (f @ chunks_bytes cs, 0) \<and> (\<forall>c\<in>set cs. chunk_ok c) \<and>
    (\<forall>m. foldl apply_chunk m cs = store_bytes m base (padded file))"
  using assms by (rule add_applies)

theorem salt_add_applies_witness:
  "\<exists>cs. patch_add_to_file True True [1, 2, 3, 4, 0, 0, 0, 0, 9] [7] 0x08280000 = ([7] @ chunks_bytes cs, 0) \<and>
     foldl apply_chunk (\<lambda>_. 5) cs = store_bytes (\<lambda>_. 5) 0x08280000 [1, 2, 3, 4, 0, 0, 0, 0, 9, 0, 0, 0]"
proof -
  have "padded [1, 2, 3, 4, 0, 0, 0, 0, 9] = [1, 2, 3, 4, 0, 0, 0, 0, 9, 0, 0, 0]"
    "round4 (length [1, 2, 3, 4, 0, 0, 0, 0, 9 :: u8]) = 12" by code_simp+
  then show ?thesis using salt_add_applies [of "[1, 2, 3, 4, 0, 0, 0, 0, 9]" "[7]" "0x08280000"] by auto
qed

lemma diff_applies:
  assumes "round4 (length new) < 2 ^ 32"
  shows "if round4 (length old) \<le> round4 (length new)
    then \<exists>cs. patch_diff_to_file True True True old new f base = Some (f @ chunks_bytes cs, 0) \<and>
      (\<forall>c\<in>set cs. chunk_ok c) \<and>
      (\<forall>m. load_bytes m base (round4 (length old)) = padded old \<longrightarrow>
         foldl apply_chunk m cs = store_bytes m base (padded new))
    else patch_diff_to_file True True True old new f base = None"
proof -
  let ?u = "padded old" and ?p = "padded new"
  let ?ul = "round4 (length old)" and ?pl = "round4 (length new)"
  have lu: "length ?u = 4 * (?ul div 4)" using round4_props(1) [of "length old"] by simp
  have dv: "4 dvd ?ul" "4 dvd ?pl" by (rule round4_props)+
  show ?thesis
  proof (cases "?ul \<le> ?pl")
    case False
    have "diff_loop ?u ?p (?ul div 4) base 0 f = None"
      by (rule diff_loop_overread) (use False dv in simp_all)
    then show ?thesis using False by (simp add: patch_diff_to_file_def Let_def)
  next
    case le: True
    obtain cs where cs: "diff_loop ?u ?p (?ul div 4) base 0 f = Some (f @ chunks_bytes cs)"
        "\<And>m. load_bytes m base ?ul = ?u \<Longrightarrow> foldl apply_chunk m cs = store_bytes m base (take ?ul ?p)"
        "\<forall>c\<in>set cs. chunk_ok c"
      using diff_loop_chunks [OF lu, of ?p 0 base f] le assms dv by (auto simp: chunk_ok_def)
    define k where "k = (?pl - ?ul) div 4"
    have k: "4 * k = ?pl - ?ul" using dv le by (simp add: k_def dvd_diff_nat)
    have kb: "4 * k < 2 ^ 32" "4 * k \<le> length (drop ?ul ?p)" using k assms by simp_all
    have w: "ucast (drop_bit 2 (of_nat ?pl - of_nat ?ul :: u64)) = (of_nat k :: u32)"
    proof -
      have "(of_nat ?pl - of_nat ?ul :: u64) = of_nat (?pl - ?ul)" using le by (simp add: of_nat_diff)
      moreover have "unat (of_nat (?pl - ?ul) :: u64) = ?pl - ?ul"
        using assms by (simp add: unat_of_nat)
      ultimately have "unat (drop_bit 2 (of_nat ?pl - of_nat ?ul :: u64)) = k"
        by (simp add: drop_bit_eq_div unat_div k_def)
      then show ?thesis by (metis of_nat_unat)
    qed
    define c where "c = (if ?ul = ?pl then [] else [Data (base + of_nat ?ul) (drop ?ul ?p)])"
    have run: "patch_diff_to_file True True True old new f base = Some (f @ chunks_bytes (cs @ c), 0)"
    proof -
      have "take (4 * k) (drop ?ul ?p) = drop ?ul ?p" unfolding k by simp
      then have pd: "patch_add_diff (f @ chunks_bytes cs) (drop ?ul ?p) (of_nat k) (base + of_nat ?ul)
          = (f @ chunks_bytes cs) @ chunk_bytes (Data (base + of_nat ?ul) (drop ?ul ?p))"
        using patch_add_diff_chunk [OF kb, of "f @ chunks_bytes cs" "base + of_nat ?ul"] by (simp only:)
      show ?thesis
        unfolding patch_diff_to_file_def Let_def length_padded cs(1) w
        using pd by (simp add: c_def chunks_bytes_def del: chunk_bytes.simps)
    qed
    have "foldl apply_chunk m (cs @ c) = store_bytes m base ?p" if old: "load_bytes m base ?ul = ?u" for m
    proof -
      have s: "store_bytes m base (take ?ul ?p @ drop ?ul ?p)
          = store_bytes (store_bytes m base (take ?ul ?p)) (base + of_nat ?ul) (drop ?ul ?p)"
      proof -
        have l: "length (take ?ul ?p) = ?ul" using le by simp
        have "length (take ?ul ?p) + length (drop ?ul ?p) \<le> 2 ^ 32" using le assms by simp
        from store_bytes_append [OF this, of m base] show ?thesis unfolding l .
      qed
      show ?thesis
      proof (cases "?ul = ?pl")
        case True
        then show ?thesis using cs(2) [OF old] by (simp add: c_def)
      next
        case False
        then show ?thesis using cs(2) [OF old] s [unfolded append_take_drop_id] by (simp add: c_def)
      qed
    qed
    moreover have "\<forall>x\<in>set (cs @ c). chunk_ok x"
      using cs(3) dv le assms by (auto simp: c_def chunk_ok_def)
    ultimately show ?thesis using le run by auto
  qed
qed

text \<open>
  C24. Encoding a difference: for a new section that is not shorter than the old one the
  encoder writes well-formed chunks that turn memory holding the old section into memory
  holding the new one and change nothing else; for a shorter one it reads behind the
  buffer of the new section.
\<close>

theorem salt_diff_applies:
  assumes "round4 (length new) < 2 ^ 32"
  shows "if round4 (length old) \<le> round4 (length new)
    then \<exists>cs. patch_diff_to_file True True True old new f base = Some (f @ chunks_bytes cs, 0) \<and>
      (\<forall>c\<in>set cs. chunk_ok c) \<and>
      (\<forall>m. load_bytes m base (round4 (length old)) = padded old \<longrightarrow>
         foldl apply_chunk m cs = store_bytes m base (padded new))
    else patch_diff_to_file True True True old new f base = None"
  using assms by (rule diff_applies)

theorem salt_diff_applies_witness:
  "(\<exists>cs. patch_diff_to_file True True True [1, 2, 3, 4] [1, 2, 3, 9, 5] [] 0 = Some (chunks_bytes cs, 0) \<and>
      foldl apply_chunk ((\<lambda>_. 0)(0 := 1, 1 := 2, 2 := 3, 3 := 4)) cs
        = store_bytes ((\<lambda>_. 0)(0 := 1, 1 := 2, 2 := 3, 3 := 4)) 0 [1, 2, 3, 9, 5, 0, 0, 0]) \<and>
   patch_diff_to_file True True True [1, 2, 3, 4, 5] [1] [] 0 = None"
proof
  let ?m = "(\<lambda>_. 0)(0 := 1, 1 := 2, 2 := 3, 3 := 4) :: mem"
  have p: "padded [1, 2, 3, 4] = [1, 2, 3, 4]" "padded [1, 2, 3, 9, 5] = [1, 2, 3, 9, 5, 0, 0, 0]"
    "round4 (length [1, 2, 3, 4 :: u8]) = 4" "round4 (length [1, 2, 3, 9, 5 :: u8]) = 8"
    "round4 (length [1 :: u8]) = 4" "round4 (length [1, 2, 3, 4, 5 :: u8]) = 8" by code_simp+
  have "load_bytes ?m 0 4 = [1, 2, 3, 4]" by (simp add: load_bytes_def upt_rec)
  then show "\<exists>cs. patch_diff_to_file True True True [1, 2, 3, 4] [1, 2, 3, 9, 5] [] 0 = Some (chunks_bytes cs, 0) \<and>
      foldl apply_chunk ?m cs = store_bytes ?m 0 [1, 2, 3, 9, 5, 0, 0, 0]"
    using salt_diff_applies [of "[1, 2, 3, 9, 5]" "[1, 2, 3, 4]" "[]" 0] unfolding p by auto
  show "patch_diff_to_file True True True [1, 2, 3, 4, 5] [1] [] 0 = None"
    using salt_diff_applies [of "[1]" "[1, 2, 3, 4, 5]" "[]" 0] unfolding p by simp
qed

text \<open>
  Reading back what was written: for a file of well-formed chunks the reader accepts
  the header, finds every chunk with its address and length, in order, and the end mark.
\<close>

lemma salt_read_back:
  fixes sha1 :: "u8 list \<Rightarrow> u8 list"
  assumes ok: "\<forall>c\<in>set cs. chunk_ok c" and sha: "\<And>x. length (sha1 x) = 20"
    and small: "length (chunks_bytes cs) + 36 < 2 ^ 32"
  shows "patch_read (Some (write_patch_footer_and_hash sha1 (write_patch_header @ chunks_bytes cs)))
    = Some (Inr (map entry_of cs @ [EOFEntry]))"
proof -
  let ?h = "str ''SALTPTCH'' @ putbe32 1"
  define f where "f = write_patch_footer_and_hash sha1 (write_patch_header @ chunks_bytes cs)"
  obtain s where s: "length s = 20" "f = (?h @ s) @ chunks_bytes cs @ putbe32 0xFF"
    using sha by (auto simp: f_def write_patch_footer_and_hash_def write_patch_header_def Let_def
        PATCHFILE_VERSION_def str_def)
  have l: "length (?h @ s) = 4 * unat (8 :: u32)" using s(1) by (simp add: str_def)
  have "read_loop f 8 = Some (map entry_of cs @ [EOFEntry])"
    by (rule read_chunks [OF ok l s(2)]) (use s small in \<open>simp add: str_def\<close>)
  moreover have "take 8 f = str ''SALTPTCH''" "getbe32 (drop 8 f) = 1" "\<not> length f < 12"
    unfolding s(2) by (simp_all add: str_def)
  ultimately show ?thesis unfolding f_def [symmetric] by (simp add: patch_read_def)
qed

lemma build_entry_chunks:
  assumes "build_entry uninit f e = Out f'" and "\<And>p. fst (snd e) = Some p \<Longrightarrow> round4 (length p) < 2 ^ 32"
  shows "\<exists>cs. f' = f @ chunks_bytes cs \<and> (\<forall>c\<in>set cs. chunk_ok c)"
proof -
  obtain name p u where e: "e = (name, p, u)" by (cases e) auto
  show ?thesis
  proof (cases "f' = f")
    case True
    then show ?thesis by (intro exI [of _ "[]"]) simp
  next
    case False
    then obtain p' where p: "p = Some p'"
      using assms(1) by (auto simp: build_entry_def e Let_def split: if_splits option.splits)
    have small: "round4 (length p') < 2 ^ 32" using assms(2) [of p'] by (simp add: e p)
    let ?b = "virt_to_phys (case scan_x name of Some a \<Rightarrow> a | None \<Rightarrow> uninit)"
    show ?thesis
    proof (cases u)
      case None
      then show ?thesis
        using assms(1) False add_applies [OF small, of f ?b]
        by (auto simp: build_entry_def e p Let_def split: if_splits)
    next
      case (Some u')
      then show ?thesis
        using assms(1) False diff_applies [OF small, of u' f ?b]
        by (auto simp: build_entry_def e p Let_def split: if_splits)
    qed
  qed
qed

lemma build_entries_chunks:
  assumes "build_entries uninit f es = Out f'"
    and "\<And>e p. e \<in> set es \<Longrightarrow> fst (snd e) = Some p \<Longrightarrow> round4 (length p) < 2 ^ 32"
  shows "\<exists>cs. f' = f @ chunks_bytes cs \<and> (\<forall>c\<in>set cs. chunk_ok c)"
  using assms
proof (induction es arbitrary: f)
  case Nil
  then show ?case by (intro exI [of _ "[]"]) simp
next
  case (Cons e es)
  obtain f1 where f1: "build_entry uninit f e = Out f1" "build_entries uninit f1 es = Out f'"
    using Cons.prems(1) by (auto split: build.splits)
  obtain cs where cs: "f1 = f @ chunks_bytes cs" "\<forall>c\<in>set cs. chunk_ok c"
    using build_entry_chunks [OF f1(1)] Cons.prems(2) [of e] by (metis list.set_intros(1))
  obtain cs' where cs': "f' = f1 @ chunks_bytes cs'" "\<forall>c\<in>set cs'. chunk_ok c"
    using Cons.IH [OF f1(2)] Cons.prems(2) by (metis list.set_intros(2))
  show ?case using cs cs' by (intro exI [of _ "cs @ cs'"]) (auto simp: chunks_bytes_def)
qed

text \<open>
  C21. The tool reads what it writes: a run that ends with a file, below 4 GiB, has written
  one that its reader accepts: the magic and the version match, no chunk is unknown or cut
  off, and the only end mark is the last entry.
\<close>

theorem salt_build_reads_back:
  fixes sha1 :: "u8 list \<Rightarrow> u8 list"
  assumes run: "salt_main sha1 uninit dirs_ok img proc_elf es = Out f" and sha: "\<And>x. length (sha1 x) = 20"
    and small: "length f < 2 ^ 32" "\<And>e p. e \<in> set es \<Longrightarrow> fst (snd e) = Some p \<Longrightarrow> round4 (length p) < 2 ^ 32"
  shows "\<exists>cs. patch_read (Some f) = Some (Inr (map entry_of cs @ [EOFEntry])) \<and> (\<forall>c\<in>set cs. chunk_ok c) \<and>
    drop 32 f = chunks_bytes cs @ putbe32 0xFF"
proof -
  obtain g where g: "build_entries uninit write_patch_header es = Out g" "f = write_patch_footer_and_hash sha1 g"
    using run by (auto simp: salt_main_def split: build.splits if_splits option.splits)
  obtain cs where cs: "g = write_patch_header @ chunks_bytes cs" "\<forall>c\<in>set cs. chunk_ok c"
    using build_entries_chunks [OF g(1)] small(2) by blast
  have lh: "length write_patch_header = 32" by (simp add: write_patch_header_def str_def)
  have d: "drop 32 f = chunks_bytes cs @ putbe32 0xFF"
    using lh sha by (simp add: g(2) cs(1) write_patch_footer_and_hash_def Let_def)
  have "length f = 32 + (length (chunks_bytes cs) + 4)"
    using lh sha by (simp add: g(2) cs(1) write_patch_footer_and_hash_def Let_def)
  then have "length (chunks_bytes cs) + 36 < 2 ^ 32" using small(1) by simp
  from salt_read_back [of cs sha1, OF cs(2) sha this] d cs(2) show ?thesis unfolding g(2) cs(1) by blast
qed

lemma demo_phdrs: "phdrs_read (replicate 0x82E 0 @ [0, 0x20, 0, 2])"
  by (simp add: phdrs_read_def getbe16_def)

lemma demo_entries:
  "build_entries 0 write_patch_header
     [(''.DS_Store'', None, None), (''0x05000000.bin'', Some [1, 2, 3, 4, 0, 0, 0, 0], Some [1, 2, 3, 4, 5, 6, 7, 8])]
   = Out (str ''SALTPTCH'' @ [0, 0, 0, 1] @ replicate 20 0 @
       [0, 0, 0, 0, 0x08, 0x1C, 0, 4, 0, 0, 0, 4, 0, 0, 0, 0])"
  by code_simp

lemma demo_footer:
  "write_patch_footer_and_hash (\<lambda>_. replicate 20 3) (str ''SALTPTCH'' @ [0, 0, 0, 1] @ replicate 20 0 @
       [0, 0, 0, 0, 0x08, 0x1C, 0, 4, 0, 0, 0, 4, 0, 0, 0, 0])
   = str ''SALTPTCH'' @ [0, 0, 0, 1] @ replicate 20 3 @
       [0, 0, 0, 0, 0x08, 0x1C, 0, 4, 0, 0, 0, 4, 0, 0, 0, 0, 0, 0, 0, 0xFF]"
  by code_simp

lemma demo_build:
  "salt_main (\<lambda>_. replicate 20 3) 0 True (Some (replicate 0x82E 0 @ [0, 0x20, 0, 2])) (Some [])
     [(''.DS_Store'', None, None), (''0x05000000.bin'', Some [1, 2, 3, 4, 0, 0, 0, 0], Some [1, 2, 3, 4, 5, 6, 7, 8])]
   = Out (str ''SALTPTCH'' @ [0, 0, 0, 1] @ replicate 20 3 @
       [0, 0, 0, 0, 0x08, 0x1C, 0, 4, 0, 0, 0, 4, 0, 0, 0, 0, 0, 0, 0, 0xFF])"
  unfolding salt_main_def demo_entries using demo_phdrs by (simp only: build.simps option.simps if_True not_True_eq_False if_False demo_footer simp_thms)

theorem salt_build_reads_back_witness:
  "\<exists>cs. patch_read (Some (str ''SALTPTCH'' @ [0, 0, 0, 1] @ replicate 20 3 @
       [0, 0, 0, 0, 0x08, 0x1C, 0, 4, 0, 0, 0, 4, 0, 0, 0, 0, 0, 0, 0, 0xFF]))
    = Some (Inr (map entry_of cs @ [EOFEntry]))"
proof -
  have "round4 (length [1, 2, 3, 4, 0, 0, 0, 0 :: u8]) = 8" by code_simp
  then show ?thesis using salt_build_reads_back [OF demo_build] by (auto simp: str_def)
qed

text \<open>
  Hexadecimal texts: what \<^verbatim>\<open>memdump\<close> prints after a prefix without hexadecimal digits is
  parsed by \<^verbatim>\<open>hex2bytes\<close> to the bytes that were printed.
\<close>

lemma hex_roundtrip:
  assumes "filter ishex prefix = []" and "length bytes = length data"
  shows "hex2bytes (memdump prefix data) bytes (length data) = (0, data)"
proof -
  have h: "filter ishex (memdump prefix data) = concat (map print_02X data)"
    unfolding memdump_def by (rule memdump_hex [OF assms(1)])
  have l: "length (concat (map print_02X xs)) = length xs * 2" for xs by (induction xs) simp_all
  have "hex_loop (memdump prefix data) 0 bytes = hex_loop (concat (map print_02X data)) (2 * 0) bytes"
    by (subst hex_loop_filter) (simp add: h)
  also have "\<dots> = data" using assms(2) by (subst hex_loop_bytes) simp_all
  finally show ?thesis by (simp add: hex2bytes_def h l)
qed

theorem hex_roundtrip_witness:
  "hex2bytes (memdump '': '' [0x2A, 0xF0]) [0, 0] (length [0x2A, 0xF0 :: u8]) = (0, [0x2A, 0xF0])"
  by (rule hex_roundtrip) (simp_all add: ishex_def less_eq_char_def)

text \<open>The widened 32-bit mask drops the high half of the offset.\<close>

lemma align64_drops: "align64 0x100000000 0x1000 = 0"
  by (simp add: align64_def)

end
