(* ===== verification/Sha1.thy ===== *)
theory Sha1
  imports SaltPatch
begin

text \<open>
  The digest of the patch file (\<^verbatim>\<open>salt-patch-src/sha1.c\<close>), as it runs on a little-endian
  host, and SHA-1 as its standard defines it.  Neither byte order is defined when the file
  is compiled, so the comparison that selects the swap holds and the words are swapped.
\<close>

section \<open>The code\<close>

record sha1_ctx =
  count0 :: u32
  count1 :: u32
  hash :: "u32 list"
  wbuf :: "u32 list"

definition rotl32 :: "u32 \<Rightarrow> nat \<Rightarrow> u32" where "rotl32 x n = push_bit n x OR drop_bit (32 - n) x"
definition rotr32 :: "u32 \<Rightarrow> nat \<Rightarrow> u32" where "rotr32 x n = drop_bit n x OR push_bit (32 - n) x"

definition bswap_32 :: "u32 \<Rightarrow> u32" where
  "bswap_32 x = (rotr32 x 24 AND 0x00ff00ff) OR (rotr32 x 8 AND 0xff00ff00)"

definition bsw_32 :: "u32 list \<Rightarrow> nat \<Rightarrow> u32 list" where
  "bsw_32 p n = map bswap_32 (take n p) @ drop n p"

definition ch :: "u32 \<Rightarrow> u32 \<Rightarrow> u32 \<Rightarrow> u32" where "ch x y z = z XOR (x AND (y XOR z))"
definition parity :: "u32 \<Rightarrow> u32 \<Rightarrow> u32 \<Rightarrow> u32" where "parity x y z = x XOR y XOR z"
definition maj :: "u32 \<Rightarrow> u32 \<Rightarrow> u32 \<Rightarrow> u32" where "maj x y z = (x AND y) OR (z AND (x XOR y))"

text \<open>The five variables are a list; the window of the schedule is updated in place.\<close>

definition one_cycle ::
  "u32 list \<Rightarrow> nat \<Rightarrow> nat \<Rightarrow> nat \<Rightarrow> nat \<Rightarrow> nat \<Rightarrow> (u32 \<Rightarrow> u32 \<Rightarrow> u32 \<Rightarrow> u32) \<Rightarrow> u32 \<Rightarrow> u32 \<Rightarrow> u32 list" where
  "one_cycle v a b c d e f k h =
     (let v = v[e := v ! e + (rotr32 (v ! a) 27 + f (v ! b) (v ! c) (v ! d) + k + h)]
      in v[b := rotr32 (v ! b) 2])"

definition hf_load :: "u32 list \<Rightarrow> nat \<Rightarrow> u32 \<times> u32 list" where
  "hf_load w i = (w ! i, w)"

definition hf_next :: "u32 list \<Rightarrow> nat \<Rightarrow> u32 \<times> u32 list" where
  "hf_next w i =
     (let x = rotl32 (w ! ((i + 13) mod 16) XOR w ! ((i + 8) mod 16) XOR w ! ((i + 2) mod 16) XOR w ! (i mod 16)) 1
      in (x, w[i mod 16 := x]))"

definition cycle ::
  "(u32 list \<Rightarrow> nat \<Rightarrow> u32 \<times> u32 list) \<Rightarrow> nat \<times> nat \<times> nat \<times> nat \<times> nat \<Rightarrow> (u32 \<Rightarrow> u32 \<Rightarrow> u32 \<Rightarrow> u32) \<Rightarrow>
   u32 \<Rightarrow> nat \<Rightarrow> u32 list \<times> u32 list \<Rightarrow> u32 list \<times> u32 list" where
  "cycle hf r f k i s =
     (let (v, w) = s; (a, b, c, d, e) = r; (h, w) = hf w i in (one_cycle v a b c d e f k h, w))"

definition five_cycle ::
  "(u32 list \<Rightarrow> nat \<Rightarrow> u32 \<times> u32 list) \<Rightarrow> (u32 \<Rightarrow> u32 \<Rightarrow> u32 \<Rightarrow> u32) \<Rightarrow> u32 \<Rightarrow> nat \<Rightarrow>
   u32 list \<times> u32 list \<Rightarrow> u32 list \<times> u32 list" where
  "five_cycle hf f k i s =
     (let s = cycle hf (0, 1, 2, 3, 4) f k i s;
          s = cycle hf (4, 0, 1, 2, 3) f k (i + 1) s;
          s = cycle hf (3, 4, 0, 1, 2) f k (i + 2) s;
          s = cycle hf (2, 3, 4, 0, 1) f k (i + 3) s
      in cycle hf (1, 2, 3, 4, 0) f k (i + 4) s)"

definition compile_cycles :: "u32 list \<times> u32 list \<Rightarrow> u32 list \<times> u32 list" where
  "compile_cycles s =
     (let s = five_cycle hf_load ch 0x5a827999 0 s;
          s = five_cycle hf_load ch 0x5a827999 5 s;
          s = five_cycle hf_load ch 0x5a827999 10 s;
          s = cycle hf_load (0, 1, 2, 3, 4) ch 0x5a827999 15 s;
          s = cycle hf_next (4, 0, 1, 2, 3) ch 0x5a827999 16 s;
          s = cycle hf_next (3, 4, 0, 1, 2) ch 0x5a827999 17 s;
          s = cycle hf_next (2, 3, 4, 0, 1) ch 0x5a827999 18 s;
          s = cycle hf_next (1, 2, 3, 4, 0) ch 0x5a827999 19 s;
          s = five_cycle hf_next parity 0x6ed9eba1 20 s;
          s = five_cycle hf_next parity 0x6ed9eba1 25 s;
          s = five_cycle hf_next parity 0x6ed9eba1 30 s;
          s = five_cycle hf_next parity 0x6ed9eba1 35 s;
          s = five_cycle hf_next maj 0x8f1bbcdc 40 s;
          s = five_cycle hf_next maj 0x8f1bbcdc 45 s;
          s = five_cycle hf_next maj 0x8f1bbcdc 50 s;
          s = five_cycle hf_next maj 0x8f1bbcdc 55 s;
          s = five_cycle hf_next parity 0xca62c1d6 60 s;
          s = five_cycle hf_next parity 0xca62c1d6 65 s;
          s = five_cycle hf_next parity 0xca62c1d6 70 s
      in five_cycle hf_next parity 0xca62c1d6 75 s)"

definition sha1_compile :: "sha1_ctx \<Rightarrow> sha1_ctx" where
  "sha1_compile ctx =
     (let (v, w) = compile_cycles (hash ctx, wbuf ctx)
      in ctx\<lparr>hash := map2 (+) (hash ctx) v, wbuf := w\<rparr>)"

text \<open>The contents of \<^verbatim>\<open>count\<close> and \<^verbatim>\<open>wbuf\<close> are set or uninitialised: \<open>w\<close>.\<close>

definition sha1_begin :: "u32 list \<Rightarrow> sha1_ctx" where
  "sha1_begin w =
     \<lparr> count0 = 0, count1 = 0,
       hash = [0x67452301, 0xefcdab89, 0x98badcfe, 0x10325476, 0xc3d2e1f0], wbuf = w \<rparr>"

text \<open>The buffer of words as bytes, and a copy into it.\<close>

definition bytes_of :: "u32 list \<Rightarrow> u8 list" where
  "bytes_of w = concat (map putle32 w)"

definition words_of :: "u8 list \<Rightarrow> u32 list" where
  "words_of bs = map (\<lambda>i. getle32 (drop (4 * i) bs)) [0..<length bs div 4]"

definition copy_in :: "nat \<Rightarrow> u8 list \<Rightarrow> sha1_ctx \<Rightarrow> sha1_ctx" where
  "copy_in pos bs ctx =
     (let b = bytes_of (wbuf ctx) in ctx\<lparr>wbuf := words_of (take pos b @ bs @ drop (pos + length bs) b)\<rparr>)"

definition SHA1_BLOCK_SIZE :: nat where "SHA1_BLOCK_SIZE = 64"

partial_function (option) hash_loop :: "u8 list \<Rightarrow> nat \<Rightarrow> nat \<Rightarrow> sha1_ctx \<Rightarrow> sha1_ctx option" where
  "hash_loop sp space pos ctx =
     (if space \<le> length sp
      then let ctx = copy_in pos (take space sp) ctx;
               ctx = ctx\<lparr>wbuf := bsw_32 (wbuf ctx) 16\<rparr>
           in hash_loop (drop space sp) SHA1_BLOCK_SIZE 0 (sha1_compile ctx)
      else Some (copy_in pos sp ctx))"

text \<open>The length is an \<^verbatim>\<open>unsigned long\<close>, the counters have 32 bits.\<close>

definition sha1_hash :: "u8 list \<Rightarrow> sha1_ctx \<Rightarrow> sha1_ctx option" where
  "sha1_hash data ctx =
     (let pos = unat (count0 ctx AND 63);
          c0 = count0 ctx + of_nat (length data);
          c1 = (if unat c0 < length data then count1 ctx + 1 else count1 ctx)
      in hash_loop data (SHA1_BLOCK_SIZE - pos) pos (ctx\<lparr>count0 := c0, count1 := c1\<rparr>))"

definition sha1_end :: "sha1_ctx \<Rightarrow> u8 list" where
  "sha1_end ctx =
     (let i = count0 ctx AND 63;
          n = unat i;
          w = bsw_32 (wbuf ctx) ((n + 3) div 4);
          sh = 8 * unat (NOT i AND 3);
          w = w[n div 4 := w ! (n div 4) AND push_bit sh 0xffffff80];
          w = w[n div 4 := w ! (n div 4) OR push_bit sh 0x00000080];
          (ctx, n) =
            (if n > SHA1_BLOCK_SIZE - 9
             then (sha1_compile (ctx\<lparr>wbuf := if n < 60 then w[15 := 0] else w\<rparr>), 0)
             else (ctx\<lparr>wbuf := w\<rparr>, n div 4 + 1));
          w = foldl (\<lambda>w j. w[j := 0]) (wbuf ctx) [n..<14];
          w = w[14 := push_bit 3 (count1 ctx) OR drop_bit 29 (count0 ctx)];
          w = w[15 := push_bit 3 (count0 ctx)];
          ctx = sha1_compile (ctx\<lparr>wbuf := w\<rparr>)
      in map (\<lambda>i. ucast (drop_bit (8 * (3 - i mod 4)) (hash ctx ! (i div 4)))) [0..<20])"

definition sha1 :: "u32 list \<Rightarrow> u8 list \<Rightarrow> u8 list option" where
  "sha1 w data = map_option sha1_end (sha1_hash data (sha1_begin w))"

section \<open>The standard\<close>

fun schedule :: "u32 list \<Rightarrow> nat \<Rightarrow> u32" where
  "schedule blk t =
     (if t < 16 then blk ! t
      else rotl32 (schedule blk (t - 3) XOR schedule blk (t - 8) XOR schedule blk (t - 14) XOR schedule blk (t - 16)) 1)"

declare schedule.simps [simp del]

definition round_f :: "nat \<Rightarrow> u32 \<Rightarrow> u32 \<Rightarrow> u32 \<Rightarrow> u32" where
  "round_f t x y z =
     (if t < 20 then (x AND y) XOR (NOT x AND z)
      else if 40 \<le> t \<and> t < 60 then (x AND y) XOR (x AND z) XOR (y AND z)
      else x XOR y XOR z)"

definition round_k :: "nat \<Rightarrow> u32" where
  "round_k t =
     (if t < 20 then 0x5a827999 else if t < 40 then 0x6ed9eba1 else if t < 60 then 0x8f1bbcdc else 0xca62c1d6)"

definition round_step :: "u32 list \<Rightarrow> u32 \<times> u32 \<times> u32 \<times> u32 \<times> u32 \<Rightarrow> nat \<Rightarrow> u32 \<times> u32 \<times> u32 \<times> u32 \<times> u32" where
  "round_step blk s t =
     (case s of (a, b, c, d, e) \<Rightarrow>
        (rotl32 a 5 + round_f t b c d + e + round_k t + schedule blk t, a, rotl32 b 30, c, d))"

definition compress :: "u32 list \<Rightarrow> u32 list \<Rightarrow> u32 list" where
  "compress H blk =
     (case foldl (round_step blk) (H ! 0, H ! 1, H ! 2, H ! 3, H ! 4) [0..<80] of
        (a, b, c, d, e) \<Rightarrow> [H ! 0 + a, H ! 1 + b, H ! 2 + c, H ! 3 + d, H ! 4 + e])"

definition be_words :: "u8 list \<Rightarrow> u32 list" where
  "be_words bs = map (\<lambda>i. getbe32 (drop (4 * i) bs)) [0..<length bs div 4]"

fun blocks :: "u8 list \<Rightarrow> u32 list list" where
  "blocks bs = (if length bs < 64 then [] else be_words (take 64 bs) # blocks (drop 64 bs))"

declare blocks.simps [simp del]

definition IV :: "u32 list" where
  "IV = [0x67452301, 0xefcdab89, 0x98badcfe, 0x10325476, 0xc3d2e1f0]"

definition padding :: "nat \<Rightarrow> u8 list" where
  "padding len =
     [0x80] @ replicate ((119 - len mod 64) mod 64) 0 @
     putbe32 (of_nat (len div 2 ^ 29)) @ putbe32 (of_nat (8 * len))"

definition sha1_standard :: "u8 list \<Rightarrow> u8 list" where
  "sha1_standard msg = concat (map putbe32 (foldl compress IV (blocks (msg @ padding (length msg)))))"

section \<open>One block\<close>

lemma ch_eq: "ch x y z = (x AND y) XOR (NOT x AND z)"
  by (auto intro!: bit_word_eqI simp: ch_def bit_simps)

lemma maj_eq: "maj x y z = (x AND y) XOR (x AND z) XOR (y AND z)"
  by (auto intro!: bit_word_eqI simp: maj_def bit_simps)

lemma rotr_rotl: "rotr32 x 27 = rotl32 x 5" "rotr32 x 2 = rotl32 x 30"
  by (simp_all add: rotl32_def rotr32_def or.commute)

text \<open>
  The state before round \<open>t\<close>: the window holds the last sixteen words of the schedule, and the
  variables, read from the one that plays the first role, are those of the standard.
\<close>

definition roles :: "nat \<Rightarrow> nat \<times> nat \<times> nat \<times> nat \<times> nat" where
  "roles r =
     (if r = 0 then (0, 1, 2, 3, 4) else if r = 1 then (4, 0, 1, 2, 3) else if r = 2 then (3, 4, 0, 1, 2)
      else if r = 3 then (2, 3, 4, 0, 1) else (1, 2, 3, 4, 0))"

lemma roles_eqs:
  "roles 0 = (0, 1, 2, 3, 4)" "roles 1 = (4, 0, 1, 2, 3)" "roles 2 = (3, 4, 0, 1, 2)"
  "roles 3 = (2, 3, 4, 0, 1)" "roles 4 = (1, 2, 3, 4, 0)"
  by (simp_all add: roles_def)

definition view :: "u32 list \<Rightarrow> nat \<times> nat \<times> nat \<times> nat \<times> nat \<Rightarrow> u32 \<times> u32 \<times> u32 \<times> u32 \<times> u32" where
  "view v r = (case r of (a, b, c, d, e) \<Rightarrow> (v ! a, v ! b, v ! c, v ! d, v ! e))"

definition at_round :: "u32 list \<Rightarrow> u32 \<times> u32 \<times> u32 \<times> u32 \<times> u32 \<Rightarrow> nat \<Rightarrow> u32 list \<times> u32 list \<Rightarrow> bool" where
  "at_round blk s0 t s \<longleftrightarrow>
     length (fst s) = 5 \<and> length (snd s) = 16 \<and>
     (\<forall>k. t \<le> k + 16 \<and> k < max 16 t \<longrightarrow> snd s ! (k mod 16) = schedule blk k) \<and>
     view (fst s) (roles (t mod 5)) = foldl (round_step blk) s0 [0..<t]"

definition hf_for :: "nat \<Rightarrow> u32 list \<Rightarrow> nat \<Rightarrow> u32 \<times> u32 list" where
  "hf_for t = (if t < 16 then hf_load else hf_next)"

text \<open>The word a round takes, and the window after it.\<close>

lemma hf_round:
  assumes len: "length w = 16" and win: "\<And>k. t \<le> k + 16 \<Longrightarrow> k < max 16 t \<Longrightarrow> w ! (k mod 16) = schedule blk k"
    and hf: "hf_for t w t = (h, w')"
  shows "h = schedule blk t" "length w' = 16"
    "\<And>k. Suc t \<le> k + 16 \<Longrightarrow> k < max 16 (Suc t) \<Longrightarrow> w' ! (k mod 16) = schedule blk k"
proof -
  have "h = schedule blk t \<and> length w' = 16 \<and>
    (\<forall>k. Suc t \<le> k + 16 \<and> k < max 16 (Suc t) \<longrightarrow> w' ! (k mod 16) = schedule blk k)"
  proof (cases "t < 16")
    case True
    then have "h = w ! t" "w' = w" using hf by (auto simp: hf_for_def hf_load_def)
    moreover have "w ! t = schedule blk t" using win [of t] True by simp
    moreover have "max 16 (Suc t) = 16" "max 16 t = 16" using True by simp_all
    ultimately show ?thesis using win len by auto
  next
    case False
    have m: "(t + 13) mod 16 = (t - 3) mod 16" "(t + 8) mod 16 = (t - 8) mod 16"
      "(t + 2) mod 16 = (t - 14) mod 16" "t mod 16 = (t - 16) mod 16"
    proof -
      obtain u where t: "t = u + 16" using False by (metis add.commute le_Suc_ex not_less)
      have e: "t + 13 = (u + 13) + 16" "t - 3 = u + 13" "t + 8 = (u + 8) + 16" "t - 8 = u + 8"
        "t + 2 = (u + 2) + 16" "t - 14 = u + 2" "t - 16 = u" by (simp_all add: t)
      show "(t + 13) mod 16 = (t - 3) mod 16" "(t + 8) mod 16 = (t - 8) mod 16"
        "(t + 2) mod 16 = (t - 14) mod 16" unfolding e by (rule mod_add_self2)+
      show "t mod 16 = (t - 16) mod 16" unfolding t by simp
    qed
    have wk: "w ! ((t - j) mod 16) = schedule blk (t - j)" if "0 < j" "j \<le> 16" for j
      using win [of "t - j"] False that by simp
    have hw: "h = rotl32 (w ! ((t + 13) mod 16) XOR w ! ((t + 8) mod 16) XOR w ! ((t + 2) mod 16) XOR w ! (t mod 16)) 1"
      "w' = w[t mod 16 := h]"
      using hf False by (auto simp: hf_for_def hf_next_def Let_def)
    have h: "h = schedule blk t"
      unfolding hw(1) m using False wk [of 3] wk [of 8] wk [of 14] wk [of 16] by (simp add: schedule.simps [of blk t])
    note w' = hw(2)
    have "w' ! (k mod 16) = schedule blk k" if "Suc t \<le> k + 16" "k < Suc t" for k
    proof (cases "k = t")
      case True
      then show ?thesis using h w' len by simp
    next
      case ne: False
      have "k mod 16 \<noteq> t mod 16"
      proof
        assume "k mod 16 = t mod 16"
        then have "16 dvd t - k" using mod_eq_dvd_iff_nat [of k t 16] that(2) by simp
        then have "t - k = 0 \<or> 16 \<le> t - k" using dvd_imp_le by blast
        then show False using that ne by linarith
      qed
      then show ?thesis using w' win [of k] that ne False by simp
    qed
    then show ?thesis using h w' len False by simp
  qed
  then show "h = schedule blk t" "length w' = 16"
    "\<And>k. Suc t \<le> k + 16 \<Longrightarrow> k < max 16 (Suc t) \<Longrightarrow> w' ! (k mod 16) = schedule blk k" by auto
qed

lemma five_list: "length v = 5 \<Longrightarrow> \<exists>a b c d e. v = [a, b, c, d, e]"
  by (auto simp: numeral_eq_Suc length_Suc_conv)

lemma roles_mod: "r < 5 \<Longrightarrow> r \<in> {0, 1, 2, 3, 4}" for r :: nat
  by auto

lemma nth5:
  "[a, b, c, d, e] ! 0 = a" "[a, b, c, d, e] ! 1 = b" "[a, b, c, d, e] ! 2 = c"
  "[a, b, c, d, e] ! 3 = d" "[a, b, c, d, e] ! 4 = e" for a :: 'a
  by simp_all

lemma update5:
  "[a, b, c, d, e][0 := x] = [x, b, c, d, e]" "[a, b, c, d, e][1 := x] = [a, x, c, d, e]"
  "[a, b, c, d, e][2 := x] = [a, b, x, d, e]" "[a, b, c, d, e][3 := x] = [a, b, c, x, e]"
  "[a, b, c, d, e][4 := x] = [a, b, c, d, x]" for a :: 'a
  by (simp_all add: list_update_code(3) numeral_2_eq_2 numeral_3_eq_3 numeral_eq_Suc)

lemma suc_mod5:
  "Suc 0 mod 5 = 1" "Suc 1 mod 5 = 2" "Suc 2 mod 5 = 3" "Suc 3 mod 5 = 4" "Suc 4 mod 5 = 0"
  by simp_all

lemma one_cycle_view:
  assumes "r < 5" "length v = 5"
  shows "length (case roles r of (a, b, c, d, e) \<Rightarrow> one_cycle v a b c d e f k h) = 5 \<and>
    view (case roles r of (a, b, c, d, e) \<Rightarrow> one_cycle v a b c d e f k h) (roles (Suc r mod 5)) =
      (case view v (roles r) of (a, b, c, d, e) \<Rightarrow> (e + (rotr32 a 27 + f b c d + k + h), a, rotr32 b 2, c, d))"
proof
  show "length (case roles r of (a, b, c, d, e) \<Rightarrow> one_cycle v a b c d e f k h) = 5"
    using assms(2) by (simp add: one_cycle_def Let_def split: prod.splits)
  obtain v0 v1 v2 v3 v4 where v: "v = [v0, v1, v2, v3, v4]" using five_list [OF assms(2)] by blast
  consider "r = 0" | "r = 1" | "r = 2" | "r = 3" | "r = 4" using assms(1) by linarith
  then show "view (case roles r of (a, b, c, d, e) \<Rightarrow> one_cycle v a b c d e f k h) (roles (Suc r mod 5)) =
      (case view v (roles r) of (a, b, c, d, e) \<Rightarrow> (e + (rotr32 a 27 + f b c d + k + h), a, rotr32 b 2, c, d))"
    by cases
      (simp_all only: roles_eqs prod.case suc_mod5 view_def one_cycle_def Let_def v nth5 update5)
qed

lemma cycle_round:
  assumes at: "at_round blk s0 t s" and f: "f = round_f t" and k: "k = round_k t"
    and hf: "hf = hf_for t" and r: "r = roles (t mod 5)"
  shows "at_round blk s0 (Suc t) (cycle hf r f k t s)"
proof -
  obtain v w where s: "s = (v, w)" by (cases s)
  obtain h w' where h: "hf_for t w t = (h, w')" by (cases "hf_for t w t")
  have len: "length v = 5" "length w = 16" using at by (simp_all add: at_round_def s)
  have win: "\<And>k. t \<le> k + 16 \<Longrightarrow> k < max 16 t \<Longrightarrow> w ! (k mod 16) = schedule blk k"
    using at by (simp add: at_round_def s)
  note hr = hf_round [OF len(2) win h]
  obtain a b c d e where ro: "roles (t mod 5) = (a, b, c, d, e)" by (cases "roles (t mod 5)")
  have cy: "cycle hf r f k t s = (one_cycle v a b c d e f k h, w')"
    by (simp add: cycle_def s hf h r ro)
  have fold: "foldl (round_step blk) s0 [0..<Suc t] = round_step blk (view v (roles (t mod 5))) t"
    using at by (simp add: at_round_def s)
  have ms: "Suc (t mod 5) mod 5 = Suc t mod 5" by (simp add: mod_Suc)
  have "t mod 5 < 5" by simp
  from one_cycle_view [OF this len(1), of f k h] have "length (one_cycle v a b c d e f k h) = 5"
      "view (one_cycle v a b c d e f k h) (roles (Suc t mod 5)) = round_step blk (view v (roles (t mod 5))) t"
    unfolding ro ms by (auto simp: round_step_def f k hr(1) rotr_rotl split: prod.splits)
  then show ?thesis unfolding at_round_def cy fold using hr(2,3) by simp
qed

lemma mod5_add: "5 dvd i \<Longrightarrow> (i + j) mod 5 = j mod 5" for i j :: nat
  by (auto simp: dvd_def)

lemma roles_at:
  assumes "5 dvd i"
  shows "(0, 1, 2, 3, 4) = roles (i mod 5)" "(4, 0, 1, 2, 3) = roles ((i + 1) mod 5)"
    "(3, 4, 0, 1, 2) = roles ((i + 2) mod 5)" "(2, 3, 4, 0, 1) = roles ((i + 3) mod 5)"
    "(1, 2, 3, 4, 0) = roles ((i + 4) mod 5)"
  using mod5_add [OF assms, of 0] mod5_add [OF assms, of 1] mod5_add [OF assms, of 2]
    mod5_add [OF assms, of 3] mod5_add [OF assms, of 4] by (simp_all add: roles_def)

lemma cycle_round':
  assumes "at_round blk s0 t s" "f = round_f t \<and> k = round_k t \<and> hf = hf_for t" "r = roles (t mod 5)" "u = t + 1"
  shows "at_round blk s0 u (cycle hf r f k t s)"
  using cycle_round [OF assms(1), of f k hf r] assms(2-4) by simp

lemma five_round:
  assumes at: "at_round blk s0 i s" and d: "5 dvd i"
    and eq: "\<And>t. i \<le> t \<Longrightarrow> t < i + 5 \<Longrightarrow> f = round_f t \<and> k = round_k t \<and> hf = hf_for t"
  shows "at_round blk s0 (i + 5) (five_cycle hf f k i s)"
proof -
  let ?c0 = "cycle hf (0, 1, 2, 3, 4) f k i s"
  let ?c1 = "cycle hf (4, 0, 1, 2, 3) f k (i + 1) ?c0"
  let ?c2 = "cycle hf (3, 4, 0, 1, 2) f k (i + 2) ?c1"
  let ?c3 = "cycle hf (2, 3, 4, 0, 1) f k (i + 3) ?c2"
  note r = roles_at [OF d]
  have "at_round blk s0 (i + 1) ?c0" by (rule cycle_round' [OF at eq r(1)]) simp_all
  then have "at_round blk s0 (i + 2) ?c1" by (rule cycle_round' [OF _ eq r(2)]) simp_all
  then have "at_round blk s0 (i + 3) ?c2" by (rule cycle_round' [OF _ eq r(3)]) simp_all
  then have "at_round blk s0 (i + 4) ?c3" by (rule cycle_round' [OF _ eq r(4)]) simp_all
  then show ?thesis unfolding five_cycle_def Let_def by (rule cycle_round' [OF _ eq r(5)]) simp_all
qed

lemma round_funs:
  "t < 20 \<Longrightarrow> ch = round_f t" "20 \<le> t \<Longrightarrow> t < 40 \<Longrightarrow> parity = round_f t"
  "40 \<le> t \<Longrightarrow> t < 60 \<Longrightarrow> maj = round_f t" "60 \<le> t \<Longrightarrow> parity = round_f t"
  by (auto intro!: ext simp: ch_eq maj_eq parity_def round_f_def)

lemma round_phase:
  "t < 16 \<Longrightarrow> ch = round_f t \<and> 0x5a827999 = round_k t \<and> hf_load = hf_for t"
  "16 \<le> t \<Longrightarrow> t < 20 \<Longrightarrow> ch = round_f t \<and> 0x5a827999 = round_k t \<and> hf_next = hf_for t"
  "20 \<le> t \<Longrightarrow> t < 40 \<Longrightarrow> parity = round_f t \<and> 0x6ed9eba1 = round_k t \<and> hf_next = hf_for t"
  "40 \<le> t \<Longrightarrow> t < 60 \<Longrightarrow> maj = round_f t \<and> 0x8f1bbcdc = round_k t \<and> hf_next = hf_for t"
  "60 \<le> t \<Longrightarrow> parity = round_f t \<and> 0xca62c1d6 = round_k t \<and> hf_next = hf_for t"
  by (simp_all add: round_funs round_k_def hf_for_def)

lemma five_round':
  assumes "at_round blk s0 i s" "5 dvd i"
    "\<And>t. i \<le> t \<Longrightarrow> t < i + 5 \<Longrightarrow> f = round_f t \<and> k = round_k t \<and> hf = hf_for t" "u = i + 5"
  shows "at_round blk s0 u (five_cycle hf f k i s)"
  using five_round [OF assms(1,2), of f k hf] assms(3,4) by blast

lemma compile_rounds:
  assumes "length v = 5" "length blk = 16"
  shows "at_round blk (view v (0, 1, 2, 3, 4)) 80 (compile_cycles (v, blk))"
proof -
  have start: "at_round blk (view v (0, 1, 2, 3, 4)) 0 (v, blk)"
    using assms by (simp add: at_round_def roles_eqs schedule.simps)
  show ?thesis
    unfolding compile_cycles_def Let_def
    apply (rule five_round' [where i = 75], rule five_round' [where i = 70], rule five_round' [where i = 65],
        rule five_round' [where i = 60], rule five_round' [where i = 55], rule five_round' [where i = 50],
        rule five_round' [where i = 45], rule five_round' [where i = 40], rule five_round' [where i = 35],
        rule five_round' [where i = 30], rule five_round' [where i = 25], rule five_round' [where i = 20],
        rule cycle_round' [where t = 19], rule cycle_round' [where t = 18], rule cycle_round' [where t = 17],
        rule cycle_round' [where t = 16], rule cycle_round' [where t = 15],
        rule five_round' [where i = 10], rule five_round' [where i = 5], rule five_round' [where i = 0])
    apply (rule start)
    apply (simp_all add: round_phase roles_def)
    done
qed

lemma sha1_compile_standard:
  assumes "length (hash ctx) = 5" "length (wbuf ctx) = 16"
  shows "hash (sha1_compile ctx) = compress (hash ctx) (wbuf ctx)"
    "length (wbuf (sha1_compile ctx)) = 16" "count0 (sha1_compile ctx) = count0 ctx"
    "count1 (sha1_compile ctx) = count1 ctx"
proof -
  obtain v w where c: "compile_cycles (hash ctx, wbuf ctx) = (v, w)" by force
  have at: "at_round (wbuf ctx) (view (hash ctx) (0, 1, 2, 3, 4)) 80 (v, w)"
    using compile_rounds [OF assms] by (simp add: c)
  obtain h0 h1 h2 h3 h4 where h: "hash ctx = [h0, h1, h2, h3, h4]" using five_list [OF assms(1)] by blast
  obtain v0 v1 v2 v3 v4 where v: "v = [v0, v1, v2, v3, v4]" using at five_list [of v] by (auto simp: at_round_def)
  have "foldl (round_step (wbuf ctx)) (h0, h1, h2, h3, h4) [0..<80] = (v0, v1, v2, v3, v4)"
    using at by (simp add: at_round_def roles_eqs view_def h v)
  then show "hash (sha1_compile ctx) = compress (hash ctx) (wbuf ctx)"
    by (simp add: sha1_compile_def c [unfolded h] compress_def h v)
  show "length (wbuf (sha1_compile ctx)) = 16" "count0 (sha1_compile ctx) = count0 ctx"
    "count1 (sha1_compile ctx) = count1 ctx"
    using at by (simp_all add: sha1_compile_def c at_round_def)
qed

section \<open>The buffer as bytes\<close>

lemma putle32_getle32: "length p = 4 \<Longrightarrow> putle32 (getle32 p) = p"
proof -
  assume "length p = 4"
  then obtain a b c d where p: "p = [a, b, c, d]" by (auto simp: numeral_eq_Suc length_Suc_conv)
  have "ucast (getle32 [a, b, c, d]) = a" "ucast (drop_bit 8 (getle32 [a, b, c, d])) = b"
    "ucast (drop_bit 16 (getle32 [a, b, c, d])) = c" "ucast (drop_bit 24 (getle32 [a, b, c, d])) = d"
    by (auto intro!: bit_word_eqI simp: getle32_def bit_simps)
  then show "putle32 (getle32 p) = p" by (simp add: p putle32_def)
qed

lemma byte_masks:
  "(0x00ff00ff :: u32) = mask 8 OR push_bit 16 (mask 8)" "(0xff00ff00 :: u32) = push_bit 8 (mask 8) OR push_bit 24 (mask 8)"
  by (simp_all add: mask_eq_exp_minus_1)

lemma bswap_getle32: "bswap_32 (getle32 p) = getbe32 p"
proof (rule bit_word_eqI)
  fix n assume "n < LENGTH(32)"
  then consider "n < 8" | "8 \<le> n" "n < 16" | "16 \<le> n" "n < 24" | "24 \<le> n" "n < 32" by force
  then show "bit (bswap_32 (getle32 p)) n = bit (getbe32 p) n"
    unfolding bswap_32_def byte_masks
    by cases (auto simp: rotr32_def getle32_def getbe32_def bit_simps)
qed

lemma length_bytes_of [simp]: "length (bytes_of w) = 4 * length w"
  by (induction w) (simp_all add: bytes_of_def)

lemma length_words_of [simp]: "length (words_of bs) = length bs div 4" "length (be_words bs) = length bs div 4"
  by (simp_all add: words_of_def be_words_def)

lemma words_of_step:
  assumes "4 \<le> length bs"
  shows "words_of bs = getle32 bs # words_of (drop 4 bs)"
proof -
  have l: "length bs div 4 = Suc (length (drop 4 bs) div 4)" using assms by (simp add: div_if)
  show ?thesis
    unfolding words_of_def l upt_conv_Cons [OF zero_less_Suc]
    by (simp add: map_Suc_upt [symmetric] o_def add.commute del: upt_Suc)
qed

lemma getle32_take: "4 \<le> length bs \<Longrightarrow> getle32 (take 4 bs) = getle32 bs" "4 \<le> length bs \<Longrightarrow> getbe32 (take 4 bs) = getbe32 bs"
  by (simp_all add: getle32_def getbe32_def)

lemma bytes_of_words_of:
  assumes "4 dvd length bs"
  shows "bytes_of (words_of bs) = bs"
  using assms
proof (induction bs rule: length_induct)
  case (1 bs)
  show ?case
  proof (cases "4 \<le> length bs")
    case True
    have "bytes_of (words_of (drop 4 bs)) = drop 4 bs"
      using 1 True by (auto simp: dvd_diff_nat)
    moreover have "putle32 (getle32 bs) = take 4 bs"
      using putle32_getle32 [of "take 4 bs"] getle32_take [OF True] True by simp
    ultimately show ?thesis by (simp add: words_of_step [OF True]) (simp add: bytes_of_def)
  next
    case False
    then have "bs = []" using 1(2) by (cases bs) (auto dest: dvd_imp_le)
    then show ?thesis by (simp add: words_of_def bytes_of_def)
  qed
qed

lemma copy_in_wbuf:
  assumes "length (wbuf ctx) = 16" "pos + length bs \<le> 64"
  shows "bytes_of (wbuf (copy_in pos bs ctx)) =
      take pos (bytes_of (wbuf ctx)) @ bs @ drop (pos + length bs) (bytes_of (wbuf ctx))"
    "length (wbuf (copy_in pos bs ctx)) = 16" "hash (copy_in pos bs ctx) = hash ctx"
    "count0 (copy_in pos bs ctx) = count0 ctx" "count1 (copy_in pos bs ctx) = count1 ctx"
proof -
  let ?b = "take pos (bytes_of (wbuf ctx)) @ bs @ drop (pos + length bs) (bytes_of (wbuf ctx))"
  have l: "length ?b = 64" using assms by simp
  have "wbuf (copy_in pos bs ctx) = words_of ?b" by (simp add: copy_in_def Let_def)
  then show "bytes_of (wbuf (copy_in pos bs ctx)) = ?b" "length (wbuf (copy_in pos bs ctx)) = 16"
    using bytes_of_words_of [of ?b] l by (simp_all del: length_append length_take length_drop)
  show "hash (copy_in pos bs ctx) = hash ctx"
    "count0 (copy_in pos bs ctx) = count0 ctx" "count1 (copy_in pos bs ctx) = count1 ctx"
    by (simp_all add: copy_in_def Let_def)
qed

lemma words_of_bytes_of:
  "words_of (bytes_of w) = w"
proof (induction w)
  case (Cons x w)
  have b: "bytes_of (x # w) = putle32 x @ bytes_of w" by (simp add: bytes_of_def)
  show ?case unfolding b by (subst words_of_step) (simp_all add: Cons)
qed (simp add: words_of_def bytes_of_def)

lemma bsw_words: "map bswap_32 (words_of bs) = be_words bs"
  by (simp add: words_of_def be_words_def bswap_getle32)

lemma bsw_full: "length w = 16 \<Longrightarrow> bsw_32 w 16 = be_words (bytes_of w)"
  using bsw_words [of "bytes_of w"] words_of_bytes_of [of w] by (simp add: bsw_32_def)

section \<open>Blocks\<close>

lemma blocks_short [simp]: "length bs < 64 \<Longrightarrow> blocks bs = []"
  by (subst blocks.simps) simp

lemma blocks_Cons: "length b = 64 \<Longrightarrow> blocks (b @ bs) = be_words b # blocks bs"
  by (subst blocks.simps) simp

lemma blocks_append:
  assumes "64 dvd length xs"
  shows "blocks (xs @ ys) = blocks xs @ blocks ys"
  using assms
proof (induction xs rule: length_induct)
  case (1 xs)
  show ?case
  proof (cases "xs = []")
    case True
    then show ?thesis by simp
  next
    case False
    then have l: "64 \<le> length xs" using 1(2) by (auto dest: dvd_imp_le)
    have x: "xs = take 64 xs @ drop 64 xs" by simp
    have "blocks (drop 64 xs @ ys) = blocks (drop 64 xs) @ blocks ys"
      using 1 l by (auto simp: dvd_diff_nat)
    then show ?thesis
      using blocks_Cons [of "take 64 xs" "drop 64 xs @ ys"] blocks_Cons [of "take 64 xs" "drop 64 xs"] l
      by (simp flip: append_assoc)
  qed
qed

lemma length_compress [simp]: "length (compress H blk) = 5"
  by (simp add: compress_def split: prod.splits)

lemma length_fold_compress: "length H = 5 \<Longrightarrow> length (foldl compress H bs) = 5"
  by (induction bs arbitrary: H) simp_all

lemma round_split: "(n + l) div 64 * 64 = n div 64 * 64 + (n mod 64 + l) div 64 * 64" for n l :: nat
proof -
  have "n + l = (n mod 64 + l) + n div 64 * 64" by simp
  then have "(n + l) div 64 = n div 64 + (n mod 64 + l) div 64"
    by (metis div_mult_self1 zero_neq_numeral)
  then show ?thesis by (simp only: add_mult_distrib)
qed

lemma drop_block: "length b = 64 \<Longrightarrow> drop ((64 + l) div 64 * 64) (b @ bs) = drop (l div 64 * 64) bs"
  using round_split [of 64 l] by simp

lemma hash_loop_spec:
  assumes "length (hash ctx) = 5" "length (wbuf ctx) = 16" "pos + space = 64" "0 < space"
  shows "\<exists>ctx'. hash_loop sp space pos ctx = Some ctx' \<and>
    hash ctx' = foldl compress (hash ctx) (blocks (take pos (bytes_of (wbuf ctx)) @ sp)) \<and>
    length (wbuf ctx') = 16 \<and> count0 ctx' = count0 ctx \<and> count1 ctx' = count1 ctx \<and>
    take ((pos + length sp) mod 64) (bytes_of (wbuf ctx')) =
      drop ((pos + length sp) div 64 * 64) (take pos (bytes_of (wbuf ctx)) @ sp)"
  using assms
proof (induction "length sp" arbitrary: sp space pos ctx rule: less_induct)
  case less
  let ?t = "take pos (bytes_of (wbuf ctx))"
  have lt: "length ?t = pos" using less.prems by simp
  show ?case
  proof (cases "space \<le> length sp")
    case True
    let ?c = "copy_in pos (take space sp) ctx"
    let ?d = "?c\<lparr>wbuf := bsw_32 (wbuf ?c) 16\<rparr>"
    let ?B = "?t @ take space sp"
    have fits: "pos + length (take space sp) \<le> 64" using less.prems(3) True by simp
    note c = copy_in_wbuf [OF less.prems(2) fits]
    have B: "length ?B = 64" using lt True less.prems(3) by simp
    have "bytes_of (wbuf ?c) = ?B" using c(1) True less.prems(2,3) by simp
    then have w: "wbuf ?d = be_words ?B" using bsw_full [OF c(2)] by simp
    have lw: "length (wbuf ?d) = 16" unfolding w using B by simp
    have lh: "length (hash ?d) = 5" using c(3) less.prems(1) by simp
    note s = sha1_compile_standard [OF lh lw]
    have dec: "length (drop space sp) < length sp" using True less.prems(4) by simp
    have l5: "length (hash (sha1_compile ?d)) = 5" unfolding s(1) by simp
    obtain ctx' where r: "hash_loop (drop space sp) 64 0 (sha1_compile ?d) = Some ctx'"
        "hash ctx' = foldl compress (hash (sha1_compile ?d)) (blocks (drop space sp))"
        "length (wbuf ctx') = 16" "count0 ctx' = count0 ?d" "count1 ctx' = count1 ?d"
        "take (length (drop space sp) mod 64) (bytes_of (wbuf ctx')) =
           drop (length (drop space sp) div 64 * 64) (drop space sp)"
      using less.hyps [OF dec l5 s(2), of 0 64] s(3,4) by auto
    have split: "?t @ sp = ?B @ drop space sp" by simp
    have len: "pos + length sp = 64 + length (drop space sp)" using True less.prems(3) by simp
    have "hash_loop sp space pos ctx = Some ctx'"
      using True r(1) by (subst hash_loop.simps) (simp add: Let_def SHA1_BLOCK_SIZE_def)
    moreover have "hash ctx' = foldl compress (hash ctx) (blocks (?t @ sp))"
      unfolding split blocks_Cons [OF B] r(2) s(1) w using c(3) by simp
    moreover have "drop ((pos + length sp) div 64 * 64) (?t @ sp) = drop (length (drop space sp) div 64 * 64) (drop space sp)"
      unfolding split len by (rule drop_block [OF B])
    moreover have "(pos + length sp) mod 64 = length (drop space sp) mod 64" unfolding len by simp
    ultimately show ?thesis using r c by simp
  next
    case False
    have fits: "pos + length sp \<le> 64" using less.prems(3) False by simp
    note c = copy_in_wbuf [OF less.prems(2) fits]
    have m: "pos + length sp < 64" using less.prems(3) False by simp
    have "hash_loop sp space pos ctx = Some (copy_in pos sp ctx)"
      using False by (subst hash_loop.simps) simp
    moreover have "blocks (?t @ sp) = []" using m lt by simp
    moreover have "take ((pos + length sp) mod 64) (bytes_of (wbuf (copy_in pos sp ctx))) = ?t @ sp"
      unfolding c(1) using m lt by simp
    moreover have "drop ((pos + length sp) div 64 * 64) (?t @ sp) = ?t @ sp" using m by simp
    ultimately show ?thesis using c by simp
  qed
qed

text \<open>The context after \<open>msg\<close> has been hashed.\<close>

definition hashed :: "u8 list \<Rightarrow> sha1_ctx \<Rightarrow> bool" where
  "hashed msg ctx \<longleftrightarrow>
     length msg < 2 ^ 32 \<and> count0 ctx = of_nat (length msg) \<and> count1 ctx = 0 \<and>
     hash ctx = foldl compress IV (blocks msg) \<and> length (wbuf ctx) = 16 \<and>
     take (length msg mod 64) (bytes_of (wbuf ctx)) = drop (length msg div 64 * 64) msg"

lemma hashed_begin: "length w = 16 \<Longrightarrow> hashed [] (sha1_begin w)"
  by (simp add: hashed_def sha1_begin_def IV_def)

lemma and_63: "unat (x AND 63) = unat x mod 64" for x :: u32
proof -
  have "x AND 63 = take_bit 6 x" by (simp add: take_bit_eq_mask mask_eq_exp_minus_1)
  then show ?thesis by (simp add: take_bit_eq_mod unat_mod)
qed

lemma sha1_hash_hashed:
  assumes h: "hashed msg ctx" and small: "length msg + length data < 2 ^ 32"
  shows "\<exists>ctx'. sha1_hash data ctx = Some ctx' \<and> hashed (msg @ data) ctx'"
proof -
  let ?n = "length msg" and ?l = "length data"
  have n: "unat (of_nat ?n :: u32) = ?n" by (rule unat_of_nat_u32) (use small in simp)
  have pos: "unat (count0 ctx AND 63) = ?n mod 64" using h by (simp add: hashed_def and_63 n)
  have c0: "unat (count0 ctx + of_nat ?l) = ?n + ?l"
  proof -
    have "count0 ctx + of_nat ?l = of_nat (?n + ?l)" using h by (simp add: hashed_def)
    then show ?thesis using small by (simp only: unat_of_nat_u32)
  qed
  let ?c = "ctx\<lparr>count0 := count0 ctx + of_nat ?l, count1 := count1 ctx\<rparr>"
  have run: "sha1_hash data ctx = hash_loop data (64 - ?n mod 64) (?n mod 64) ?c"
    using c0 by (simp add: sha1_hash_def Let_def pos SHA1_BLOCK_SIZE_def)
  have w: "length (hash ?c) = 5" "length (wbuf ?c) = 16"
    using h length_fold_compress [of IV "blocks msg"] by (simp_all add: hashed_def IV_def)
  let ?t = "drop (?n div 64 * 64) msg" and ?f = "take (?n div 64 * 64) msg"
  have t: "take (?n mod 64) (bytes_of (wbuf ?c)) = ?t" using h by (simp add: hashed_def)
  have lt: "length ?t = ?n mod 64" by (simp add: minus_div_mult_eq_mod)
  have lf: "64 dvd length ?f" by (simp add: min_absorb2)
  have bm: "blocks msg = blocks ?f" using blocks_append [OF lf, of ?t] lt by simp
  have "0 < 64 - ?n mod 64" "?n mod 64 + (64 - ?n mod 64) = 64" by simp_all
  from hash_loop_spec [OF w this(2,1), of data, unfolded t] obtain ctx' where r:
      "hash_loop data (64 - ?n mod 64) (?n mod 64) ?c = Some ctx'"
      "hash ctx' = foldl compress (hash ?c) (blocks (?t @ data))" "length (wbuf ctx') = 16"
      "count0 ctx' = count0 ?c" "count1 ctx' = count1 ?c"
      "take ((?n mod 64 + ?l) mod 64) (bytes_of (wbuf ctx')) = drop ((?n mod 64 + ?l) div 64 * 64) (?t @ data)"
    by blast
  have "hash ctx' = foldl compress IV (blocks (msg @ data))"
  proof -
    have "blocks (msg @ data) = blocks ?f @ blocks (?t @ data)"
      using blocks_append [OF lf, of "?t @ data"] by (simp flip: append_assoc)
    then show ?thesis using r(2) h bm by (simp add: hashed_def)
  qed
  moreover have "drop ((?n mod 64 + ?l) div 64 * 64) (?t @ data) = drop ((?n + ?l) div 64 * 64) (msg @ data)"
  proof -
    have e: "(?n + ?l) div 64 * 64 = ?n div 64 * 64 + (?n mod 64 + ?l) div 64 * 64"
      by (rule round_split)
    have "msg @ data = ?f @ (?t @ data)" by (simp flip: append_assoc)
    moreover have "drop (length f + k) (f @ r) = drop k r" for f r :: "u8 list" and k by simp
    moreover have "length ?f = ?n div 64 * 64" by (simp add: min_absorb2)
    ultimately show ?thesis unfolding e by metis
  qed
  moreover have "(?n mod 64 + ?l) mod 64 = (?n + ?l) mod 64" by (simp add: mod_add_left_eq)
  ultimately have "hashed (msg @ data) ctx'"
    using r h small by (simp add: hashed_def)
  then show ?thesis using run r(1) by simp
qed

end
