(* ===== verification/Sha1Digest.thy ===== *)
theory Sha1Digest
  imports Sha1
begin

text \<open>
  The end of a message (\<^verbatim>\<open>sha1_end\<close>): the word that takes the padding bit, the zeros, the
  length and the bytes of the digest; the digest of a message is that of the standard.
\<close>

section \<open>The end of a message\<close>

lemma be_words_step:
  assumes "4 \<le> length bs"
  shows "be_words bs = getbe32 bs # be_words (drop 4 bs)"
  using words_of_step [OF assms] by (simp flip: bsw_words add: bswap_getle32)

lemma be_words_short [simp]: "length bs < 4 \<Longrightarrow> be_words bs = []"
  by (simp add: be_words_def)

lemma be_words_put [simp]: "be_words (putbe32 x @ bs) = x # be_words bs" "be_words (putbe32 x) = [x]"
  using be_words_step [of "putbe32 x @ bs"] be_words_step [of "putbe32 x @ []"] get_put(1) [of x "[]"]
  by simp_all

lemma be_words_append:
  assumes "4 dvd length xs"
  shows "be_words (xs @ ys) = be_words xs @ be_words ys"
  using assms
proof (induction xs rule: length_induct)
  case (1 xs)
  show ?case
  proof (cases "xs = []")
    case False
    then have l: "4 \<le> length xs" using 1(2) by (auto dest: dvd_imp_le)
    have "be_words (drop 4 xs @ ys) = be_words (drop 4 xs) @ be_words ys"
      using 1 l by (auto simp: dvd_diff_nat)
    moreover have "getbe32 (xs @ ys) = getbe32 xs" using l False by (simp add: getbe32_def nth_append)
    ultimately show ?thesis
      using be_words_step [of "xs @ ys"] be_words_step [OF l] l by simp
  qed simp
qed

lemma be_words_zeros [simp]: "be_words (replicate (4 * k) 0 @ bs) = replicate k 0 @ be_words bs"
proof (induction k)
  case (Suc k)
  have e: "replicate (4 * Suc k) 0 @ bs = putbe32 0 @ (replicate (4 * k) 0 @ bs)"
    by (simp add: putbe32_def numeral_eq_Suc)
  show ?case unfolding e by (simp only: be_words_put Suc) simp
qed simp

lemma single_bit: "bit (push_bit k 0x80 :: u32) n \<longleftrightarrow> n = k + 7 \<and> n < 32" "bit (0x80 :: u8) n \<longleftrightarrow> n = 7"
proof -
  have "(0x80 :: u32) = push_bit 7 1" "(0x80 :: u8) = push_bit 7 1" by simp_all
  then show "bit (push_bit k 0x80 :: u32) n \<longleftrightarrow> n = k + 7 \<and> n < 32" "bit (0x80 :: u8) n \<longleftrightarrow> n = 7"
    by (auto simp only: push_bit_push_bit bit_push_bit_iff bit_1_iff possible_bit_word) auto
qed

lemma pad_word:
  assumes "r < 4" "0 < r \<Longrightarrow> x = getbe32 p" "length p = 4"
  shows "(x AND push_bit (8 * (3 - r)) 0xffffff80) OR push_bit (8 * (3 - r)) 0x00000080
    = getbe32 (take r p @ [0x80] @ replicate (3 - r) 0)"
proof -
  have m: "(0xffffff80 :: u32) = NOT (mask 7)"
    by (simp_all add: mask_eq_exp_minus_1)
  obtain a b c d where p: "p = [a, b, c, d]" using assms(3) by (auto simp: numeral_eq_Suc length_Suc_conv)
  consider "r = 0" | "r = 1" | "r = 2" | "r = 3" using assms(1) by linarith
  then show ?thesis
  proof cases
    case 1
    have absorb: "(y AND z) OR z = z" for y z :: u32 by (auto intro!: bit_word_eqI simp: bit_simps)
    have s: "push_bit 24 0xffffff80 = (0x80000000 :: u32)" "push_bit 24 0x80 = (0x80000000 :: u32)" by code_simp+
    have "(x AND push_bit 24 0xffffff80) OR push_bit 24 0x80 = (0x80000000 :: u32)"
      unfolding s by (rule absorb)
    moreover have "getbe32 [0x80, 0, 0, 0] = 0x80000000" by (simp add: getbe32_def)
    ultimately have e: "(x AND push_bit 24 0xffffff80) OR push_bit 24 0x80 = getbe32 [0x80, 0, 0, 0]" by simp
    have z: "8 * (3 - 0) = (24 :: nat)" "take 0 p @ [0x80] @ replicate (3 - 0) 0 = [0x80, 0, 0, 0 :: u8]"
      by (simp, simp only: minus_nat.diff_0 numeral_3_eq_3 replicate_Suc replicate_0 take_0 append.simps)
    show ?thesis unfolding 1 z by (rule e)
  next
    case 2
    have x: "x = getbe32 [a, b, c, d]" using assms(2) 2 p by simp
    have t: "take 1 p @ [0x80] @ replicate (3 - 1) 0 = [a, 0x80, 0, 0]" "8 * (3 - 1) = (16 :: nat)"
      by (simp_all only: p) (simp_all add: eval_nat_numeral)
    obtain u :: u32 where u: "push_bit 16 0x80 = u" "\<And>n. bit u n \<longleftrightarrow> n = 23"
      by (rule that [OF refl]) (unfold single_bit(1), presburger)
    obtain q :: u8 where q: "0x80 = q" "\<And>n. bit q n \<longleftrightarrow> n = 7" using single_bit(2) by blast
    show ?thesis unfolding 2 t x unfolding m u q(1)
    proof (rule bit_word_eqI)
      fix n assume "n < LENGTH(32)"
      then consider "n < 8" | "8 \<le> n" "n < 16" | "16 \<le> n" "n < 24" | "24 \<le> n" "n < 32" by force
      then show "bit ((getbe32 [a, b, c, d] AND push_bit 16 (NOT (mask 7))) OR u) n = bit (getbe32 [a, q, 0, 0]) n"
        by cases (auto simp: getbe32_def bit_simps u(2) q(2))
    qed
  next
    case 3
    have x: "x = getbe32 [a, b, c, d]" using assms(2) 3 p by simp
    have t: "take 2 p @ [0x80] @ replicate (3 - 2) 0 = [a, b, 0x80, 0]" "8 * (3 - 2) = (8 :: nat)"
      by (simp_all only: p) (simp_all add: eval_nat_numeral)
    obtain u :: u32 where u: "push_bit 8 0x80 = u" "\<And>n. bit u n \<longleftrightarrow> n = 15"
      by (rule that [OF refl]) (unfold single_bit(1), presburger)
    obtain q :: u8 where q: "0x80 = q" "\<And>n. bit q n \<longleftrightarrow> n = 7" using single_bit(2) by blast
    show ?thesis unfolding 3 t x unfolding m u q(1)
    proof (rule bit_word_eqI)
      fix n assume "n < LENGTH(32)"
      then consider "n < 8" | "8 \<le> n" "n < 16" | "16 \<le> n" "n < 24" | "24 \<le> n" "n < 32" by force
      then show "bit ((getbe32 [a, b, c, d] AND push_bit 8 (NOT (mask 7))) OR u) n = bit (getbe32 [a, b, q, 0]) n"
        by cases (auto simp: getbe32_def bit_simps u(2) q(2))
    qed
  next
    case 4
    have x: "x = getbe32 [a, b, c, d]" using assms(2) 4 p by simp
    have t: "take 3 p @ [0x80] @ replicate (3 - 3) 0 = [a, b, c, 0x80]" "8 * (3 - 3) = (0 :: nat)"
      by (simp_all only: p) (simp_all add: eval_nat_numeral)
    obtain u :: u32 where u: "push_bit 0 0x80 = u" "\<And>n. bit u n \<longleftrightarrow> n = 7"
      by (rule that [OF refl]) (unfold single_bit(1), presburger)
    obtain q :: u8 where q: "0x80 = q" "\<And>n. bit q n \<longleftrightarrow> n = 7" using single_bit(2) by blast
    show ?thesis unfolding 4 t x unfolding m u q(1)
    proof (rule bit_word_eqI)
      fix n assume "n < LENGTH(32)"
      then consider "n < 8" | "8 \<le> n" "n < 16" | "16 \<le> n" "n < 24" | "24 \<le> n" "n < 32" by force
      then show "bit ((getbe32 [a, b, c, d] AND push_bit 0 (NOT (mask 7))) OR u) n = bit (getbe32 [a, b, c, q]) n"
        by cases (auto simp: getbe32_def bit_simps u(2) q(2))
    qed
  qed
qed

lemma zero_pad:
  assumes "n \<le> 14" "14 \<le> length w"
  shows "foldl (\<lambda>w j. w[j := 0]) w [n..<14] = take n w @ replicate (14 - n) 0 @ drop 14 w"
  using assms
proof (induction "14 - n" arbitrary: n w)
  case (Suc d)
  then have n: "n < 14" by simp
  then have u: "[n..<14] = n # [Suc n..<14]" by (rule upt_conv_Cons)
  have IH: "foldl (\<lambda>w j. w[j := 0]) (w[n := 0]) [Suc n..<14]
      = take (Suc n) (w[n := 0]) @ replicate (14 - Suc n) 0 @ drop 14 (w[n := 0])"
    using Suc by (intro Suc.hyps(1)) simp_all
  have "take (Suc n) (w[n := 0]) = take n w @ [0]" using n Suc.prems(2) by (simp add: take_Suc_conv_app_nth)
  moreover have "14 - n = Suc (14 - Suc n)" using n by simp
  ultimately show ?case unfolding u foldl_Cons IH using n by simp
qed simp

lemma not_and_3: "unat (NOT i AND 3) = 3 - unat i mod 4" for i :: u32
proof -
  have "NOT i AND 3 = take_bit 2 (NOT i)" by (simp add: take_bit_eq_mask mask_eq_exp_minus_1)
  then have "unat (NOT i AND 3) = unat (NOT i) mod 4" by (simp add: take_bit_eq_mod unat_mod)
  also have "unat (NOT i) = 2 ^ 32 - 1 - unat i"
  proof -
    have "NOT i = - 1 - i" by (simp add: not_eq_complement)
    moreover have "i \<le> - 1" by simp
    ultimately show ?thesis by (simp add: unat_sub unsigned_minus_1_eq_mask mask_eq_exp_minus_1)
  qed
  also have "(2 ^ 32 - 1 - a) mod 4 = 3 - a mod 4" if "a < 2 ^ 32" for a :: nat
  proof -
    obtain k j where a: "a = 4 * k + j" "j < 4"
      by (metis div_mult_mod_eq mult.commute mod_less_divisor zero_less_numeral)
    then have "2 ^ 32 - 1 - a = (3 - j) + 4 * (2 ^ 30 - 1 - k)" using that by simp
    moreover have "((3 - j) + 4 * c) mod 4 = 3 - j" for c
    proof -
      define d where "d = 3 - j"
      then have "d < 4" by simp
      then have "(d + 4 * c) mod 4 = d" by simp
      then show ?thesis unfolding d_def .
    qed
    moreover have "a mod 4 = j" using a by simp
    ultimately show ?thesis by (simp only:)
  qed
  finally show ?thesis using unat_u32_less [of i] by simp
qed

lemma bytes_of_take: "take (4 * q) (bytes_of w) = bytes_of (take q w)"
proof (induction w arbitrary: q)
  case (Cons x w)
  have b: "bytes_of (x # v) = putle32 x @ bytes_of v" for v by (simp add: bytes_of_def)
  show ?case
  proof (cases q)
    case (Suc k)
    have "4 * q - 4 = 4 * k" "take (4 * q) (putle32 x) = putle32 x" using Suc by simp_all
    then show ?thesis unfolding b Suc take_Suc_Cons by (simp add: Cons)
  qed (simp add: bytes_of_def)
qed (simp add: bytes_of_def)

lemma word_of_bytes:
  assumes "q < length w"
  shows "w ! q = getle32 (take 4 (drop (4 * q) (bytes_of w)))"
proof -
  have "w ! q = words_of (bytes_of w) ! q" by (simp add: words_of_bytes_of)
  also have "\<dots> = getle32 (drop (4 * q) (bytes_of w))" using assms by (simp add: words_of_def)
  also have "\<dots> = getle32 (take 4 (drop (4 * q) (bytes_of w)))"
    using assms by (intro getle32_take(1) [symmetric]) simp
  finally show ?thesis .
qed

text \<open>The words up to the one that takes the bit, after the swap and the two masks.\<close>

lemma marked_words:
  fixes w :: "u32 list" and pos :: nat
  assumes len: "length w = 16" and pos: "pos < 64"
  defines "q \<equiv> pos div 4" and "v \<equiv> bsw_32 w ((pos + 3) div 4)" and "sh \<equiv> 8 * (3 - pos mod 4)"
  defines "m \<equiv> (v[q := v ! q AND push_bit sh 0xffffff80])"
  shows "take (Suc q) (m[q := m ! q OR push_bit sh 0x80])
      = be_words (take pos (bytes_of w) @ [0x80] @ replicate (3 - pos mod 4) 0)"
    "length (m[q := m ! q OR push_bit sh 0x80]) = 16"
proof -
  define r where "r = pos mod 4"
  have pq: "pos = 4 * q + r" "r < 4" "q < 16" using pos by (simp_all add: q_def r_def)
  have lv: "length v = 16" using len by (simp add: v_def bsw_32_def)
  then show "length (m[q := m ! q OR push_bit sh 0x80]) = 16" by (simp add: m_def)
  define p where "p = take 4 (drop (4 * q) (bytes_of w))"
  have lp: "length p = 4" using len pq by (simp add: p_def)
  have le: "q \<le> (pos + 3) div 4" "0 < r \<Longrightarrow> q < (pos + 3) div 4" using pq by simp_all
  have vq: "take q v = map bswap_32 (take q w)"
    using le(1) len pq(3) by (simp add: v_def bsw_32_def take_map min_def)
  have x: "v ! q = getbe32 p" if "0 < r"
  proof -
    have "v ! q = bswap_32 (w ! q)" using le(2) [OF that] len pq(3) by (simp add: v_def bsw_32_def nth_append)
    then show ?thesis using word_of_bytes [of q w] len pq(3) by (simp add: p_def bswap_getle32)
  qed
  have fix_q: "(v ! q AND push_bit sh 0xffffff80) OR push_bit sh 0x80
      = getbe32 (take r p @ [0x80] @ replicate (3 - r) 0)"
    unfolding sh_def r_def [symmetric] by (rule pad_word [OF pq(2) x lp])
  have "take (Suc q) (m[q := m ! q OR push_bit sh 0x80]) = take q v @ [(v ! q AND push_bit sh 0xffffff80) OR push_bit sh 0x80]"
    using lv pq(3) by (simp add: m_def take_Suc_conv_app_nth)
  also have "\<dots> = be_words (take (4 * q) (bytes_of w)) @ [getbe32 (take r p @ [0x80] @ replicate (3 - r) 0)]"
    unfolding vq fix_q bytes_of_take bsw_words [symmetric] words_of_bytes_of ..
  also have "[getbe32 (take r p @ [0x80] @ replicate (3 - r) 0)] = be_words (take r p @ [0x80] @ replicate (3 - r) 0)"
    using lp pq(2) by (subst be_words_step) simp_all
  also have "be_words (take (4 * q) (bytes_of w)) @ be_words (take r p @ [0x80] @ replicate (3 - r) 0)
      = be_words (take (4 * q) (bytes_of w) @ (take r p @ [0x80] @ replicate (3 - r) 0))"
    using len pq(3) by (subst be_words_append) simp_all
  also have "take (4 * q) (bytes_of w) @ (take r p @ [0x80] @ replicate (3 - r) 0)
      = take pos (bytes_of w) @ [0x80] @ replicate (3 - r) 0"
    using pq(2) by (simp add: pq(1) p_def take_add)
  finally show "take (Suc q) (m[q := m ! q OR push_bit sh 0x80])
      = be_words (take pos (bytes_of w) @ [0x80] @ replicate (3 - pos mod 4) 0)"
    by (simp add: r_def)
qed

lemma mark_zeros:
  assumes "take (Suc q) m = be_words bs" "4 dvd length bs"
  shows "take (Suc q) m @ replicate k 0 = be_words (bs @ replicate (4 * k) 0)"
  using be_words_append [OF assms(2)] be_words_zeros [of k "[]"] assms(1) by simp

lemma digest_bytes:
  assumes "length H = 5"
  shows "map (\<lambda>i. ucast (drop_bit (8 * (3 - i mod 4)) (H ! (i div 4)))) [0..<20] = concat (map putbe32 H)"
proof -
  obtain a b c d e where H: "H = [a, b, c, d, e]" using five_list [OF assms] by blast
  have u: "[0..<20] = [0, 1, 2, 3, 4, 5, 6, 7, 8, 9, 10, 11, 12, 13, 14, 15, 16, 17, 18, 19]"
    by (simp add: upt_rec)
  show ?thesis by (simp add: H u putbe32_def nth5)
qed

text \<open>The two length words.\<close>

lemma length_words:
  assumes "n < 2 ^ 32"
  shows "push_bit 3 0 OR drop_bit 29 (of_nat n) = (of_nat (n div 2 ^ 29) :: u32)"
    "push_bit 3 (of_nat n) = (of_nat (8 * n) :: u32)"
proof -
  have n: "unat (of_nat n :: u32) = n" using assms by (rule unat_of_nat_u32)
  have "unat (drop_bit 29 (of_nat n :: u32)) = n div 2 ^ 29"
    by (simp add: drop_bit_eq_div unat_div n)
  then have "of_nat (unat (drop_bit 29 (of_nat n :: u32))) = (of_nat (n div 2 ^ 29) :: u32)" by simp
  then have "drop_bit 29 (of_nat n :: u32) = of_nat (n div 2 ^ 29)" by (simp only: word_of_nat_eq_iff of_nat_unat ucast_id)
  then show "push_bit 3 0 OR drop_bit 29 (of_nat n) = (of_nat (n div 2 ^ 29) :: u32)" by simp
  show "push_bit 3 (of_nat n) = (of_nat (8 * n) :: u32)" by (simp add: push_bit_eq_mult)
qed

lemma last_two:
  assumes "length X = 14" "length Y = 2"
  shows "(X @ Y)[14 := a, 15 := b] = X @ [a, b]"
proof -
  obtain y z where "Y = [y, z]" using assms(2) by (auto simp: numeral_2_eq_2 length_Suc_conv)
  then show ?thesis using assms(1) by (simp add: list_update_append)
qed

lemma blocks_nil: "blocks [] = []" by simp

text \<open>The blocks that the last call compiles.\<close>

lemma tail_blocks:
  assumes M: "take (Suc q) m = be_words (t @ [0x80] @ replicate (3 - r) 0)"
    and m: "length m = 16" and t: "length t = 4 * q + r" "r < 4" "q < 16"
  shows "q < 14 \<Longrightarrow>
      blocks (t @ [0x80] @ replicate (55 - length t) 0 @ putbe32 hi @ putbe32 lo) =
      [(foldl (\<lambda>w j. w[j := 0]) m [q + 1..<14])[14 := hi, 15 := lo]]"
    and "14 \<le> q \<Longrightarrow> length w = 16 \<Longrightarrow>
      blocks (t @ [0x80] @ replicate (119 - length t) 0 @ putbe32 hi @ putbe32 lo) =
      [if q = 14 then m[15 := 0] else m, (foldl (\<lambda>w j. w[j := 0]) w [0..<14])[14 := hi, 15 := lo]]"
proof -
  let ?M = "t @ [0x80] @ replicate (3 - r) 0"
  have d: "4 dvd length ?M"
  proof -
    have "length ?M = 4 * Suc q" using t by simp
    then show ?thesis by (simp only: dvd_triv_left)
  qed
  { assume q: "q < 14"
    let ?z = "?M @ replicate (4 * (13 - q)) 0"
    have z: "t @ [0x80] @ replicate (55 - length t) 0 = ?z"
    proof -
      have "55 - length t = (3 - r) + 4 * (13 - q)" using t q by simp
      then show ?thesis by (simp only: replicate_add append_assoc)
    qed
    have "length ?z = length ?M + 4 * (13 - q)" by simp
    then have dz: "4 dvd length ?z" using dvd_add [OF d dvd_triv_left] by (simp only:)
    have lz: "length (?z @ putbe32 hi @ putbe32 lo) = 64" using t q by simp
    have bz: "be_words (?z @ putbe32 hi @ putbe32 lo) = take (Suc q) m @ replicate (13 - q) 0 @ [hi, lo]"
      using be_words_append [OF dz, of "putbe32 hi @ putbe32 lo"] mark_zeros [OF M d, of "13 - q"] by simp
    have "(foldl (\<lambda>w j. w[j := 0]) m [q + 1..<14])[14 := hi, 15 := lo] =
        ((take (Suc q) m @ replicate (13 - q) 0) @ drop 14 m)[14 := hi, 15 := lo]"
      using zero_pad [of "Suc q" m] q m by simp
    also have "\<dots> = (take (Suc q) m @ replicate (13 - q) 0) @ [hi, lo]"
      using q m by (intro last_two) simp_all
    finally have f: "be_words (?z @ putbe32 hi @ putbe32 lo) =
        (foldl (\<lambda>w j. w[j := 0]) m [q + 1..<14])[14 := hi, 15 := lo]" using bz by simp
    have "t @ [0x80] @ replicate (55 - length t) 0 @ putbe32 hi @ putbe32 lo = ?z @ putbe32 hi @ putbe32 lo"
      using z by (metis append_assoc)
    then show "blocks (t @ [0x80] @ replicate (55 - length t) 0 @ putbe32 hi @ putbe32 lo) =
        [(foldl (\<lambda>w j. w[j := 0]) m [q + 1..<14])[14 := hi, 15 := lo]]"
      using blocks_Cons [OF lz, of "[]"] f by simp }
  { assume q: "14 \<le> q" and w: "length w = 16"
    let ?z = "?M @ replicate (4 * (15 - q)) 0" and ?e = "replicate (4 * 14) 0 @ putbe32 hi @ putbe32 lo"
    have z: "t @ [0x80] @ replicate (119 - length t) 0 = ?z @ replicate (4 * 14) 0"
    proof -
      have "119 - length t = (3 - r) + (4 * (15 - q) + 4 * 14)" using t q by simp
      then show ?thesis by (simp only: replicate_add append_assoc)
    qed
    have lz: "length ?z = 64" "length ?e = 64" using t q by simp_all
    have bz: "be_words ?z = take (Suc q) m @ replicate (15 - q) 0"
      using mark_zeros [OF M d, of "15 - q"] by simp
    have first: "be_words ?z = (if q = 14 then m[15 := 0] else m)"
    proof (cases "q = 14")
      case True
      have "m[15 := 0] = take 15 m @ [0]" using m by (simp add: upd_conv_take_nth_drop)
      then show ?thesis using bz True by simp
    next
      case False
      then have "q = 15" using q t by simp
      then show ?thesis using bz m by simp
    qed
    have be: "be_words ?e = replicate 14 0 @ [hi, lo]" by (simp only: be_words_zeros be_words_put)
    have "(foldl (\<lambda>w j. w[j := 0]) w [0..<14])[14 := hi, 15 := lo] = (replicate 14 0 @ drop 14 w)[14 := hi, 15 := lo]"
      using zero_pad [of 0 w] w by simp
    also have "\<dots> = replicate 14 0 @ [hi, lo]" using w by (intro last_two) simp_all
    finally have second: "be_words ?e = (foldl (\<lambda>w j. w[j := 0]) w [0..<14])[14 := hi, 15 := lo]"
      using be by (simp only:)
    have "t @ [0x80] @ replicate (119 - length t) 0 @ putbe32 hi @ putbe32 lo = ?z @ ?e"
      using z by (metis append_assoc)
    then show "blocks (t @ [0x80] @ replicate (119 - length t) 0 @ putbe32 hi @ putbe32 lo) =
        [if q = 14 then m[15 := 0] else m, (foldl (\<lambda>w j. w[j := 0]) w [0..<14])[14 := hi, 15 := lo]]"
      using blocks_Cons [OF lz(1), of ?e] blocks_Cons [OF lz(2), of "[]"] first second by (simp only: append_Nil2 blocks_nil) }
qed

section \<open>The digest\<close>

text \<open>The standard's digest from the state behind the whole blocks and the padded rest.\<close>

lemma sha1_standard_tail:
  assumes h: "hashed msg ctx"
  defines "n \<equiv> length msg"
  shows "sha1_standard msg = concat (map putbe32 (foldl compress (hash ctx)
      (blocks (drop (n div 64 * 64) msg @ [0x80] @ replicate ((119 - n mod 64) mod 64) 0 @
        putbe32 (push_bit 3 (count1 ctx) OR drop_bit 29 (count0 ctx)) @ putbe32 (push_bit 3 (count0 ctx))))))"
proof -
  let ?t = "drop (n div 64 * 64) msg" and ?f = "take (n div 64 * 64) msg"
  have n: "n < 2 ^ 32" using h by (simp add: hashed_def n_def)
  have hl: "push_bit 3 (count1 ctx) OR drop_bit 29 (count0 ctx) = of_nat (n div 2 ^ 29)"
    "push_bit 3 (count0 ctx) = of_nat (8 * n)"
    using length_words [OF n] h by (simp_all add: hashed_def n_def)
  have lf: "64 dvd length ?f" by (simp add: min_absorb2 n_def)
  have whole: "msg @ padding n = ?f @ (?t @ padding n)" by (simp flip: append_assoc)
  have blks: "blocks (msg @ padding n) = blocks ?f @ blocks (?t @ padding n)"
    unfolding whole by (rule blocks_append [OF lf])
  have "length ?t < 64" by (simp add: minus_div_mult_eq_mod n_def)
  then have "blocks msg = blocks ?f" using blocks_append [OF lf, of ?t] by simp
  then have bm: "foldl compress IV (blocks ?f) = hash ctx" using h by (simp add: hashed_def)
  show ?thesis
    unfolding sha1_standard_def n_def [symmetric] blks foldl_append bm unfolding padding_def hl ..
qed

lemma sha1_end_hashed:
  assumes h: "hashed msg ctx"
  shows "sha1_end ctx = sha1_standard msg"
proof -
  let ?n = "length msg"
  let ?t = "drop (?n div 64 * 64) msg" 
  define pos where "pos = ?n mod 64"
  define q where "q = pos div 4"
  define r where "r = pos mod 4"
  have p: "pos < 64" "pos = 4 * q + r" "r < 4" "q < 16" by (simp_all add: pos_def q_def r_def)
  have n: "?n < 2 ^ 32" using h by (simp add: hashed_def)
  have un: "unat (of_nat ?n :: u32) = ?n" by (rule unat_of_nat_u32 [OF n])
  have i: "unat (count0 ctx AND 63) = pos" using h by (simp add: hashed_def and_63 un pos_def)
  have sh: "unat (NOT (count0 ctx AND 63) AND 3) = 3 - r" by (simp only: not_and_3 i r_def)
  have w: "length (wbuf ctx) = 16" "length (hash ctx) = 5"
    using h length_fold_compress [of IV "blocks msg"] by (simp_all add: hashed_def IV_def)
  have t: "take pos (bytes_of (wbuf ctx)) = ?t" using h by (simp add: hashed_def pos_def)
  have lt: "length ?t = 4 * q + r" using p(2) by (simp add: minus_div_mult_eq_mod pos_def)
  define v where "v = bsw_32 (wbuf ctx) ((pos + 3) div 4)"
  define m1 where "m1 = v[q := v ! q AND push_bit (8 * (3 - r)) 0xffffff80]"
  define m where "m = m1[q := m1 ! q OR push_bit (8 * (3 - r)) 0x80]"
  have M: "take (Suc q) m = be_words (?t @ [0x80] @ replicate (3 - r) 0)" "length m = 16"
    using marked_words [OF w(1) p(1)] t by (simp_all add: m_def m1_def v_def q_def r_def)
  define hi where "hi = push_bit 3 (count1 ctx) OR drop_bit 29 (count0 ctx)"
  define lo where "lo = push_bit 3 (count0 ctx)"
  have std: "sha1_standard msg = concat (map putbe32 (foldl compress (hash ctx)
      (blocks (?t @ [0x80] @ replicate ((119 - pos) mod 64) 0 @ putbe32 hi @ putbe32 lo))))"
    unfolding sha1_standard_tail [OF h] pos_def hi_def lo_def ..
  have last: "sha1_end ctx = map (\<lambda>i. ucast (drop_bit (8 * (3 - i mod 4)) (hash (sha1_compile
      (if 55 < pos
       then let c = sha1_compile (ctx\<lparr>wbuf := if pos < 60 then m[15 := 0] else m\<rparr>)
            in c\<lparr>wbuf := (foldl (\<lambda>w j. w[j := 0]) (wbuf c) [0..<14])[14 := hi, 15 := lo]\<rparr>
       else ctx\<lparr>wbuf := (foldl (\<lambda>w j. w[j := 0]) m [q + 1..<14])[14 := hi, 15 := lo]\<rparr>)) ! (i div 4)))) [0..<20]"
  proof -
    have c: "count0 (sha1_compile (ctx\<lparr>wbuf := x\<rparr>)) = count0 ctx" "count1 (sha1_compile (ctx\<lparr>wbuf := x\<rparr>)) = count1 ctx"
      if "length x = 16" for x using sha1_compile_standard(3,4) [of "ctx\<lparr>wbuf := x\<rparr>"] w that by simp_all
    show ?thesis
      unfolding sha1_end_def Let_def i sh q_def [symmetric] v_def [symmetric] m1_def [symmetric] m_def [symmetric]
      using M(2) by (simp add: SHA1_BLOCK_SIZE_def c hi_def lo_def Let_def)
  qed
  show ?thesis
  proof (cases "55 < pos")
    case False
    let ?l = "(foldl (\<lambda>w j. w[j := 0]) m [q + 1..<14])[14 := hi, 15 := lo]"
    have q: "q < 14" using False p by linarith
    have ll: "length ?l = 16" using zero_pad [of "Suc q" m] q M(2) by simp
    have s: "hash (sha1_compile (ctx\<lparr>wbuf := ?l\<rparr>)) = compress (hash ctx) ?l"
      using sha1_compile_standard(1) [of "ctx\<lparr>wbuf := ?l\<rparr>"] w ll by simp
    have "(119 - pos) mod 64 = 55 - length ?t"
    proof -
      have "119 - pos = (55 - pos) + 64" using False by simp
      then have "(119 - pos) mod 64 = (55 - pos) mod 64" by (simp only: mod_add_self2)
      then show ?thesis using lt p(2) by simp
    qed
    then show ?thesis
      unfolding std last using False tail_blocks(1) [OF M lt p(3,4) q] s
      by (simp add: digest_bytes)
  next
    case True
    have q: "14 \<le> q" using True p by linarith
    let ?m = "if q = 14 then m[15 := 0] else m"
    have e: "(if pos < 60 then m[15 := 0] else m) = ?m" using q p by auto
    let ?c = "sha1_compile (ctx\<lparr>wbuf := ?m\<rparr>)"
    have s1: "hash ?c = compress (hash ctx) ?m" "length (wbuf ?c) = 16"
      using sha1_compile_standard(1,2) [of "ctx\<lparr>wbuf := ?m\<rparr>"] w M(2) by simp_all
    let ?l = "(foldl (\<lambda>w j. w[j := 0]) (wbuf ?c) [0..<14])[14 := hi, 15 := lo]"
    have ll: "length ?l = 16" using zero_pad [of 0 "wbuf ?c"] s1(2) by simp
    have s2: "hash (sha1_compile (?c\<lparr>wbuf := ?l\<rparr>)) = compress (hash ?c) ?l"
      using sha1_compile_standard(1) [of "?c\<lparr>wbuf := ?l\<rparr>"] s1 ll by simp
    have "(119 - pos) mod 64 = 119 - length ?t" using True lt p by simp
    then show ?thesis
      unfolding std last e using True tail_blocks(2) [OF M lt p(3,4) q s1(2)] s1(1) s2
      by (simp only: if_True Let_def foldl_Cons foldl_Nil digest_bytes length_compress)
  qed
qed

section \<open>The checksum of the patch file\<close>

text \<open>The file is read in pieces of \<^verbatim>\<open>0x2000\<close> bytes into one context.\<close>

function hash_pieces :: "u8 list \<Rightarrow> sha1_ctx \<Rightarrow> sha1_ctx option" where
  "hash_pieces bs sha =
     (if bs = [] then Some sha
      else case sha1_hash (take 0x2000 bs) sha of
             None \<Rightarrow> None
           | Some sha \<Rightarrow> hash_pieces (drop 0x2000 bs) sha)"
  by pat_completeness auto
termination by (relation "measure (\<lambda>(bs, sha). length bs)") auto

declare hash_pieces.simps [simp del]

definition file_sha1 :: "u32 list \<Rightarrow> u8 list \<Rightarrow> u8 list option" where
  "file_sha1 w bs = map_option sha1_end (hash_pieces bs (sha1_begin w))"

lemma hash_pieces_hashed:
  assumes "hashed msg sha" "length msg + length bs < 2 ^ 32"
  shows "\<exists>sha'. hash_pieces bs sha = Some sha' \<and> hashed (msg @ bs) sha'"
  using assms
proof (induction bs sha arbitrary: msg rule: hash_pieces.induct)
  case (1 bs sha)
  show ?case
  proof (cases "bs = []")
    case True
    then show ?thesis using 1(2) by (simp add: hash_pieces.simps)
  next
    case False
    let ?a = "take 0x2000 bs" and ?b = "drop 0x2000 bs"
    have ab: "length ?a + length ?b = length bs" by simp
    then have "length msg + length ?a < 2 ^ 32" using 1(3) by linarith
    from sha1_hash_hashed [OF 1(2) this] obtain c where c: "sha1_hash ?a sha = Some c" "hashed (msg @ ?a) c"
      by blast
    have "length (msg @ ?a) + length ?b < 2 ^ 32" using 1(3) ab by (simp only: length_append)
    from 1(1) [OF False c(1) c(2) this] obtain d where "hash_pieces ?b c = Some d" "hashed ((msg @ ?a) @ ?b) d"
      by blast
    moreover have "(msg @ ?a) @ ?b = msg @ bs" by (simp only: append_assoc append_take_drop_id)
    ultimately show ?thesis using False c(1) by (subst hash_pieces.simps) simp
  qed
qed

lemma file_sha1_standard:
  assumes "length w = 16" "length bs < 2 ^ 32"
  shows "file_sha1 w bs = Some (sha1_standard bs)"
  using hash_pieces_hashed [OF hashed_begin [OF assms(1)], of bs] assms(2)
  by (auto simp: file_sha1_def sha1_end_hashed)

lemma length_sha1_standard [simp]: "length (sha1_standard msg) = 20"
proof -
  let ?H = "foldl compress IV (blocks (msg @ padding (length msg)))"
  obtain a b c d e where "?H = [a, b, c, d, e]"
    using five_list [OF length_fold_compress [of IV "blocks (msg @ padding (length msg))"]] by (auto simp: IV_def)
  then show ?thesis by (simp add: sha1_standard_def putbe32_def)
qed

text \<open>
  C23. \<^verbatim>\<open>sha1\<close> returns the SHA-1 digest of every array of less than 4 GiB, whatever its buffer
  held before: the unrolled rounds over a window of sixteen words, the buffering and the
  padding in place compute what the standard defines with an 80-word schedule and a padded message.
\<close>

theorem sha1_is_standard:
  assumes "length w = 16" "length data < 2 ^ 32"
  shows "sha1 w data = Some (sha1_standard data)"
proof -
  obtain ctx where "sha1_hash data (sha1_begin w) = Some ctx" "hashed data ctx"
    using sha1_hash_hashed [OF hashed_begin [OF assms(1)], of data] assms(2) by auto
  then show ?thesis by (simp add: sha1_def sha1_end_hashed)
qed

lemma sha1_is_standard_witness:
  "sha1 (replicate 16 0xdeadbeef) [0x61, 0x62, 0x63] = Some (sha1_standard [0x61, 0x62, 0x63])"
  by (rule sha1_is_standard) simp_all

text \<open>
  C22. The checksum of a patch file verifies: in a file that the tool ends with,
  20 bytes or more below 4 GiB, the
  twenty bytes of the field are the SHA-1 digest of the whole file with that field zeroed,
  although the tool hashes it in pieces into an uninitialised context.
\<close>

theorem salt_checksum_verifies:
  assumes "salt_main (\<lambda>bs. the (file_sha1 w bs)) uninit dirs_ok img proc_elf es = Out f"
    and "length w = 16" "length f + 20 < 2 ^ 32"
    and "\<And>e p. e \<in> set es \<Longrightarrow> fst (snd e) = Some p \<Longrightarrow> round4 (length p) < 2 ^ 32"
  shows "take 20 (drop 12 f) = sha1_standard (take 12 f @ replicate 20 0 @ drop 32 f)"
proof -
  let ?sha = "\<lambda>bs. the (file_sha1 w bs)"
  obtain g where g: "build_entries uninit write_patch_header es = Out g" "f = write_patch_footer_and_hash ?sha g"
    using assms(1) by (auto simp: salt_main_def split: build.splits if_splits option.splits)
  obtain cs where cs: "g = write_patch_header @ chunks_bytes cs"
    using build_entries_chunks [OF g(1)] assms(4) by blast
  let ?r = "chunks_bytes cs @ putbe32 0xFF"
  define h where "h = str ''SALTPTCH'' @ putbe32 PATCHFILE_VERSION"
  have h: "length h = 12" "write_patch_header = h @ replicate 20 0" by (simp_all add: h_def str_def write_patch_header_def)
  have f: "f = h @ ?sha (h @ replicate 20 0 @ ?r) @ ?r"
    by (simp add: g(2) cs write_patch_footer_and_hash_def Let_def h)
  define z where "z = h @ replicate 20 0 @ ?r"
  have "length z \<le> length f + 20" unfolding f z_def by simp
  then have "?sha z = sha1_standard z" using file_sha1_standard [OF assms(2), of z] assms(3) by simp
  then have "f = h @ sha1_standard z @ ?r" using f by (simp add: z_def)
  then show ?thesis using h(1) by (simp add: z_def)
qed

theorem salt_checksum_verifies_witness:
  "\<exists>f. salt_main (\<lambda>bs. the (file_sha1 (replicate 16 7) bs)) 0 True
     (Some (replicate 0x82E 0 @ [0, 0x20, 0, 2])) (Some []) [(''.DS_Store'', None, None)] = Out f \<and>
   take 20 (drop 12 f) = sha1_standard (take 12 f @ replicate 20 0 @ drop 32 f)"
proof -
  let ?h = "str ''SALTPTCH'' @ putbe32 PATCHFILE_VERSION @ replicate 20 0 @ putbe32 0xFF"
  have e: "build_entries 0 write_patch_header [(''.DS_Store'', None, None)] = Out write_patch_header"
    by (simp add: build_entry_def)
  have l: "length ?h = 36" by (simp add: str_def)
  then have sha: "the (file_sha1 (replicate 16 7) ?h) = sha1_standard ?h"
    by (subst file_sha1_standard) simp_all
  have m: "salt_main (\<lambda>bs. the (file_sha1 (replicate 16 7) bs)) 0 True
     (Some (replicate 0x82E 0 @ [0, 0x20, 0, 2])) (Some []) [(''.DS_Store'', None, None)] =
     Out (take 12 ?h @ sha1_standard ?h @ drop 32 ?h)"
    unfolding salt_main_def e using demo_phdrs sha
    by (simp add: write_patch_footer_and_hash_def write_patch_header_def)
  have "length (take 12 ?h @ sha1_standard ?h @ drop 32 ?h) + 20 < 2 ^ 32" using l by (simp add: str_def)
  from salt_checksum_verifies [OF m _ this] m show ?thesis by auto
qed

end
