(* ===== verification/Wupserver.thy ===== *)
theory Wupserver
  imports Socket
begin

text \<open>
  The server plugin (\<^verbatim>\<open>wafel_plugin_wupserver/source/wupserver.c\<close>): the commands a client sends
  over a connection, and the loops around them.  It calls the socket library of the loader, so
  the state is that of \<^verbatim>\<open>Socket\<close> and the flag \<^verbatim>\<open>serverKilled\<close>.  A loop that does not end, a
  copy of a negative length, or a \<^verbatim>\<open>memcpy\<close> between regions that overlap is \<open>None\<close>.
\<close>

section \<open>Pauses (\<^verbatim>\<open>ios/thread.c\<close>)\<close>

text \<open>The kernel calls a pause makes, with the handles the kernel returns.\<close>

datatype pause_call =
    CreateMessageQueue u32
  | CreateTimer u32 u32 u32 u32
  | ReceiveMessage u32 u32
  | DestroyTimer u32
  | DestroyMessageQueue u32

definition usleep :: "u32 \<Rightarrow> (u32 \<Rightarrow> u32) \<Rightarrow> u32 \<Rightarrow> pause_call list \<times> u32" where
  "usleep queue timer amt =
     (if 0 \<le> sint queue
      then let qh = queue; th = timer amt
           in if sint th < 0
              then ([CreateMessageQueue 1, CreateTimer amt 0 qh 0xBABECAFE, DestroyMessageQueue qh], th)
              else ([CreateMessageQueue 1, CreateTimer amt 0 qh 0xBABECAFE, ReceiveMessage qh 0, DestroyTimer th,
                     DestroyMessageQueue qh], 0)
      else ([CreateMessageQueue 1], queue))"

definition msleep :: "u32 \<Rightarrow> (u32 \<Rightarrow> u32) \<Rightarrow> u32 \<Rightarrow> pause_call list \<times> u32" where
  "msleep queue timer amt = usleep queue timer (amt * 1000)"

section \<open>Commands\<close>

text \<open>
  What the plugin calls beside the loader's sockets: the entry of a system call, and memory
  after the data cache was invalidated and the thread has slept, when other processors and
  threads have run.
\<close>

record wup_env =
  wnet :: service_env
  svc_entry :: "u32 \<Rightarrow> u32 list \<Rightarrow> mem \<Rightarrow> mem \<times> u32"
  paused :: "mem \<Rightarrow> mem"

record wup_state =
  net :: socket_state
  serverKilled :: bool

definition wmem :: "wup_state \<Rightarrow> mem" where "wmem st = smem (srv (net st))"

definition with_mem :: "mem \<Rightarrow> wup_state \<Rightarrow> wup_state" where
  "with_mem m st = st\<lparr>net := (net st)\<lparr>srv := (srv (net st))\<lparr>smem := m\<rparr>\<rparr>\<rparr>"

definition MCP_SVC_BASE :: u32 where "MCP_SVC_BASE = 0x050567ec"

definition command_word :: "mem \<Rightarrow> u32 \<Rightarrow> nat \<Rightarrow> u32" where
  "command_word m command_buffer i = read32 m (command_buffer + of_nat (4 * i))"

text \<open>The loops of the transfers; the result of a call is added to an unsigned offset.\<close>

partial_function (option) recv_all ::
  "service_env \<Rightarrow> u32 \<Rightarrow> u32 \<Rightarrow> u32 \<Rightarrow> u32 \<Rightarrow> socket_state \<Rightarrow> socket_state option" where
  "recv_all env sock dst len off s =
     (if off < len
      then let (s, r) = recv env sock (dst + off) (len - off) 0 s in recv_all env sock dst len (off + r) s
      else Some s)"

partial_function (option) send_all ::
  "service_env \<Rightarrow> u32 \<Rightarrow> u32 \<Rightarrow> u32 \<Rightarrow> u32 \<Rightarrow> socket_state \<Rightarrow> socket_state option" where
  "send_all env sock src len off s =
     (if off < len
      then let (s, r) = send env sock (src + off) (len - off) 0 s in send_all env sock src len (off + r) s
      else Some s)"

text \<open>Eight argument words: the first \<open>n\<close> bytes are those at \<open>a\<close>, the others are zero.\<close>

definition svc_arguments :: "mem \<Rightarrow> u32 \<Rightarrow> nat \<Rightarrow> u32 list" where
  "svc_arguments m a n =
     map (\<lambda>i. read32 (\<lambda>x. if unat x < n then m (a + x) else 0) (of_nat (4 * i))) [0..<8]"

text \<open>\<open>n\<close> rounds are left; \<open>old\<close> is the value that has not changed yet.\<close>

fun repeat_write :: "wup_env \<Rightarrow> u32 \<Rightarrow> u32 \<Rightarrow> nat \<Rightarrow> u32 \<Rightarrow> mem \<Rightarrow> mem" where
  "repeat_write env dst value 0 old m = m"
| "repeat_write env dst value (Suc n) old m =
     (if read32 m dst \<noteq> old
      then if read32 m dst = 0 then repeat_write env dst value n (read32 m dst) m else write32 m dst value
      else repeat_write env dst value n old (paused env m))"

text \<open>One command; an \<open>int\<close> result is the word it is.\<close>

definition serverCommandHandler ::
  "wup_env \<Rightarrow> u32 \<Rightarrow> u32 \<Rightarrow> u32 \<Rightarrow> wup_state \<Rightarrow> (wup_state \<times> u32) option" where
  "serverCommandHandler env command_buffer len sock st =
     (if command_buffer = 0 \<or> len = 0 then Some (st, - 1)
      else
        let w = command_word (wmem st) command_buffer; m = wmem st;
            ok = (\<lambda>st n. Some (with_mem (write32 (wmem st) command_buffer 0) st, n))
        in if w 0 = 0
           then do { s \<leftarrow> recv_all (wnet env) sock (w 1) (w 2) 0 (net st); ok (st\<lparr>net := s\<rparr>) 4 }
           else if w 0 = 1
           then do { s \<leftarrow> send_all (wnet env) sock (w 1) (w 2) 0 (net st); ok (st\<lparr>net := s\<rparr>) 4 }
           else if w 0 = 2
           then let size_arguments = sint (len - 8)
                in if size_arguments < 0 then None
                   else let (m, r) = svc_entry env (MCP_SVC_BASE + w 1 * 8)
                              (svc_arguments m (command_buffer + 8) (nat (min size_arguments 32))) m
                        in ok (with_mem (write32 m (command_buffer + 4) r) st) 8
           else if w 0 = 3 then ok (st\<lparr>serverKilled := True\<rparr>) 4
           else if w 0 = 4
           then if disjoint_regions (w 1) (unat (w 3)) (w 2) (unat (w 3))
                then ok (with_mem (memmove m (w 1) (w 2) (unat (w 3))) st) 4 else None
           else if w 0 = 5
           then ok (with_mem (repeat_write env (w 1) (w 2) (unat (w 3)) (read32 m (w 1)) m) st) 4
           else Some (st, - 2))"

section \<open>Connections\<close>

text \<open>
  The buffer of the commands and the variable \<^verbatim>\<open>ret\<close> are on the stack, at \<open>command_buffer\<close> and
  \<open>ret_addr\<close>.
\<close>

definition serverReply :: "wup_env \<Rightarrow> u32 \<Rightarrow> u32 \<Rightarrow> u32 \<Rightarrow> u32 \<Rightarrow> wup_state \<Rightarrow> wup_state" where
  "serverReply env command_buffer ret_addr sock ret st =
     (if 0 < sint ret then st\<lparr>net := fst (send (wnet env) sock command_buffer ret 0 (net st))\<rparr>
      else if sint ret < 0
      then let st = with_mem (write32 (wmem st) ret_addr ret) st
           in st\<lparr>net := fst (send (wnet env) sock ret_addr 4 0 (net st))\<rparr>
      else st)"

partial_function (option) client_loop ::
  "wup_env \<Rightarrow> u32 \<Rightarrow> u32 \<Rightarrow> u32 \<Rightarrow> wup_state \<Rightarrow> wup_state option" where
  "client_loop env command_buffer ret_addr sock st =
     (if serverKilled st then Some st
      else let (s, ret) = recv (wnet env) sock command_buffer 0x600 0 (net st); st = st\<lparr>net := s\<rparr>
           in if sint ret \<le> 0 then Some st
              else do { (st, ret) \<leftarrow> serverCommandHandler env command_buffer ret sock st;
                        client_loop env command_buffer ret_addr sock
                          (serverReply env command_buffer ret_addr sock ret st) })"

definition serverClientHandler ::
  "wup_env \<Rightarrow> u32 \<Rightarrow> u32 \<Rightarrow> u32 \<Rightarrow> wup_state \<Rightarrow> wup_state option" where
  "serverClientHandler env command_buffer ret_addr sock st =
     do { st \<leftarrow> client_loop env command_buffer ret_addr sock st;
          Some (st\<lparr>net := fst (closesocket (wnet env) sock (net st))\<rparr>) }"

definition AF_INET :: u16 where "AF_INET = 2"
definition SOCK_STREAM :: u32 where "SOCK_STREAM = 1"
definition IPPROTO_TCP :: u32 where "IPPROTO_TCP = 6"

text \<open>\<^verbatim>\<open>struct sockaddr_in\<close>: family, port and address, then eight bytes of padding.\<close>

definition server_addr :: "u32 \<Rightarrow> mem \<Rightarrow> mem" where
  "server_addr server m =
     write32 (write16 (write16 (memset m server 0 16) server AF_INET) (server + 2) 1337) (server + 4) 0"

partial_function (option) listen_loop ::
  "wup_env \<Rightarrow> u32 \<Rightarrow> u32 \<Rightarrow> u32 \<Rightarrow> wup_state \<Rightarrow> wup_state option" where
  "listen_loop env command_buffer ret_addr sock st =
     (if serverKilled st then Some st
      else let (s, ret) = listen (wnet env) sock 1 (net st); st = st\<lparr>net := s\<rparr>
           in if 0 \<le> sint ret
              then let (s, csock) = accept (wnet env) sock 0 0 (net st)
                   in do { st \<leftarrow> serverClientHandler env command_buffer ret_addr csock (st\<lparr>net := s\<rparr>);
                           listen_loop env command_buffer ret_addr sock st }
              else listen_loop env command_buffer ret_addr sock (with_mem (paused env (wmem st)) st))"

text \<open>The server address is at \<open>server\<close> on the stack.\<close>

definition serverListenClients :: "wup_env \<Rightarrow> u32 \<Rightarrow> u32 \<Rightarrow> u32 \<Rightarrow> wup_state \<Rightarrow> wup_state option" where
  "serverListenClients env server command_buffer ret_addr st =
     (let st = st\<lparr>serverKilled := False\<rparr>;
          (s, sock) = socket (wnet env) (ucast AF_INET) SOCK_STREAM IPPROTO_TCP (net st);
          st = with_mem (server_addr server (smem (srv s))) (st\<lparr>net := s\<rparr>);
          (s, ret) = sock_bind (wnet env) sock server 16 (net st)
      in listen_loop env command_buffer ret_addr sock (st\<lparr>net := s\<rparr>))"

section \<open>Heap blocks\<close>

text \<open>No call keeps a block: the list of live blocks is the same after a command and a session.\<close>

abbreviation blocks_of :: "wup_state \<Rightarrow> u32 list" where
  "blocks_of st \<equiv> live (srv (net st))"

lemma with_mem_simps [simp]:
  "wmem (with_mem m st) = m" "blocks_of (with_mem m st) = blocks_of st"
  "serverKilled (with_mem m st) = serverKilled st"
  by (simp_all add: with_mem_def wmem_def)

lemma recv_all_live:
  assumes "recv_all env sock dst len off s = Some s'"
  shows "live (srv s') = live (srv s)"
proof (rule recv_all.raw_induct [OF _ assms], goal_cases)
  case (1 f env sock dst len off s s')
  obtain s1 r where e: "recv env sock (dst + off) (len - off) 0 s = (s1, r)" by force
  then have "live (srv s1) = live (srv s)" by (metis recv_live fst_conv)
  then show ?case using 1 e by (auto split: if_splits)
qed

lemma send_all_live:
  assumes "send_all env sock src len off s = Some s'"
  shows "live (srv s') = live (srv s)"
proof (rule send_all.raw_induct [OF _ assms], goal_cases)
  case (1 f env sock src len off s s')
  obtain s1 r where e: "send env sock (src + off) (len - off) 0 s = (s1, r)" by force
  then have "live (srv s1) = live (srv s)" by (metis send_live fst_conv)
  then show ?case using 1 e by (auto split: if_splits)
qed

lemma small_command: "w = 0 \<or> w = 1 \<or> w = 2 \<or> w = 3 \<or> w = 4 \<or> w = 5 \<or> 5 < w" for w :: u32
proof (cases "5 < w")
  case False
  then have "unat w \<le> 5" by (simp add: word_less_nat_alt not_less)
  then have "unat w \<in> {0, 1, 2, 3, 4, 5}" by auto
  moreover have "w = of_nat (unat w)" by simp
  ultimately have "w \<in> {of_nat 0, of_nat 1, of_nat 2, of_nat 3, of_nat 4, of_nat 5}"
    by (elim insertE) (simp_all only: insert_iff simp_thms, blast?)
  then show ?thesis by auto
qed simp

text \<open>The outcomes of the handler: no command, an unknown one, and an answer.\<close>

lemma command_cases:
  assumes "serverCommandHandler env cb len sock st = Some (st', r)"
  obtains (invalid) "cb = 0 \<or> len = 0" "r = - 1" "st' = st"
  | (unknown) "5 < command_word (wmem st) cb 0" "r = - 2" "st' = st"
  | (answered) st1 where "command_word (wmem st) cb 0 \<le> 5" "r = (if command_word (wmem st) cb 0 = 2 then 8 else 4)"
      "st' = with_mem (write32 (wmem st1) cb 0) st1" "blocks_of st1 = blocks_of st"
      "serverKilled st1 \<longleftrightarrow> serverKilled st \<or> command_word (wmem st) cb 0 = 3"
proof (cases "cb = 0 \<or> len = 0")
  case True
  then show ?thesis using assms invalid by (simp add: serverCommandHandler_def)
next
  case False
  let ?w = "command_word (wmem st) cb 0"
  note run = assms [unfolded serverCommandHandler_def if_not_P [OF False] Let_def]
  consider "?w = 0" | "?w = 1" | "?w = 2" | "?w = 3" | "?w = 4" | "?w = 5" | "5 < ?w"
    using small_command [of ?w] by blast
  then show ?thesis
  proof cases
    case 1
    with run obtain s where "recv_all (wnet env) sock (command_word (wmem st) cb 1) (command_word (wmem st) cb 2) 0 (net st) = Some s"
        "st' = with_mem (write32 (wmem (st\<lparr>net := s\<rparr>)) cb 0) (st\<lparr>net := s\<rparr>)" "r = 4"
      by (auto simp: bind_eq_Some_conv)
    then show ?thesis using 1 by (intro answered [of "st\<lparr>net := s\<rparr>"]) (simp_all add: recv_all_live)
  next
    case 2
    with run obtain s where "send_all (wnet env) sock (command_word (wmem st) cb 1) (command_word (wmem st) cb 2) 0 (net st) = Some s"
        "st' = with_mem (write32 (wmem (st\<lparr>net := s\<rparr>)) cb 0) (st\<lparr>net := s\<rparr>)" "r = 4"
      by (auto simp: bind_eq_Some_conv)
    then show ?thesis using 2 by (intro answered [of "st\<lparr>net := s\<rparr>"]) (simp_all add: send_all_live)
  next
    case 3
    with run obtain m where "st' = with_mem (write32 (wmem (with_mem m st)) cb 0) (with_mem m st)" "r = 8"
      by (auto split: if_splits prod.splits)
    then show ?thesis using 3 by (intro answered [of "with_mem m st"]) simp_all
  next
    case 4
    then show ?thesis using run by (intro answered [of "st\<lparr>serverKilled := True\<rparr>"]) simp_all
  next
    case 5
    have run5: "disjoint_regions (command_word (wmem st) cb 1) (unat (command_word (wmem st) cb 3))
        (command_word (wmem st) cb 2) (unat (command_word (wmem st) cb 3))"
      using run 5 by (simp split: if_splits)
    let ?m = "memmove (wmem st) (command_word (wmem st) cb 1) (command_word (wmem st) cb 2)
      (unat (command_word (wmem st) cb 3))"
    show ?thesis using run run5 5 by (intro answered [of "with_mem ?m st"]) simp_all
  next
    case 6
    let ?m = "repeat_write env (command_word (wmem st) cb 1) (command_word (wmem st) cb 2)
      (unat (command_word (wmem st) cb 3)) (read32 (wmem st) (command_word (wmem st) cb 1)) (wmem st)"
    show ?thesis using run 6 by (intro answered [of "with_mem ?m st"]) simp_all
  next
    case 7
    then have "?w \<noteq> 0" "?w \<noteq> 1" "?w \<noteq> 2" "?w \<noteq> 3" "?w \<noteq> 4" "?w \<noteq> 5" by auto
    then show ?thesis using run 7 by (intro unknown) simp_all
  qed
qed

text \<open>Sessions.\<close>

lemma serverReply_state [simp]:
  "blocks_of (serverReply env cb ret_addr sock ret st) = blocks_of st"
  "serverKilled (serverReply env cb ret_addr sock ret st) = serverKilled st"
  by (simp_all add: serverReply_def Let_def)

lemma client_loop_live:
  assumes "client_loop env cb ra sock st = Some st'"
  shows "blocks_of st' = blocks_of st"
proof (rule client_loop.raw_induct [OF _ assms], goal_cases)
  case (1 f env cb ra sock st st')
  show ?case
  proof (cases "serverKilled st")
    case False
    obtain s r where e: "recv (wnet env) sock cb 0x600 0 (net st) = (s, r)" by force
    then have l: "live (srv s) = blocks_of st" by (metis recv_live fst_conv)
    show ?thesis
    proof (cases "sint r \<le> 0")
      case True
      then have "st' = st\<lparr>net := s\<rparr>" using 1(2) False by (simp add: e)
      then show ?thesis using l by simp
    next
      case pos: False
      then obtain st1 r1 where h: "serverCommandHandler env cb r sock (st\<lparr>net := s\<rparr>) = Some (st1, r1)"
          "f env cb ra sock (serverReply env cb ra sock r1 st1) = Some st'"
        using 1(2) False by (auto simp: e bind_eq_Some_conv)
      have "blocks_of st1 = blocks_of (st\<lparr>net := s\<rparr>)" by (rule command_cases [OF h(1)]) simp_all
      then show ?thesis using 1(1) [OF h(2)] l by simp
    qed
  qed (use 1(2) in simp)
qed

lemma calls_live:
  "live (srv (fst (closesocket env sock s))) = live (srv s)"
  "live (srv (fst (listen env sock n s))) = live (srv s)"
  "live (srv (fst (accept env sock a b s))) = live (srv s)"
  "live (srv (fst (socket env x y z s))) = live (srv s)"
  "live (srv (fst (sock_bind env sock a b s))) = live (srv s)"
  by (simp_all add: closesocket_def listen_def accept_def socket_def sock_bind_def addr_call_def)

lemma listen_loop_end:
  assumes "listen_loop env cb ra sock st = Some st'"
  shows "blocks_of st' = blocks_of st \<and> serverKilled st'"
proof (rule listen_loop.raw_induct [OF _ assms], goal_cases)
  case (1 f env cb ra sock st st')
  show ?case
  proof (cases "serverKilled st")
    case False
    obtain s r where e: "listen (wnet env) sock 1 (net st) = (s, r)" by force
    then have l: "live (srv s) = blocks_of st" by (metis calls_live(2) fst_conv)
    show ?thesis
    proof (cases "0 \<le> sint r")
      case True
      obtain s2 cs where a: "accept (wnet env) sock 0 0 s = (s2, cs)" by force
      then have l2: "live (srv s2) = live (srv s)" by (metis calls_live(3) fst_conv)
      obtain st1 where h: "client_loop env cb ra cs (st\<lparr>net := s2\<rparr>) = Some st1"
          "f env cb ra sock (st1\<lparr>net := fst (closesocket (wnet env) cs (net st1))\<rparr>) = Some st'"
        using 1(2) False True by (auto simp: e a bind_eq_Some_conv serverClientHandler_def)
      then show ?thesis using 1(1) [OF h(2)] client_loop_live [OF h(1)] l l2 by (simp add: calls_live)
    next
      case neg: False
      then have "f env cb ra sock (with_mem (paused env (smem (srv s))) (st\<lparr>net := s\<rparr>)) = Some st'"
        using 1(2) False by (simp add: e wmem_def)
      from 1(1) [OF this] show ?thesis using l by simp
    qed
  qed (use 1(2) in simp)
qed

section \<open>Commands that arrive\<close>

text \<open>
  The stream of a write command: each call of \<^verbatim>\<open>recv\<close> delivers one of the pieces \<open>cs\<close>, and
  leaves alone what has arrived at \<open>start\<close> before.
\<close>

fun feeds :: "service_env \<Rightarrow> u32 \<Rightarrow> u32 \<Rightarrow> nat \<Rightarrow> nat \<Rightarrow> u8 list list \<Rightarrow> socket_state \<Rightarrow> bool" where
  "feeds env sock start got left [] s \<longleftrightarrow> left = 0"
| "feeds env sock start got left (c # cs) s \<longleftrightarrow>
     c \<noteq> [] \<and> length c \<le> left \<and>
     (case recv env sock (start + of_nat got) (of_nat left) 0 s of (s', r) \<Rightarrow>
        r = of_nat (length c) \<and>
        load_bytes (smem (srv s')) (start + of_nat got) (length c) = c \<and>
        load_bytes (smem (srv s')) start got = load_bytes (smem (srv s)) start got \<and>
        feeds env sock start (got + length c) (left - length c) cs s')"

lemma load_bytes_append: "load_bytes m a (n + k) = load_bytes m a n @ load_bytes m (a + of_nat n) k"
proof (rule nth_equalityI)
  fix i assume i: "i < length (load_bytes m a (n + k))"
  show "load_bytes m a (n + k) ! i = (load_bytes m a n @ load_bytes m (a + of_nat n) k) ! i"
  proof (cases "i < n")
    case False
    then obtain d where d: "i = n + d" by (auto simp: not_less le_iff_add)
    then show ?thesis using i by (simp add: nth_append add.assoc)
  qed (use i in \<open>simp add: nth_append\<close>)
qed simp

lemma recv_all_feeds:
  assumes "feeds env sock start got left cs s" "got + left < 2 ^ 32"
  shows "\<exists>s'. recv_all env sock start (of_nat (got + left)) (of_nat got) s = Some s' \<and>
    load_bytes (smem (srv s')) start (got + left) = load_bytes (smem (srv s)) start got @ concat cs"
  using assms
proof (induction cs arbitrary: got left s)
  case Nil
  then show ?case by (subst recv_all.simps) simp
next
  case (Cons c cs)
  let ?k = "length c"
  obtain s1 r where e: "recv env sock (start + of_nat got) (of_nat left) 0 s = (s1, r)" by force
  have k: "0 < ?k" "?k \<le> left" and r: "r = of_nat ?k"
    and m: "load_bytes (smem (srv s1)) (start + of_nat got) ?k = c"
      "load_bytes (smem (srv s1)) start got = load_bytes (smem (srv s)) start got"
    and f: "feeds env sock start (got + ?k) (left - ?k) cs s1"
    using Cons.prems(1) by (auto simp: e)
  have sum: "got + ?k + (left - ?k) = got + left" using k by simp
  from Cons.IH [OF f] obtain s' where
      s': "recv_all env sock start (of_nat (got + left)) (of_nat (got + ?k)) s1 = Some s'"
      "load_bytes (smem (srv s')) start (got + left) = load_bytes (smem (srv s1)) start (got + ?k) @ concat cs"
    unfolding sum using Cons.prems(2) by blast
  have "0 < left" using k by (rule less_le_trans)
  then have lt: "(of_nat got :: u32) < of_nat (got + left)"
    using Cons.prems(2) by (simp add: word_less_nat_alt unat_of_nat_u32 del: of_nat_add)
  have d: "of_nat (got + left) - of_nat got = (of_nat left :: u32)" by simp
  have "recv_all env sock start (of_nat (got + left)) (of_nat got) s = Some s'"
    using lt e s'(1) r by (subst recv_all.simps) (simp add: d del: of_nat_add, simp)
  moreover have "load_bytes (smem (srv s1)) start (got + ?k) = load_bytes (smem (srv s)) start got @ c"
    using m by (simp add: load_bytes_append)
  ultimately show ?case using s'(2) by simp
qed

lemma kill_stops:
  assumes "recv (wnet env) sock cb 0x600 0 (net st) = (s, ret)" "0 < sint ret" "cb \<noteq> 0"
    and "command_word (smem (srv s)) cb 0 = 3"
  shows "\<exists>st'. serverClientHandler env cb ra sock st = Some st' \<and>
    serverKilled st' \<and> listen_loop env cb ra lsock st' = Some st'"
proof (cases "serverKilled st")
  case True
  then show ?thesis
    by (auto simp: serverClientHandler_def client_loop.simps [of env cb ra sock st] listen_loop.simps)
next
  case False
  let ?s = "st\<lparr>net := s\<rparr>"
  have "ret \<noteq> 0" using assms(2) by auto
  then obtain st1 where h: "serverCommandHandler env cb ret sock ?s = Some (st1, 4)" "serverKilled st1"
    using assms(3,4) by (simp add: serverCommandHandler_def Let_def wmem_def)
  let ?r = "serverReply env cb ra sock 4 st1"
  have "client_loop env cb ra sock st = client_loop env cb ra sock ?r"
    using assms(1,2) False h(1) by (subst client_loop.simps) simp
  also have "\<dots> = Some ?r" using h(2) by (subst client_loop.simps) simp
  finally show ?thesis using h(2) by (simp add: serverClientHandler_def listen_loop.simps)
qed

section \<open>Errors of a transfer\<close>

text \<open>A pause gives back its queue and its timer on every path.\<close>

lemma usleep_releases:
  "0 \<le> sint queue \<Longrightarrow> DestroyMessageQueue queue \<in> set (fst (usleep queue timer amt))"
  "0 \<le> sint queue \<Longrightarrow> 0 \<le> sint (timer amt) \<Longrightarrow> DestroyTimer (timer amt) \<in> set (fst (usleep queue timer amt))"
  "sint queue < 0 \<Longrightarrow> usleep queue timer amt = ([CreateMessageQueue 1], queue)"
  by (auto simp: usleep_def Let_def)

text \<open>When the client closes the connection within a write command, the loop never ends.\<close>

lemma recv_closed_hangs:
  assumes closed: "\<And>dst n s. snd (recv env sock dst n 0 s) = 0" and "0 < len"
  shows "recv_all env sock dst len 0 s = None"
proof -
  have "False" if "recv_all env sock dst len off s = Some s'" "off = 0" for s s' off
  proof -
    have "off = 0 \<longrightarrow> 0 < len \<longrightarrow> (\<forall>dst n s. snd (recv env sock dst n 0 s) = 0) \<longrightarrow> False"
    proof (rule recv_all.raw_induct [OF _ that(1)], goal_cases)
      case (1 f env sock dst len off s s')
      show ?case
      proof (intro impI)
        assume a: "off = 0" "0 < len" "\<forall>dst n s. snd (recv env sock dst n 0 s) = 0"
        obtain s1 r where e: "recv env sock (dst + off) (len - off) 0 s = (s1, r)" by force
        then have "r = 0" using a(3) by (metis snd_conv)
        then have "f env sock dst len 0 s1 = Some s'" using 1(2) a(1,2) e by simp
        from 1(1) [OF this] a(2,3) show False by blast
      qed
    qed
    then show False using that(2) assms by blast
  qed
  then show ?thesis by (cases "recv_all env sock dst len 0 s") auto
qed

text \<open>An error of the socket makes the unsigned offset large: the loop ends, as if all had arrived.\<close>

lemma recv_error_ends:
  assumes "recv env sock dst len 0 s = (s1, - 1)" "0 < len"
  shows "recv_all env sock dst len 0 s = Some s1"
proof -
  have "\<not> - 1 < len" by (simp add: not_less)
  then show ?thesis
    using assms by (subst recv_all.simps, simp) (subst recv_all.simps, simp)
qed

section \<open>Properties\<close>

text \<open>
  C27. Every answer is well formed.  The handler refuses a missing buffer or an empty command
  with \<open>-1\<close> and an unknown command with \<open>-2\<close>, and then changes nothing; any other answer has
  four bytes, or eight for a system call, and begins with the word zero.  Only command 3 sets
  \<^verbatim>\<open>serverKilled\<close>.
\<close>

theorem wup_reply:
  assumes "serverCommandHandler env cb len sock st = Some (st', r)"
  shows "(if cb = 0 \<or> len = 0 then r = - 1 \<and> st' = st
    else if 5 < command_word (wmem st) cb 0 then r = - 2 \<and> st' = st
    else r = (if command_word (wmem st) cb 0 = 2 then 8 else 4) \<and> read32 (wmem st') cb = 0 \<and>
      blocks_of st' = blocks_of st \<and>
      (serverKilled st' \<longleftrightarrow> serverKilled st \<or> command_word (wmem st) cb 0 = 3))"
proof (cases "cb = 0 \<or> len = 0")
  case True
  then show ?thesis using assms by (simp add: serverCommandHandler_def)
next
  case False
  then show ?thesis using assms by (cases rule: command_cases [OF assms]) (auto simp: serverCommandHandler_def)
qed

theorem wup_reply_witness:
  "\<exists>st' r. serverCommandHandler \<lparr> wnet = demo_net, svc_entry = (\<lambda>_ _ m. (m, 0)), paused = (\<lambda>m. m) \<rparr> 0x500 4 5
      \<lparr> net = demo_net_state\<lparr>srv := (srv demo_net_state)\<lparr>smem := write32 (\<lambda>_. 0) 0x500 3\<rparr>\<rparr>, serverKilled = False \<rparr> =
    Some (st', r) \<and> r = 4 \<and> serverKilled st'"
proof -
  let ?env = "\<lparr> wnet = demo_net, svc_entry = (\<lambda>_ _ m. (m, 0)), paused = (\<lambda>m. m) \<rparr>"
  let ?st = "\<lparr> net = demo_net_state\<lparr>srv := (srv demo_net_state)\<lparr>smem := write32 (\<lambda>_. 0) 0x500 3\<rparr>\<rparr>, serverKilled = False \<rparr>"
  have w: "command_word (wmem ?st) 0x500 0 = 3" by (simp add: command_word_def wmem_def)
  then obtain st' r where "serverCommandHandler ?env 0x500 4 5 ?st = Some (st', r)"
    by (simp add: serverCommandHandler_def Let_def)
  with wup_reply [OF this] w show ?thesis by (auto simp: word_less_nat_alt)
qed

text \<open>
  C26. A write command stores what the client sends after it: the pieces that later calls of
  \<^verbatim>\<open>recv\<close> deliver.  When they add up to the announced length and the answer word lies outside of
  the target, the command ends, reports success, and the target holds those bytes, in whatever
  pieces they arrive.  How many bytes arrived together with the command plays no part, so what
  follows its three words there is dropped.
\<close>

theorem wup_write_stores:
  assumes "cb \<noteq> 0" and w: "command_word (wmem st) cb 0 = 0"
    and f: "feeds (wnet env) sock (command_word (wmem st) cb 1) 0 (unat (command_word (wmem st) cb 2)) cs (net st)"
    and apart: "disjoint_regions cb 4 (command_word (wmem st) cb 1) (unat (command_word (wmem st) cb 2))"
  shows "\<exists>st'. (\<forall>k. k \<noteq> 0 \<longrightarrow> serverCommandHandler env cb k sock st = Some (st', 4)) \<and>
    load_bytes (wmem st') (command_word (wmem st) cb 1) (unat (command_word (wmem st) cb 2)) = concat cs"
proof -
  let ?d = "command_word (wmem st) cb 1" and ?n = "command_word (wmem st) cb 2"
  have "0 + unat ?n < 2 ^ 32" using unat_u32_less [of ?n] by simp
  from recv_all_feeds [OF f this] obtain s where
      s: "recv_all (wnet env) sock ?d ?n 0 (net st) = Some s" "load_bytes (smem (srv s)) ?d (unat ?n) = concat cs"
    by (auto simp: load_bytes_def)
  have "serverCommandHandler env cb k sock st =
      Some (with_mem (write32 (smem (srv s)) cb 0) (st\<lparr>net := s\<rparr>), 4)" if "k \<noteq> 0" for k
    using assms(1) that s(1) w by (simp add: serverCommandHandler_def Let_def wmem_def)
  moreover have "load_bytes (write32 (smem (srv s)) cb 0) ?d (unat ?n) = load_bytes (smem (srv s)) ?d (unat ?n)"
    using disjoint_regionsD [OF apart [unfolded disjoint_sym [of cb]]] by (intro load_bytes_cong write32_other)
  ultimately show ?thesis
    using s(2) by (intro exI [of _ "with_mem (write32 (smem (srv s)) cb 0) (st\<lparr>net := s\<rparr>)"]) simp
qed

definition demo_wup :: wup_env where
  "demo_wup = \<lparr> wnet = demo_net, svc_entry = (\<lambda>_ _ m. (m, 0)), paused = (\<lambda>m. m) \<rparr>"

lemma recv_demo:
  assumes "len \<noteq> 0" "buf \<noteq> 0"
  shows "\<exists>s'. recv demo_net sock buf len 0 s = (s', 2) \<and> load_bytes (smem (srv s')) buf 2 = [104, 105]"
proof -
  have bytes: "load_bytes (store_bytes m 0x20000000 [104, 105]) 0x20000000 2 = [104, 105]" for m
    using load_store_bytes [of "[104, 105]" m "0x20000000"] by (simp flip: numeral_2_eq_2)
  have move: "load_bytes (memmove m buf 0x20000000 2) buf 2 = load_bytes m 0x20000000 2" for m
    by (rule load_memmove) simp
  show ?thesis
    using assms
    by (simp add: recv_def iosAllocAligned_def sock_allocIobuf_def iosAlloc_def sock_freeIobuf_def iosFree_def Let_def
      demo_net_def transfer_words [simplified] move bytes)
qed

definition demo_write :: wup_state where
  "demo_write = \<lparr> net = \<lparr> srv = \<lparr> smem = put_words 0x500 [(0, 0), (4, 0x600), (8, 2)] (\<lambda>_. 0), live = [] \<rparr>, socket_handle = 3 \<rparr>,
     serverKilled = False \<rparr>"

theorem wup_write_stores_witness:
  "\<exists>st'. serverCommandHandler demo_wup 0x500 12 5 demo_write = Some (st', 4) \<and> load_bytes (wmem st') 0x600 2 = [104, 105]"
proof -
  have w: "command_word (wmem demo_write) 0x500 0 = 0" "command_word (wmem demo_write) 0x500 1 = 0x600"
    "command_word (wmem demo_write) 0x500 2 = 2"
    by (simp_all add: demo_write_def command_word_def wmem_def read32_write32_other disjoint_regions_def)
  have empty: "load_bytes m a 0 = []" for m a by (simp add: load_bytes_def)
  obtain s' where "recv demo_net 5 0x600 2 0 (net demo_write) = (s', 2)" "load_bytes (smem (srv s')) 0x600 2 = [104, 105]"
    using recv_demo [of 2 "0x600"] by force
  then have "feeds (wnet demo_wup) 5 0x600 0 2 [[104, 105]] (net demo_write)"
    by (simp add: demo_wup_def empty flip: numeral_2_eq_2)
  then show ?thesis
    using wup_write_stores [of "0x500" demo_write demo_wup 5 "[[104, 105]]"] w by (fastforce simp: disjoint_regions_def)
qed

text \<open>Closing a socket, in terms of the request that the service sees.\<close>

lemma closesocket_request:
  "closesocket env sockfd st =
     (let (s, b) = sock_allocIobuf env 4 (srv st);
          (m, r) = ioctl_svc env (write32 (smem s) b sockfd) (socket_handle st) 0x3 b 4 0 0
      in (st\<lparr>srv := (srv st)\<lparr>smem := m\<rparr>\<rparr>, r))"
  using sbuf.acq [of env 4 "srv st"]
  by (cases "sock_allocIobuf env 4 (srv st)")
     (simp add: closesocket_def sock_call_def sock_freeIobuf_def iosFree_def split_beta Let_def)

text \<open>
  C28. The kill command ends the server: once it is the next command on a connection, the client
  is sent a word of zeros, the socket of the connection is closed and nothing else is asked of the
  network service; the loop of the connection returns with the flag set, and so does the
  loop that accepts connections.  \<open>d\<close> and \<open>i\<close> are the blocks the answer is sent through.
\<close>

theorem wup_kill_stops:
  fixes s :: socket_state and cb :: u32
  assumes "\<not> serverKilled st" "recv (wnet env) sock cb 0x600 0 (net st) = (s, ret)" "0 < sint ret" "cb \<noteq> 0"
    and "command_word (smem (srv s)) cb 0 = 3"
  defines "answered \<equiv> (srv s)\<lparr>smem := write32 (smem (srv s)) cb 0\<rparr>"
  assumes blocks: "iosAllocAligned (wnet env) answered 4 0x40 = (s1, d)" "d \<noteq> 0"
    "sock_allocIobuf (wnet env) 0x38 s1 = (s2, i)"
    and apart: "disjoint_regions i 0x38 d 4" "disjoint_regions i 0x38 cb 4"
  shows "\<exists>m m' r. load_bytes m d 4 = [0, 0, 0, 0] \<and> read32 m (i + 12) = d \<and> read32 m (i + 16) = 4 \<and>
    read32 m (read32 m i) = sock \<and> ioctlv_svc (wnet env) m (socket_handle s) 0xE 4 0 i = (m', r) \<and>
    (let (s3, b) = sock_allocIobuf (wnet env) 4 ((srv s)\<lparr>smem := m'\<rparr>);
         (m'', c) = ioctl_svc (wnet env) (write32 (smem s3) b sock) (socket_handle s) 0x3 b 4 0 0;
         st' = st\<lparr>net := s\<lparr>srv := (srv s)\<lparr>smem := m''\<rparr>\<rparr>, serverKilled := True\<rparr>
     in serverClientHandler env cb ra sock st = Some st' \<and> listen_loop env cb ra lsock st' = Some st')"
proof -
  let ?a = "s\<lparr>srv := answered\<rparr>"
  have zero: "load_bytes (smem answered) cb 4 = [0, 0, 0, 0]"
    by (simp add: answered_def load_bytes_def write32_def numeral_eq_Suc)
  obtain m where m: "send (wnet env) sock cb 4 0 ?a = (let (m', ret) = ioctlv_svc (wnet env) m (socket_handle s) 0xE 4 0 i
       in (?a\<lparr>srv := answered\<lparr>smem := m'\<rparr>\<rparr>, ret))"
    "load_bytes m d 4 = [0, 0, 0, 0]" "read32 m (i + 12) = d" "read32 m (i + 16) = 4" "read32 m (read32 m i) = sock"
    using send_request [of cb 4 d "wnet env" ?a s1 s2 i sock 0] assms(4) blocks apart zero by auto
  obtain m' r where v: "ioctlv_svc (wnet env) m (socket_handle s) 0xE 4 0 i = (m', r)" by force
  have "ret \<noteq> 0" using assms(3) by auto
  then have h: "serverCommandHandler env cb ret sock (st\<lparr>net := s\<rparr>) = Some (st\<lparr>net := ?a, serverKilled := True\<rparr>, 4)"
    using assms(4,5) by (simp add: serverCommandHandler_def Let_def wmem_def with_mem_def answered_def)
  have "client_loop env cb ra sock st = client_loop env cb ra sock (serverReply env cb ra sock 4 (st\<lparr>net := ?a, serverKilled := True\<rparr>))"
    using assms(1-3) h by (subst client_loop.simps) simp
  also have "\<dots> = Some (st\<lparr>net := s\<lparr>srv := (srv s)\<lparr>smem := m'\<rparr>\<rparr>, serverKilled := True\<rparr>)"
    using m(1) v by (subst client_loop.simps) (simp add: serverReply_def answered_def)
  finally show ?thesis
    using m(2-5) v
    by (intro exI [of _ m] exI [of _ m'] exI [of _ r])
       (simp add: serverClientHandler_def closesocket_request listen_loop.simps split_beta Let_def)
qed

definition demo_kill :: wup_env where
  "demo_kill = demo_wup\<lparr>wnet := demo_net\<lparr>ioctlv_svc := (\<lambda>m _ cmd _ _ v.
     if cmd = 0xC then (store_bytes m (read32 m (v + 12)) [0, 0, 0, 3], 4) else (m, read32 m (v + 16)))\<rparr>\<rparr>"

lemma recv_kill:
  "\<exists>s'. recv (wnet demo_kill) sock 0x500 0x600 0 s = (s', 4) \<and> command_word (smem (srv s')) 0x500 0 = 3"
proof -
  have bytes: "read32 (store_bytes m 0x20000000 [0, 0, 0, 3]) 0x20000000 = 3" for m
    by (simp add: read32_def store_bytes_def)
  have move: "read32 (memmove m 0x500 0x20000000 4) 0x500 = read32 m 0x20000000" for m
    using read32_memmove [of 0 4 m "0x500" "0x20000000"] by simp
  show ?thesis
    by (simp add: recv_def iosAllocAligned_def sock_allocIobuf_def iosAlloc_def sock_freeIobuf_def iosFree_def Let_def
      demo_kill_def demo_wup_def demo_net_def transfer_words [simplified] command_word_def move bytes)
qed

theorem wup_kill_stops_witness:
  "\<exists>st'. serverClientHandler demo_kill 0x500 0x700 5 demo_write = Some st' \<and> serverKilled st'"
proof -
  obtain s where s: "recv (wnet demo_kill) 5 0x500 0x600 0 (net demo_write) = (s, 4)" "command_word (smem (srv s)) 0x500 0 = 3"
    using recv_kill by blast
  define a where "a = (srv s)\<lparr>smem := write32 (smem (srv s)) 0x500 0\<rparr>"
  obtain s1 where d: "iosAllocAligned (wnet demo_kill) a 4 0x40 = (s1, 0x20000000)"
    by (simp add: iosAllocAligned_def demo_kill_def demo_wup_def demo_net_def Let_def)
  obtain s2 where i: "sock_allocIobuf (wnet demo_kill) 0x38 s1 = (s2, 0x10000000)"
    by (simp add: sock_allocIobuf_def iosAlloc_def demo_kill_def demo_wup_def demo_net_def Let_def)
  have "\<not> serverKilled demo_write" by (simp add: demo_write_def)
  from wup_kill_stops [OF this s(1) _ _ s(2) d [unfolded a_def] _ i, of "0x700" 5] show ?thesis
    by (auto simp: disjoint_regions_def Let_def split_beta)
qed

text \<open>
  C29. The server keeps no memory: when it returns, whatever its clients sent and whatever the
  calls of the system answered, exactly the heap blocks are live that were live before.
\<close>

theorem wup_balanced:
  assumes "serverListenClients env server cb ra st = Some st'"
  shows "live (srv (net st')) = live (srv (net st)) \<and> serverKilled st'"
proof -
  obtain s sock where a: "socket (wnet env) (ucast AF_INET) SOCK_STREAM IPPROTO_TCP (net st) = (s, sock)" by force
  define st1 where "st1 = with_mem (server_addr server (smem (srv s))) (st\<lparr>serverKilled := False, net := s\<rparr>)"
  obtain s2 ret where b: "sock_bind (wnet env) sock server 16 (net st1) = (s2, ret)" by force
  have "listen_loop env cb ra sock (st1\<lparr>net := s2\<rparr>) = Some st'"
    using assms b by (simp add: serverListenClients_def a st1_def)
  moreover have "live (srv s) = live (srv (net st))" using a by (metis calls_live(4) fst_conv)
  moreover have "live (srv s2) = live (srv (net st1))" using b by (metis calls_live(5) fst_conv)
  ultimately show ?thesis using listen_loop_end [of env cb ra sock _ st'] by (simp add: st1_def)
qed

theorem wup_balanced_witness:
  "\<exists>st'. serverListenClients demo_kill 0x800 0x500 0x700 demo_write = Some st' \<and> blocks_of st' = []"
proof -
  have ioctl: "listen (wnet demo_kill) sock n s = (fst (listen (wnet demo_kill) sock n s), 0)"
    "accept (wnet demo_kill) sock 0 0 s = (fst (accept (wnet demo_kill) sock 0 0 s), 0)" for sock n s
    by (simp_all add: listen_def accept_def sock_call_def demo_kill_def demo_wup_def demo_net_def split_beta)
  have "\<exists>st'. listen_loop demo_kill 0x500 0x700 sock st = Some st'" if "\<not> serverKilled st" for sock st
  proof -
    obtain l where l: "listen (wnet demo_kill) sock 1 (net st) = (l, 0)" using ioctl(1) by blast
    obtain c where c: "accept (wnet demo_kill) sock 0 0 l = (c, 0)" using ioctl(2) by blast
    obtain s where "recv (wnet demo_kill) 0 0x500 0x600 0 (net (st\<lparr>net := c\<rparr>)) = (s, 4)"
        "command_word (smem (srv s)) 0x500 0 = 3"
      using recv_kill by blast
    from kill_stops [OF this(1) _ _ this(2), of "0x700" sock] obtain st' where
        "serverClientHandler demo_kill 0x500 0x700 0 (st\<lparr>net := c\<rparr>) = Some st'"
        "listen_loop demo_kill 0x500 0x700 sock st' = Some st'"
      by auto
    then show ?thesis using that by (subst listen_loop.simps) (simp add: l c)
  qed
  then obtain st' where "serverListenClients demo_kill 0x800 0x500 0x700 demo_write = Some st'"
    by (fastforce simp: serverListenClients_def with_mem_def split_beta)
  with wup_balanced [OF this] show ?thesis by (auto simp: demo_write_def)
qed

end
