(* ===== verification/WupStart.thy ===== *)
theory WupStart
  imports Wupserver
begin

text \<open>
  The thread of the server plugin (\<^verbatim>\<open>wupserver_main\<close> in \<^verbatim>\<open>wupserver.c\<close>): it waits for the
  interface manager, for a network interface that is up, and for the socket service, and then
  serves clients.  What the system answers changes while the thread sleeps, so the environment
  is a function of the number of pauses.

  The locale \<open>service_opener\<close> is the contract of the two functions that open a service once and
  keep its handle.
\<close>

section \<open>The waits\<close>

partial_function (option) wait_open ::
  "(nat \<Rightarrow> 's \<Rightarrow> 's \<times> u32) \<Rightarrow> (nat \<Rightarrow> 's \<Rightarrow> 's) \<Rightarrow> nat \<Rightarrow> 's \<Rightarrow> (nat \<times> 's) option" where
  "wait_open init pause n st =
     (let (st, r) = init n st
      in if sint r \<le> 0 then wait_open init pause (Suc n) (pause n st) else Some (n, st))"

definition ifmgr_pause :: "(nat \<Rightarrow> wup_env) \<Rightarrow> nat \<Rightarrow> ifmgr_state \<Rightarrow> ifmgr_state" where
  "ifmgr_pause env n st = st\<lparr>isrv := (isrv st)\<lparr>smem := paused (env n) (smem (isrv st))\<rparr>\<rparr>"

definition socket_pause :: "(nat \<Rightarrow> wup_env) \<Rightarrow> nat \<Rightarrow> socket_state \<Rightarrow> socket_state" where
  "socket_pause env n st = st\<lparr>srv := (srv st)\<lparr>smem := paused (env n) (smem (srv st))\<rparr>\<rparr>"

text \<open>The two status words are on the stack, at \<open>out0\<close> and \<open>out1\<close>.\<close>

partial_function (option) wait_interface ::
  "(nat \<Rightarrow> wup_env) \<Rightarrow> u32 \<Rightarrow> u32 \<Rightarrow> nat \<Rightarrow> ifmgr_state \<Rightarrow> (nat \<times> ifmgr_state) option" where
  "wait_interface env out0 out1 n st =
     (let (st, ret0) = IFMGRNCL_GetInterfaceStatus (wnet (env n)) 0 out0 st
      in if ret0 = 0 \<and> read16 (smem (isrv st)) out0 = 1 then Some (n, st)
         else let (st, ret1) = IFMGRNCL_GetInterfaceStatus (wnet (env n)) 1 out1 st
              in if ret1 = 0 \<and> read16 (smem (isrv st)) out1 = 1 then Some (n, st)
                 else wait_interface env out0 out1 (Suc n) (ifmgr_pause env n st))"

text \<open>
  The value is the state in which the server has stopped; the thread then sleeps for ever.  The
  first pause is over when the first call is made, the last one before the server listens.
\<close>

definition wupserver_main ::
  "(nat \<Rightarrow> wup_env) \<Rightarrow> u32 \<Rightarrow> u32 \<Rightarrow> u32 \<Rightarrow> u32 \<Rightarrow> u32 \<Rightarrow> service_state \<Rightarrow> wup_state option" where
  "wupserver_main env out0 out1 server command_buffer ret_addr sv =
     do { (n, i) \<leftarrow> wait_open (\<lambda>n. ifmgrnclInit (wnet (env n))) (ifmgr_pause env) 1
                      \<lparr>isrv = sv, ifmgrncl_handle = 0\<rparr>;
          (n, i) \<leftarrow> wait_interface env out0 out1 n i;
          (n, s) \<leftarrow> wait_open (\<lambda>n. socketInit (wnet (env n))) (socket_pause env) n
                      \<lparr>srv = isrv i, socket_handle = 0\<rparr>;
          serverListenClients (env (Suc n)) server command_buffer ret_addr
            \<lparr>net = socket_pause env n s, serverKilled = False\<rparr> }"

lemma wait_open_done:
  "init n st = (st', r) \<Longrightarrow> 0 < sint r \<Longrightarrow> wait_open init pause n st = Some (n, st')"
  by (simp add: wait_open.simps [of _ _ n])

lemma wait_open_next:
  "init n st = (st', r) \<Longrightarrow> sint r \<le> 0 \<Longrightarrow> wait_open init pause n st = wait_open init pause (Suc n) (pause n st')"
  by (simp add: wait_open.simps [of _ _ n])

section \<open>Opening a service\<close>

locale service_opener =
  fixes init :: "service_env \<Rightarrow> 's \<Rightarrow> 's \<times> u32"
    and handle :: "'s \<Rightarrow> u32"
    and serv :: "'s \<Rightarrow> service_state"
    and name :: string
  assumes again: "handle st \<noteq> 0 \<Longrightarrow> init env st = (st, handle st)"
    and fails: "handle st = 0 \<Longrightarrow> sint (open_svc env name) \<le> 0 \<Longrightarrow> init env st = (st, open_svc env name)"
    and opens: "handle st = 0 \<Longrightarrow> 0 < sint (open_svc env name) \<Longrightarrow>
      \<exists>st'. init env st = (st', open_svc env name) \<and> handle st' = open_svc env name \<and> serv st' = serv st"
begin

text \<open>A handle is positive once there is one, so a second call changes nothing.\<close>

lemma init_twice:
  assumes "handle st = 0" "init env st = (st', r)" "0 < sint r"
  shows "init env' st' = (st', r)"
proof -
  have "0 < sint (open_svc env name)"
    using assms fails [of st env] by fastforce
  then have h: "handle st' = r" using assms opens [of st env] by auto
  then have "handle st' \<noteq> 0" using assms(3) by auto
  then show ?thesis using again h by simp
qed

lemma wait_open_upto:
  assumes "handle st = 0" "n \<le> a" "0 < sint (open_svc (env a) name)"
    and pause: "\<And>k st. handle (pause k st) = handle st" "\<And>k st. live (serv (pause k st)) = live (serv st)"
  shows "\<exists>k st'. wait_open (\<lambda>n. init (env n)) pause n st = Some (k, st') \<and> n \<le> k \<and> k \<le> a \<and>
    handle st' = open_svc (env k) name \<and> 0 < sint (handle st') \<and> live (serv st') = live (serv st)"
  using assms(1,2)
proof (induction "a - n" arbitrary: n st)
  case 0
  then have n: "n = a" by simp
  obtain st' where "init (env n) st = (st', open_svc (env n) name)" "handle st' = open_svc (env n) name"
    "serv st' = serv st"
    using opens [of st "env n"] assms(3) 0 n by auto
  then show ?case
    using assms(3) n wait_open_done [of "\<lambda>n. init (env n)" n st st' "open_svc (env n) name" pause] by auto
next
  case (Suc d)
  show ?case
  proof (cases "0 < sint (open_svc (env n) name)")
    case True
    then obtain st' where "init (env n) st = (st', open_svc (env n) name)" "handle st' = open_svc (env n) name"
      "serv st' = serv st"
      using opens [of st "env n"] Suc.prems by auto
    then show ?thesis
      using True Suc.prems wait_open_done [of "\<lambda>n. init (env n)" n st st' "open_svc (env n) name" pause] by auto
  next
    case False
    then have i: "init (env n) st = (st, open_svc (env n) name)" using fails Suc.prems by simp
    have "d = a - Suc n" "handle (pause n st) = 0" "Suc n \<le> a" using Suc pause by auto
    from Suc.hyps(1) [OF this] show ?thesis
      using False pause(2) wait_open_next [of "\<lambda>n. init (env n)" n st st "open_svc (env n) name" pause, OF i]
      by (auto intro: Suc_leD)
  qed
qed

end

interpretation ifmgr: service_opener ifmgrnclInit ifmgrncl_handle isrv "''/dev/net/ifmgr/ncl''"
  by unfold_locales (auto simp: ifmgrnclInit_def Let_def)

interpretation sockets: service_opener socketInit socket_handle srv "''/dev/socket''"
  by unfold_locales (auto simp: socketInit_def Let_def)

lemma pause_simps [simp]:
  "ifmgrncl_handle (ifmgr_pause env n i) = ifmgrncl_handle i" "live (isrv (ifmgr_pause env n i)) = live (isrv i)"
  "socket_handle (socket_pause env n s) = socket_handle s" "live (srv (socket_pause env n s)) = live (srv s)"
  by (simp_all add: ifmgr_pause_def socket_pause_def)

section \<open>The interface\<close>

lemma status_live [simp]:
  "live (isrv (fst (IFMGRNCL_GetInterfaceStatus env ifc out st))) = live (isrv st)"
  by (simp add: IFMGRNCL_GetInterfaceStatus_def sock_allocIobuf_def iosAlloc_def Let_def split_beta)

text \<open>An interface is up when every query of its status says so.\<close>

definition interface_up :: "service_env \<Rightarrow> u16 \<Rightarrow> bool" where
  "interface_up env ifc \<longleftrightarrow> (\<forall>m h b1 b2.
     let (m', ret) = ioctl_svc env (write16 m b1 ifc) h 0x14 b1 2 b2 8 in ret = 0 \<and> read16 m' (b2 + 4) = 1)"

lemma interface_upD:
  assumes "interface_up env ifc" "ioctl_svc env (write16 m b1 ifc) h 0x14 b1 2 b2 8 = (m', ret)"
  shows "ret = 0" "read16 m' (b2 + 4) = 1"
proof -
  have "let (m', ret) = ioctl_svc env (write16 m b1 ifc) h 0x14 b1 2 b2 8 in ret = 0 \<and> read16 m' (b2 + 4) = 1"
    using assms(1) unfolding interface_up_def by blast
  then show "ret = 0" "read16 m' (b2 + 4) = 1" by (simp_all add: assms(2))
qed

lemma status_up:
  assumes "interface_up env ifc" "out \<noteq> 0"
  shows "\<exists>st'. IFMGRNCL_GetInterfaceStatus env ifc out st = (st', 0) \<and> read16 (smem (isrv st')) out = 1"
proof -
  obtain s1 b1 where a1: "sock_allocIobuf env 2 (isrv st) = (s1, b1)" by force
  obtain s2 b2 where a2: "sock_allocIobuf env 8 s1 = (s2, b2)" by force
  obtain m' ret where "ioctl_svc env (write16 (smem s2) b1 ifc) (ifmgrncl_handle st) 0x14 b1 2 b2 8 = (m', ret)" by force
  moreover from this have "ret = 0" "read16 m' (b2 + 4) = 1"
    by (rule interface_upD [OF assms(1)])+
  ultimately show ?thesis using assms(2) by (simp add: IFMGRNCL_GetInterfaceStatus_def a1 a2)
qed

text \<open>One round of the wait: either it ends with one of the two queries, or it sleeps.\<close>

lemma wait_interface_round:
  obtains s0 r0 s1 r1 where
    "IFMGRNCL_GetInterfaceStatus (wnet (env n)) 0 out0 st = (s0, r0)"
    "IFMGRNCL_GetInterfaceStatus (wnet (env n)) 1 out1 s0 = (s1, r1)"
    "live (isrv s0) = live (isrv st)" "live (isrv s1) = live (isrv st)"
    "wait_interface env out0 out1 n st =
      (if r0 = 0 \<and> read16 (smem (isrv s0)) out0 = 1 then Some (n, s0)
       else if r1 = 0 \<and> read16 (smem (isrv s1)) out1 = 1 then Some (n, s1)
       else wait_interface env out0 out1 (Suc n) (ifmgr_pause env n s1))"
proof -
  obtain s0 r0 where a: "IFMGRNCL_GetInterfaceStatus (wnet (env n)) 0 out0 st = (s0, r0)" by force
  obtain s1 r1 where b: "IFMGRNCL_GetInterfaceStatus (wnet (env n)) 1 out1 s0 = (s1, r1)" by force
  show ?thesis
    using that [OF a b] a b status_live [of "wnet (env n)" 0 out0 st] status_live [of "wnet (env n)" 1 out1 s0]
    by (simp add: wait_interface.simps [of env _ _ n])
qed

lemma wait_interface_upto:
  assumes "n \<le> b" "interface_up (wnet (env b)) ifc" "ifc = 0 \<or> ifc = 1" "out0 \<noteq> 0" "out1 \<noteq> 0"
  shows "\<exists>k st'. wait_interface env out0 out1 n st = Some (k, st') \<and> n \<le> k \<and> k \<le> b \<and>
    live (isrv st') = live (isrv st)"
  using assms(1)
proof (induction "b - n" arbitrary: n st)
  case 0
  then have n: "n = b" by simp
  show ?case
  proof (rule wait_interface_round [of env n out0 st out1], goal_cases)
    case (1 s0 r0 s1 r1)
    have "(r0 = 0 \<and> read16 (smem (isrv s0)) out0 = 1) \<or> (r1 = 0 \<and> read16 (smem (isrv s1)) out1 = 1)"
      using assms(3) status_up [OF assms(2,4), of st] status_up [OF assms(2,5), of s0] 1(1,2) n by auto
    then show ?case using 1(3-5) n by auto
  qed
next
  case (Suc d)
  have next': "d = b - Suc n" "Suc n \<le> b" using Suc by auto
  show ?case
  proof (rule wait_interface_round [of env n out0 st out1], goal_cases)
    case (1 s0 r0 s1 r1)
    from Suc.hyps(1) [OF next', of "ifmgr_pause env n s1"] show ?case
      using 1(3-5) Suc.prems by (auto intro: Suc_leD)
  qed
qed

section \<open>The server starts\<close>

text \<open>
  C30. The server is reached: when the interface manager can be opened after \<open>a\<close> pauses, an interface is
  up after \<open>b\<close> and the socket service can be opened after \<open>c\<close>, then the thread is
  listening after at most one pause more, with a valid handle and all blocks freed that it
  has allocated.
\<close>

theorem server_starts:
  assumes "1 \<le> a" "a \<le> b" "b \<le> c"
    and "0 < sint (open_svc (wnet (env a)) ''/dev/net/ifmgr/ncl'')"
    and "interface_up (wnet (env b)) ifc" "ifc = 0 \<or> ifc = 1" "out0 \<noteq> 0" "out1 \<noteq> 0"
    and "0 < sint (open_svc (wnet (env c)) ''/dev/socket'')"
  shows "\<exists>n s. n \<le> Suc c \<and> 0 < sint (socket_handle s) \<and> live (srv s) = live sv \<and>
    wupserver_main env out0 out1 server cb ra sv
      = serverListenClients (env n) server cb ra \<lparr>net = s, serverKilled = False\<rparr>"
proof -
  obtain k1 i1 where 1: "wait_open (\<lambda>n. ifmgrnclInit (wnet (env n))) (ifmgr_pause env) 1
      \<lparr>isrv = sv, ifmgrncl_handle = 0\<rparr> = Some (k1, i1)" "k1 \<le> a" "live (isrv i1) = live sv"
    using ifmgr.wait_open_upto [where env = "\<lambda>n. wnet (env n)" and n = 1 and a = a and pause = "ifmgr_pause env"
        and st = "\<lparr>isrv = sv, ifmgrncl_handle = 0\<rparr>"] assms by auto
  obtain k2 i2 where 2: "wait_interface env out0 out1 k1 i1 = Some (k2, i2)" "k2 \<le> b" "live (isrv i2) = live sv"
    using wait_interface_upto [of k1 b env ifc out0 out1 i1] assms 1 by auto
  obtain k3 s where "wait_open (\<lambda>n. socketInit (wnet (env n))) (socket_pause env) k2
      \<lparr>srv = isrv i2, socket_handle = 0\<rparr> = Some (k3, s)" "k3 \<le> c" "0 < sint (socket_handle s)" "live (srv s) = live sv"
    using sockets.wait_open_upto [where env = "\<lambda>n. wnet (env n)" and n = k2 and a = c and pause = "socket_pause env"
        and st = "\<lparr>srv = isrv i2, socket_handle = 0\<rparr>"] assms 2 by auto
  with 1 2 show ?thesis
    by (intro exI [of _ "Suc k3"] exI [of _ "socket_pause env k3 s"]) (simp add: wupserver_main_def)
qed

definition demo_up :: wup_env where
  "demo_up = demo_wup\<lparr>wnet := demo_net\<lparr>ioctl_svc := (\<lambda>m _ cmd _ _ b _. (if cmd = 0x14 then write16 m (b + 4) 1 else m, 0))\<rparr>\<rparr>"

theorem server_starts_witness:
  "\<exists>s. wupserver_main (\<lambda>_. demo_up) 0x900 0x902 0x800 0x500 0x700 \<lparr>smem = (\<lambda>_. 0), live = []\<rparr>
      = serverListenClients demo_up 0x800 0x500 0x700 \<lparr>net = s, serverKilled = False\<rparr> \<and>
    0 < sint (socket_handle s) \<and> live (srv s) = []"
proof -
  have "0 < sint (open_svc (wnet demo_up) name)" for name by (simp add: demo_up_def demo_wup_def demo_net_def)
  moreover have "interface_up (wnet demo_up) 1" by (simp add: demo_up_def interface_up_def)
  ultimately show ?thesis
    using server_starts [of 1 1 1 "\<lambda>_. demo_up" 1 "0x900" "0x902" "\<lparr>smem = (\<lambda>_. 0), live = []\<rparr>"
        "0x800" "0x500" "0x700"] by auto
qed

text \<open>
  The plugin's entry point creates the thread on a stack of 4 KiB and starts it when the kernel
  gave a handle; the address and the handle are what the allocator and the kernel return.
\<close>

datatype thread_call = CreateThread string u32 u32 u32 u32 u32 | StartThread u32

definition wup_mcp_main :: "u32 \<Rightarrow> u32 \<Rightarrow> thread_call list" where
  "wup_mcp_main stack handle =
     CreateThread ''wupserver_main'' 0 (stack + 0x1000) 0x1000 0x78 1 #
     (if 0 \<le> sint handle then [StartThread handle] else [])"

end
