(* ===== verification/Storage.thy ===== *)
theory Storage
  imports Fsa "HOL-Library.Multiset"
begin

text \<open>
  The storage helpers of the server plugin (\<^verbatim>\<open>wafel_plugin_wupserver/source/wupserver.c\<close>): a
  directory tree is copied through the file system service, and the storages are mounted with
  retries.  They are compiled into the plugin, the calls of them are commented out.

  The structure of a directory entry that this file names is not declared in the repository:
  its size and the fields that are read are an argument.
\<close>

record dirent_layout =
  sizeof_entry :: u32
  entry_flags :: "mem \<Rightarrow> u32 \<Rightarrow> u32"
  entry_size :: "mem \<Rightarrow> u32 \<Rightarrow> u32"
  entry_name :: "mem \<Rightarrow> u32 \<Rightarrow> u8 list"

section \<open>One file\<close>

definition BLOCK_SIZE :: u32 where "BLOCK_SIZE = 2 * 1024 * 1024"

definition cur_size :: "u32 \<Rightarrow> u32 \<Rightarrow> u32" where
  "cur_size fsize cur_offset = (if fsize - cur_offset < BLOCK_SIZE then fsize - cur_offset else BLOCK_SIZE)"

lemma cur_size_bounds:
  assumes "cur_offset < fsize"
  shows "0 < unat (cur_size fsize cur_offset)" "cur_size fsize cur_offset \<le> BLOCK_SIZE"
    "unat (cur_offset + cur_size fsize cur_offset) = unat cur_offset + unat (cur_size fsize cur_offset)"
    "cur_offset + cur_size fsize cur_offset \<le> fsize"
proof -
  have d: "unat (fsize - cur_offset) = unat fsize - unat cur_offset" "unat cur_offset < unat fsize"
    using assms by (simp_all add: unat_sub word_less_nat_alt word_le_nat_alt)
  have b: "unat BLOCK_SIZE = 0x200000" by (simp add: BLOCK_SIZE_def)
  have c: "unat (cur_size fsize cur_offset) = min (unat fsize - unat cur_offset) 0x200000"
    using d b by (auto simp: cur_size_def word_less_nat_alt)
  show "0 < unat (cur_size fsize cur_offset)" "cur_size fsize cur_offset \<le> BLOCK_SIZE"
    using c d b by (simp_all add: word_le_nat_alt)
  have "unat cur_offset + unat (cur_size fsize cur_offset) \<le> unat fsize" using c d(2) by simp
  then show s: "unat (cur_offset + cur_size fsize cur_offset) = unat cur_offset + unat (cur_size fsize cur_offset)"
    using unat_u32_less [of fsize] by (intro unat_add_lem [THEN iffD1]) simp
  then show "cur_offset + cur_size fsize cur_offset \<le> fsize" using c d(2) by (simp add: word_le_nat_alt)
qed

text \<open>The offset is the number of bytes that were copied when the loop ends.\<close>

function copy_loop ::
  "service_env \<Rightarrow> u32 \<Rightarrow> u32 \<Rightarrow> u32 \<Rightarrow> u32 \<Rightarrow> u32 \<Rightarrow> u32 \<Rightarrow> service_state \<Rightarrow> service_state \<times> u32" where
  "copy_loop env fd filebuf f_src f_dst fsize cur_offset st =
     (if cur_offset < fsize
      then let n = cur_size fsize cur_offset;
               (st, read_sz) = FSA_ReadFile env fd filebuf 1 n f_src 0 st
           in if read_sz \<noteq> n then (st, cur_offset)
              else let (st, write_sz) = FSA_WriteFile env fd filebuf 1 n f_dst 0 st
                   in if write_sz \<noteq> n then (st, cur_offset)
                      else copy_loop env fd filebuf f_src f_dst fsize (cur_offset + n) st
      else (st, cur_offset))"
  by pat_completeness auto
termination
  by (relation "measure (\<lambda>(env, fd, filebuf, f_src, f_dst, fsize, cur_offset, st). unat fsize - unat cur_offset)")
     (auto simp: cur_size_bounds(3) word_less_nat_alt intro!: diff_less_mono2 cur_size_bounds(1))

declare copy_loop.simps [simp del]

section \<open>Directories\<close>

text \<open>
  The local variables whose addresses are passed on are in the frame of the call: the handle
  of the directory, and those of the two files.
\<close>

definition src_dir :: "u32 \<Rightarrow> service_state \<Rightarrow> u32" where "src_dir frame st = read32 (smem st) frame"
definition f_dst :: "u32 \<Rightarrow> service_state \<Rightarrow> u32" where "f_dst frame st = read32 (smem st) (frame + 4)"
definition f_src :: "u32 \<Rightarrow> service_state \<Rightarrow> u32" where "f_src frame st = read32 (smem st) (frame + 8)"

definition set_local :: "u32 \<Rightarrow> u32 \<Rightarrow> service_state \<Rightarrow> service_state" where
  "set_local a v st = st\<lparr>smem := write32 (smem st) a v\<rparr>"

text \<open>\<^verbatim>\<open>snprintf(str, 0x100, "%s/%s", dir, name)\<close>: the text, and its bytes in the buffer.\<close>

definition path_text :: "u8 list \<Rightarrow> u8 list \<Rightarrow> u8 list" where
  "path_text dir name = take 0xFF (dir @ str ''/'' @ name)"

definition put_path :: "u32 \<Rightarrow> u8 list \<Rightarrow> service_state \<Rightarrow> service_state" where
  "put_path a path st = st\<lparr>smem := store_bytes (smem st) a (path @ [0])\<rparr>"

text \<open>A file of the directory; the flag says that the loop goes on.\<close>

definition copy_file ::
  "service_env \<Rightarrow> dirent_layout \<Rightarrow> u32 \<Rightarrow> u32 \<Rightarrow> u8 list \<Rightarrow> u32 \<Rightarrow> u8 list \<Rightarrow> u32 \<Rightarrow> u8 list \<Rightarrow> u32 \<Rightarrow>
   service_state \<Rightarrow> bool \<times> service_state" where
  "copy_file env de fd frame dst src_str src_path dst_str dst_path dir_entry st =
     (let (st, filebuf) = iosAlloc env st BLOCK_SIZE
      in if filebuf = 0 then (False, fst (FSA_CloseDir env fd (src_dir frame st) st))
         else
           let st = set_local (frame + 8) 0 (set_local (frame + 4) 0 st);
               (st, ret) = FSA_OpenFile env fd src_path (str ''r'') (frame + 8) st
           in if ret \<noteq> 0
              then let st = iosFree st filebuf in (False, fst (FSA_CloseDir env fd (src_dir frame st) st))
              else
                let (st, ret) = FSA_OpenFile env fd dst_path (str ''w'') (frame + 4) st
                in if ret \<noteq> 0
                   then let st = iosFree st filebuf;
                            st = fst (FSA_CloseFile env fd (f_src frame st) st)
                        in (False, fst (FSA_CloseDir env fd (src_dir frame st) st))
                   else
                     let fsize = entry_size de (smem st) dir_entry;
                         st = iosFree (iosFree st src_str) dst_str;
                         (st, _) = copy_loop env fd filebuf (f_src frame st) (f_dst frame st) fsize 0 st;
                         st = fst (FSA_CloseFile env fd (f_dst frame st) st);
                         st = fst (FSA_CloseFile env fd (f_src frame st) st);
                         st = iosFree st filebuf
                     in (True, fst (FSA_ChangeMode env fd dst 0x666 st)))"

text \<open>The beginning of a call: the directories and the entry buffer; \<open>None\<close> when it returns early.\<close>

definition copy_open ::
  "service_env \<Rightarrow> dirent_layout \<Rightarrow> u32 \<Rightarrow> u32 \<Rightarrow> u8 list \<Rightarrow> u8 list \<Rightarrow> service_state \<Rightarrow> service_state \<times> u32 option" where
  "copy_open env de fd frame src dst st =
     (let (st, ret) = FSA_OpenDir env fd src frame (set_local frame 0 st)
      in if ret \<noteq> 0 then (st, None)
         else
           let (st, ret) = FSA_MakeDir env fd dst 0x666 st
           in if ret \<noteq> 0 \<and> ret \<noteq> 0xFFFCFFEA then (fst (FSA_CloseDir env fd (src_dir frame st) st), None)
              else
                let (st, dir_entry) = iosAlloc env st (sizeof_entry de)
                in if dir_entry = 0 then (fst (FSA_CloseDir env fd (src_dir frame st) st), None)
                   else (st, Some dir_entry))"

text \<open>
  The loop over the entries.  Both buffers are written before they are checked.  The frame of
  a call within lies \<open>frame_sz\<close> below.
\<close>

partial_function (option) copy_entries ::
  "service_env \<Rightarrow> dirent_layout \<Rightarrow> u32 \<Rightarrow> u32 \<Rightarrow> u32 \<Rightarrow> u8 list \<Rightarrow> u8 list \<Rightarrow> u32 \<Rightarrow> service_state \<Rightarrow> service_state option" where
  "copy_entries env de fd frame_sz frame src dst dir_entry st =
     (let (st, ret) = FSA_ReadDir env fd (src_dir frame st) dir_entry st
      in if ret \<noteq> 0
         then let st = iosFree st dir_entry in Some (fst (FSA_CloseDir env fd (src_dir frame st) st))
         else
           let (st, src_str) = iosAlloc env st 0x100;
               (st, dst_str) = iosAlloc env st 0x100;
               src_path = path_text src (entry_name de (smem st) dir_entry);
               st = put_path src_str src_path st;
               dst_path = path_text dst (entry_name de (smem st) dir_entry);
               st = put_path dst_str dst_path st
           in if src_str = 0 \<or> dst_str = 0
              then let st = fst (FSA_CloseDir env fd (src_dir frame st) st)
                   in Some (iosFree (iosFree st src_str) dst_str)
              else if entry_flags de (smem st) dir_entry AND 0x80000000 \<noteq> 0
              then let (st, e) = copy_open env de fd (frame - frame_sz) src_path dst_path st
                   in do {
                     st \<leftarrow> if e = None then Some st
                           else copy_entries env de fd frame_sz (frame - frame_sz) src_path dst_path (the e) st;
                     copy_entries env de fd frame_sz frame src dst dir_entry (iosFree (iosFree st src_str) dst_str) }
              else let (go, st) = copy_file env de fd frame dst src_str src_path dst_str dst_path dir_entry st
                   in if go then copy_entries env de fd frame_sz frame src dst dir_entry st else Some st)"

definition fsa_copydir ::
  "service_env \<Rightarrow> dirent_layout \<Rightarrow> u32 \<Rightarrow> u32 \<Rightarrow> u32 \<Rightarrow> u8 list \<Rightarrow> u8 list \<Rightarrow> service_state \<Rightarrow> service_state option" where
  "fsa_copydir env de fd frame_sz frame src dst st =
     (case copy_open env de fd frame src dst st of
        (st, None) \<Rightarrow> Some st
      | (st, Some e) \<Rightarrow> copy_entries env de fd frame_sz frame src dst e st)"

section \<open>Mounting\<close>

text \<open>What memory holds after a pause of the thread is an argument.\<close>

definition slept :: "(mem \<Rightarrow> mem) \<Rightarrow> service_state \<Rightarrow> service_state" where
  "slept paused st = st\<lparr>smem := paused (smem st)\<rparr>"

function mount_sd_loop ::
  "service_env \<Rightarrow> (mem \<Rightarrow> mem) \<Rightarrow> u32 \<Rightarrow> u8 list \<Rightarrow> nat \<Rightarrow> u32 \<Rightarrow> service_state \<Rightarrow> service_state \<times> nat" where
  "mount_sd_loop env paused fd path i ret st =
     (if sint ret < 0
      then let (st, ret) = FSA_Mount env fd (str ''/dev/sdcard01'') path 0 0 0 st;
               st = slept paused st
           in if ret = 0xFFFCFFEA \<or> ret = 0xFFFCFFE6 \<or> 0x100 \<le> i + 1 then (st, i + 1)
              else mount_sd_loop env paused fd path (i + 1) ret st
      else (st, i))"
  by pat_completeness auto
termination
  by (relation "measure (\<lambda>(env, paused, fd, path, i, ret, st). 0x100 - i)") auto

declare mount_sd_loop.simps [simp del]

definition mount_sd ::
  "service_env \<Rightarrow> (mem \<Rightarrow> mem) \<Rightarrow> u32 \<Rightarrow> u8 list \<Rightarrow> service_state \<Rightarrow> service_state \<times> nat" where
  "mount_sd env paused fd path st =
     (let (st, ret) = FSA_Mount env fd (str ''/dev/sdcard01'') path 0 0 0 st
      in mount_sd_loop env paused fd path 1 ret st)"

partial_function (option) mount_mlc_loop ::
  "service_env \<Rightarrow> (mem \<Rightarrow> mem) \<Rightarrow> u32 \<Rightarrow> u8 list \<Rightarrow> u32 \<Rightarrow> service_state \<Rightarrow> service_state option" where
  "mount_mlc_loop env paused fd path ret st =
     (if sint ret < 0
      then let (st, ret) = FSA_Mount env fd (str ''/dev/mlc01'') path 0 0 0 st
           in mount_mlc_loop env paused fd path ret (slept paused st)
      else Some st)"

definition mount_mlc ::
  "service_env \<Rightarrow> (mem \<Rightarrow> mem) \<Rightarrow> u32 \<Rightarrow> u8 list \<Rightarrow> service_state \<Rightarrow> service_state option" where
  "mount_mlc env paused fd path st =
     (let (st, ret) = FSA_Mount env fd (str ''/dev/mlc01'') path 0 0 0 st
      in mount_mlc_loop env paused fd path ret st)"

text \<open>One of the two waits; the handle of the directory is at \<open>dir\<close>.\<close>

partial_function (option) wait_dir ::
  "service_env \<Rightarrow> (mem \<Rightarrow> mem) \<Rightarrow> u32 \<Rightarrow> u32 \<Rightarrow> u8 list \<Rightarrow> u32 \<Rightarrow> service_state \<Rightarrow> service_state option" where
  "wait_dir env paused fd dir path ret st =
     (if sint ret < 0
      then let (st, ret) = FSA_OpenDir env fd path dir (slept paused st)
           in wait_dir env paused fd dir path ret st
      else Some (fst (FSA_CloseDir env fd (read32 (smem st) dir) st)))"

definition wait_storages_ready ::
  "service_env \<Rightarrow> (mem \<Rightarrow> mem) \<Rightarrow> u32 \<Rightarrow> u32 \<Rightarrow> service_state \<Rightarrow> service_state option" where
  "wait_storages_ready env paused fd dir st =
     (let (st, ret) = FSA_OpenDir env fd (str ''/vol/sdcard/'') dir (set_local dir 0 st)
      in do {
        st \<leftarrow> wait_dir env paused fd dir (str ''/vol/sdcard/'') ret st;
        (let (st, ret) = FSA_OpenDir env fd (str ''/vol/storage_mlc01/'') dir st
         in wait_dir env paused fd dir (str ''/vol/storage_mlc01/'') ret st) })"

section \<open>Heap blocks\<close>

abbreviation held :: "service_state \<Rightarrow> u32 multiset" where "held st \<equiv> mset (live st)"

lemma held_alloc: "iosAlloc env st n = (st', p) \<Longrightarrow> held st' = add_mset p (held st)"
  by (auto simp: iosAlloc_def Let_def)

lemma held_free [simp]: "held (iosFree st p) = held st - {#p#}"
  by (simp add: iosFree_def)

lemma live_freed: "live (iosFree st p) = remove1 p (live st)"
  by (simp add: iosFree_def)

lemma drop_one: "add_mset p A \<subseteq># M \<Longrightarrow> A \<subseteq># M"
proof -
  assume "add_mset p A \<subseteq># M"
  moreover have "A \<subseteq># add_mset p A" by simp
  ultimately show ?thesis by (rule subset_mset.order_trans [rotated])
qed

lemma live_local [simp]: "live (set_local a v st) = live st" "live (put_path a path st) = live st"
  by (simp_all add: set_local_def put_path_def)

lemma live_calls:
  "live (fst (FSA_OpenDir env fd path out st)) = live st" "live (fst (FSA_CloseDir env fd h st)) = live st"
  "live (fst (FSA_MakeDir env fd path fl st)) = live st" "live (fst (FSA_ReadDir env fd h out st)) = live st"
  "live (fst (FSA_OpenFile env fd path md out st)) = live st" "live (fst (FSA_CloseFile env fd h st)) = live st"
  "live (fst (FSA_ReadFile env fd d a b h fl st)) = live st" "live (fst (FSA_WriteFile env fd d a b h fl st)) = live st"
  "live (fst (FSA_ChangeMode env fd path fl st)) = live st"
  by (simp_all add: FSA_OpenDir_def FSA_CloseDir_def FSA_MakeDir_def FSA_ReadDir_def FSA_OpenFile_def FSA_CloseFile_def
    FSA_ReadFile_def FSA_WriteFile_def FSA_ReadWriteFile_def FSA_ChangeMode_def with_iobuf_live)

lemma live_of:
  "FSA_OpenDir env fd path out st = (st', r) \<Longrightarrow> live st' = live st"
  "FSA_MakeDir env fd path fl st = (st', r) \<Longrightarrow> live st' = live st"
  "FSA_ReadDir env fd h out st = (st', r) \<Longrightarrow> live st' = live st"
  "FSA_OpenFile env fd path md out st = (st', r) \<Longrightarrow> live st' = live st"
  "FSA_ReadFile env fd d a b h fl st = (st', r) \<Longrightarrow> live st' = live st"
  "FSA_WriteFile env fd d a b h fl st = (st', r) \<Longrightarrow> live st' = live st"
  using live_calls(1) [of env fd path out st] live_calls(3) [of env fd path fl st] live_calls(4) [of env fd h out st]
    live_calls(5) [of env fd path md out st] live_calls(7) [of env fd d a b h fl st] live_calls(8) [of env fd d a b h fl st]
  by (metis fst_conv)+

lemma live_copy_loop: "copy_loop env fd buf fs fd' n off st = (st', off') \<Longrightarrow> live st' = live st"
proof (induction env fd buf fs fd' n off st rule: copy_loop.induct)
  case (1 env fd buf fs fd' n off st)
  obtain st1 r where e: "FSA_ReadFile env fd buf 1 (cur_size n off) fs 0 st = (st1, r)" by force
  obtain st2 w where e2: "FSA_WriteFile env fd buf 1 (cur_size n off) fd' 0 st1 = (st2, w)" by force
  show ?case
    using 1(2) live_of(5) [OF e] live_of(6) [OF e2] 1(1) [OF _ refl e [symmetric] refl _ e2 [symmetric] refl]
    by (subst (asm) copy_loop.simps) (auto simp: e e2 Let_def split: if_splits)
qed

text \<open>
  A file that was copied gives back its buffer and the two strings; one that fails gives back
  at most its buffer.
\<close>

lemma copy_file_held:
  assumes "copy_file env de fd frame dst a sp b dp e st = (go, st')"
  shows "if go then held st' = held st - {#a#} - {#b#} else held st \<subseteq># held st'"
proof -
  obtain s1 p where a: "iosAlloc env st BLOCK_SIZE = (s1, p)" by force
  note h = held_alloc [OF a]
  let ?s = "set_local (frame + 8) 0 (set_local (frame + 4) 0 s1)"
  obtain s2 r where o1: "FSA_OpenFile env fd sp (str ''r'') (frame + 8) ?s = (s2, r)" by force
  obtain s3 q where o2: "FSA_OpenFile env fd dp (str ''w'') (frame + 4) s2 = (s3, q)" by force
  have l: "live s2 = live s1" "live s3 = live s1" using live_of(4) [OF o1] live_of(4) [OF o2] by simp_all
  let ?f = "iosFree (iosFree s3 a) b"
  obtain s4 off where c: "copy_loop env fd p (f_src frame ?f) (f_dst frame ?f) (entry_size de (smem s3) e) 0 ?f = (s4, off)"
    by force
  have fin: "held s4 - {#p#} = held st - {#a#} - {#b#}"
    using live_copy_loop [OF c] h l by (simp add: add_mset_commute)
  note run = assms [unfolded copy_file_def Let_def a o1 o2 prod.case]
  consider "p = 0" | "p \<noteq> 0" "r \<noteq> 0" | "p \<noteq> 0" "r = 0" "q \<noteq> 0" | "p \<noteq> 0" "r = 0" "q = 0" by blast
  then show ?thesis
  proof cases
    case 4
    then have "go" "live st' = live (iosFree s4 p)"
      using run by (auto simp: c live_calls live_freed)
    then show ?thesis using fin by simp
  qed (use run h l in \<open>auto simp: live_calls o1 o2\<close>)
qed

lemma copy_open_held:
  assumes "copy_open env de fd frame src dst st = (st', e)"
  shows "case e of None \<Rightarrow> held st \<subseteq># held st' | Some p \<Rightarrow> held st' = add_mset p (held st)"
proof -
  obtain s1 r where o1: "FSA_OpenDir env fd src frame (set_local frame 0 st) = (s1, r)" by force
  obtain s2 q where o2: "FSA_MakeDir env fd dst 0x666 s1 = (s2, q)" by force
  obtain s3 p where a: "iosAlloc env s2 (sizeof_entry de) = (s3, p)" by force
  have l: "live s1 = live st" "live s2 = live s1" using live_of(1) [OF o1] live_of(2) [OF o2] by simp_all
  show ?thesis
    using assms l held_alloc [OF a]
    by (auto simp: copy_open_def o1 o2 a live_calls split: if_splits)
qed

text \<open>The copy frees no block of its caller.\<close>

lemma copy_entries_held:
  assumes "copy_entries env de fd fsz frame src dst p st = Some st'" "add_mset p A \<subseteq># held st"
  shows "A \<subseteq># held st'"
proof -
  have "\<forall>A. add_mset p A \<subseteq># held st \<longrightarrow> A \<subseteq># held st'"
  proof (rule copy_entries.raw_induct [OF _ assms(1)], goal_cases)
    case (1 f env de fd fsz frame src dst p st st')
    note IH = 1(1) [rule_format]
    show ?case
    proof (intro allI impI)
      fix A assume A: "add_mset p A \<subseteq># held st"
      obtain s1 r where rd: "FSA_ReadDir env fd (src_dir frame st) p st = (s1, r)" by force
      obtain s2 a where a: "iosAlloc env s1 0x100 = (s2, a)" by force
      obtain s3 b where b: "iosAlloc env s2 0x100 = (s3, b)" by force
      define sp where "sp = path_text src (entry_name de (smem s3) p)"
      define s4 where "s4 = put_path a sp s3"
      define dp where "dp = path_text dst (entry_name de (smem s4) p)"
      define s5 where "s5 = put_path b dp s4"
      have h: "held s5 = add_mset a (add_mset b (held st))"
        using held_alloc [OF a] held_alloc [OF b] live_of(3) [OF rd]
        by (simp add: s5_def s4_def add_mset_commute)
      note run = 1(2) [unfolded rd a b Let_def prod.case, folded sp_def, folded s4_def, folded dp_def, folded s5_def]
      consider "r \<noteq> 0" | "r = 0" "a = 0 \<or> b = 0"
        | "r = 0" "\<not> (a = 0 \<or> b = 0)" "entry_flags de (smem s5) p AND 0x80000000 \<noteq> 0"
        | "r = 0" "\<not> (a = 0 \<or> b = 0)" "entry_flags de (smem s5) p AND 0x80000000 = 0" by blast
      then show "A \<subseteq># held st'"
      proof cases
        case 1
        then have "held st' = held st - {#p#}" using run live_of(3) [OF rd] by (auto simp: live_calls)
        then show ?thesis using A by (simp add: insert_subset_eq_iff)
      next
        case 2
        then have "held st' = held s5 - {#a#} - {#b#}" using run by (auto simp: live_calls)
        then have "held st' = held st" using h by simp
          then show ?thesis using drop_one [OF A] by simp
      next
        case 3
        obtain t e where co: "copy_open env de fd (frame - fsz) sp dp s5 = (t, e)" by force
        obtain t' where t': "(if e = None then Some t else f env de fd fsz (frame - fsz) sp dp (the e) t) = Some t'"
            "f env de fd fsz frame src dst p (iosFree (iosFree t' a) b) = Some st'"
          using run 3 by (auto simp: co bind_eq_Some_conv)
        have sub: "held s5 \<subseteq># held t'"
        proof (cases e)
          case None
          then show ?thesis using copy_open_held [OF co] t'(1) by simp
        next
          case (Some x)
          then have "f env de fd fsz (frame - fsz) sp dp x t = Some t'" using t'(1) by simp
          from IH [OF this, of "held s5"] show ?thesis using copy_open_held [OF co] Some by simp
        qed
        have "add_mset p A \<subseteq># held (iosFree (iosFree t' a) b)"
        proof -
          have "add_mset a (add_mset b (add_mset p A)) \<subseteq># held t'" using sub A h
            by (intro subset_mset.order_trans [OF _ sub]) simp
          then show ?thesis by (simp add: insert_subset_eq_iff)
        qed
        from IH [OF t'(2) this] show ?thesis .
      next
        case 4
        obtain go t where cf: "copy_file env de fd frame dst a sp b dp p s5 = (go, t)" by force
        note F = copy_file_held [OF cf]
        show ?thesis
        proof (cases go)
          case True
          then have r: "f env de fd fsz frame src dst p t = Some st'" using run 4 by (simp add: cf)
          have "held t = held st" using F True h by simp
          then show ?thesis using IH [OF r] A by simp
        next
          case False
          then have "st' = t" using run 4 by (simp add: cf)
          then have "held s5 \<subseteq># held st'" using F False by simp
          then have x: "add_mset a (add_mset b (held st)) \<subseteq># held st'" by (simp only: h)
          have "held st \<subseteq># held st'" by (rule drop_one [OF drop_one [OF x]])
          with drop_one [OF A] show ?thesis by (rule subset_mset.order_trans)
        qed
      qed
    qed
  qed
  then show ?thesis using assms(2) by blast
qed

section \<open>Properties\<close>

text \<open>A copy that does not reach the end of a file stops after whole blocks.\<close>

lemma copy_loop_offset:
  assumes "copy_loop env fd buf fs fd' n off st = (st', off')" "off \<le> n" "unat BLOCK_SIZE dvd unat off"
  shows "off' \<le> n \<and> (off' = n \<or> unat BLOCK_SIZE dvd unat off')"
  using assms
proof (induction env fd buf fs fd' n off st rule: copy_loop.induct)
  case (1 env fd buf fs fd' n off st)
  show ?case
  proof (cases "off < n")
    case True
    let ?c = "cur_size n off"
    obtain st1 r where e: "FSA_ReadFile env fd buf 1 ?c fs 0 st = (st1, r)" by force
    obtain st2 w where e2: "FSA_WriteFile env fd buf 1 ?c fd' 0 st1 = (st2, w)" by force
    note b = cur_size_bounds [OF True]
    show ?thesis
    proof (cases "r = ?c \<and> w = ?c")
      case ok: True
      then have run: "copy_loop env fd buf fs fd' n (off + ?c) st2 = (st', off')"
        using 1(2) True by (subst (asm) copy_loop.simps) (simp add: e e2 Let_def)
      show ?thesis
      proof (cases "off + ?c = n")
        case True
        then show ?thesis using run by (subst (asm) copy_loop.simps) simp
      next
        case False
        then have "?c = BLOCK_SIZE" by (auto simp: cur_size_def)
        then have "unat BLOCK_SIZE dvd unat (off + ?c)" using 1(4) b(3) by simp
        then show ?thesis
          using 1(1) [OF True refl e [symmetric] refl _ e2 [symmetric] refl] ok run b(4) by blast
      qed
    next
      case False
      then have "off' = off" using 1(2) True by (subst (asm) copy_loop.simps) (auto simp: e e2 Let_def split: if_splits)
      then show ?thesis using 1(3,4) by simp
    qed
  next
    case False
    then have "off' = off" "off = n" using 1(2,3) by (subst (asm) copy_loop.simps, simp)+
    then show ?thesis by simp
  qed
qed

text \<open>
  C39. Copying a tree frees only what it allocated: whatever the file system answers, and however
  deep the tree is, every heap block that was live before is live afterwards.
\<close>

theorem copydir_frees_own:
  assumes "fsa_copydir env de fd fsz frame src dst st = Some st'"
  shows "mset (live st) \<subseteq># mset (live st')"
proof -
  obtain s e where o': "copy_open env de fd frame src dst st = (s, e)" by force
  show ?thesis
  proof (cases e)
    case None
    then show ?thesis using assms copy_open_held [OF o'] by (simp add: fsa_copydir_def o')
  next
    case (Some p)
    then have "copy_entries env de fd fsz frame src dst p s = Some st'" using assms by (simp add: fsa_copydir_def o')
    then show ?thesis using copy_open_held [OF o'] Some by (elim copy_entries_held) simp
  qed
qed

text \<open>
  The converse fails: here the source file cannot be opened, and the entry buffer and both
  strings are never freed.
\<close>

definition demo_fs :: service_env where
  "demo_fs = \<lparr> alloc = (\<lambda>_ _. 0x10000000), alloc_aligned = (\<lambda>_ _ _. 0),
     ioctl_svc = (\<lambda>m _ cmd _ _ _ _. (m, if cmd = 0x0E then 5 else 0)), ioctlv_svc = (\<lambda>m _ _ _ _ _. (m, 0)),
     open_svc = (\<lambda>_. 3), close_svc = (\<lambda>_. 0) \<rparr>"

definition demo_entry :: dirent_layout where
  "demo_entry = \<lparr> sizeof_entry = 0x164, entry_flags = (\<lambda>_ _. 0), entry_size = (\<lambda>_ _. 16), entry_name = (\<lambda>_ _. str ''a'') \<rparr>"

lemma demo_calls:
  "FSA_OpenDir demo_fs fd path out st = (s, r) \<Longrightarrow> r = 0" "FSA_MakeDir demo_fs fd path fl st = (s, r) \<Longrightarrow> r = 0"
  "FSA_ReadDir demo_fs fd h out st = (s, r) \<Longrightarrow> r = 0" "FSA_OpenFile demo_fs fd path md out st = (s, r) \<Longrightarrow> r = 5"
  by (auto simp: FSA_OpenDir_def FSA_MakeDir_def FSA_ReadDir_def FSA_OpenFile_def with_iobuf_def fsa_ioctl_def
    out_handle_def out_copy_opt_def out_copy_def demo_fs_def split_beta)

lemma demo_alloc: "iosAlloc demo_fs st n = (st\<lparr>live := 0x10000000 # live st\<rparr>, 0x10000000)"
  by (simp add: iosAlloc_def demo_fs_def)

lemma demo_copy_file:
  "\<exists>t. copy_file demo_fs demo_entry fd frame dst a sp b dp p st = (False, t) \<and> live t = live st"
proof -
  let ?s = "set_local (frame + 8) 0 (set_local (frame + 4) 0 (st\<lparr>live := 0x10000000 # live st\<rparr>))"
  obtain s2 where o': "FSA_OpenFile demo_fs fd sp (str ''r'') (frame + 8) ?s = (s2, 5)"
    using demo_calls(4) by (metis surj_pair)
  then show ?thesis using live_of(4) [OF o'] by (simp add: copy_file_def demo_alloc Let_def live_calls live_freed)
qed

lemma copydir_leaks:
  "\<exists>st'. fsa_copydir demo_fs demo_entry fd fsz frame src dst st = Some st' \<and>
    live st' = [0x10000000, 0x10000000, 0x10000000] @ live st"
proof -
  obtain s1 where o1: "FSA_OpenDir demo_fs fd src frame (set_local frame 0 st) = (s1, 0)"
    using demo_calls(1) by (metis surj_pair)
  obtain s2 where o2: "FSA_MakeDir demo_fs fd dst 0x666 s1 = (s2, 0)" using demo_calls(2) by (metis surj_pair)
  let ?s = "s2\<lparr>live := 0x10000000 # live s2\<rparr>"
  have op: "copy_open demo_fs demo_entry fd frame src dst st = (?s, Some 0x10000000)"
    by (simp add: copy_open_def o1 o2 demo_alloc)
  obtain s3 where rd: "FSA_ReadDir demo_fs fd (src_dir frame ?s) 0x10000000 ?s = (s3, 0)"
    using demo_calls(3) by (metis surj_pair)
  have l: "live s3 = 0x10000000 # live st"
    using live_of(1) [OF o1] live_of(2) [OF o2] live_of(3) [OF rd] by simp
  let ?b = "s3\<lparr>live := 0x10000000 # 0x10000000 # live s3\<rparr>"
  define sp where "sp = path_text src (str ''a'')"
  define dp where "dp = path_text dst (str ''a'')"
  obtain t where "copy_file demo_fs demo_entry fd frame dst 0x10000000 sp 0x10000000 dp 0x10000000
      (put_path 0x10000000 dp (put_path 0x10000000 sp ?b)) = (False, t)" and t: "live t = live ?b"
    using demo_copy_file [of fd frame dst "0x10000000" sp "0x10000000" dp "0x10000000"
      "put_path 0x10000000 dp (put_path 0x10000000 sp ?b)"] by auto
  then have "copy_entries demo_fs demo_entry fd fsz frame src dst 0x10000000 ?s = Some t"
    by (subst copy_entries.simps)
      (simp add: rd demo_alloc demo_entry_def Let_def sp_def dp_def put_path_def)
  then show ?thesis using l t by (simp add: fsa_copydir_def op)
qed

theorem copydir_frees_own_witness:
  "\<exists>st'. fsa_copydir demo_fs demo_entry 3 0x100 0x800 (str ''/a'') (str ''/b'') \<lparr> smem = (\<lambda>_. 0), live = [7] \<rparr> = Some st' \<and>
    {#7#} \<subseteq># mset (live st')"
proof -
  obtain st' where "fsa_copydir demo_fs demo_entry 3 0x100 0x800 (str ''/a'') (str ''/b'') \<lparr> smem = (\<lambda>_. 0), live = [7] \<rparr> = Some st'"
    using copydir_leaks by blast
  with copydir_frees_own [OF this] show ?thesis by simp
qed

text \<open>
  Mounting the SD card always ends: it asks the service at most 256 times, whatever the
  answers are, and keeps no heap block.
\<close>

lemma mount_sd_bounded:
  "snd (mount_sd env paused fd path st) \<le> 0x100 \<and> live (fst (mount_sd env paused fd path st)) = live st"
proof -
  have mnt: "live (fst (FSA_Mount env fd dev path 0 0 0 s)) = live s" for dev s
    by (simp add: FSA_Mount_def with_iobuf_live)
  have loop: "snd (mount_sd_loop env paused fd path i ret s) \<le> 0x100 \<and>
      live (fst (mount_sd_loop env paused fd path i ret s)) = live s" if "i < 0x100" for i ret s
    using that
  proof (induction env paused fd path i ret s rule: mount_sd_loop.induct)
    case (1 env paused fd path i ret s)
    obtain s1 r where m: "FSA_Mount env fd (str ''/dev/sdcard01'') path 0 0 0 s = (s1, r)" by force
    have "live (fst (FSA_Mount env fd (str ''/dev/sdcard01'') path 0 0 0 s)) = live s"
      by (simp add: FSA_Mount_def with_iobuf_live)
    then have l: "live s1 = live s" by (simp add: m)
    show ?case
      using 1(1) [OF _ m [symmetric] refl refl] 1(2) l
      by (subst (1 2) mount_sd_loop.simps) (auto simp: m slept_def Let_def)
  qed
  obtain s r where "FSA_Mount env fd (str ''/dev/sdcard01'') path 0 0 0 st = (s, r)" by force
  then show ?thesis using loop [of 1 r s] mnt [of "str ''/dev/sdcard01''" st] by (simp add: mount_sd_def)
qed

end
