(* ===== verification/Screen.thy ===== *)
theory Screen
  imports Machine
begin

text \<open>
  The text output of the server plugin (\<^verbatim>\<open>wafel_plugin_wupserver/source/text.c\<close>).  The frame
  buffer is memory: rows of 896 pixels, a word each.  The font is an argument: its array is
  compiled into the loader, which the plugin is linked with at run time, and only when
  \<^verbatim>\<open>PRINT_WELCOME\<close> is set.  Formatting and the system log are library calls.
\<close>

definition FRAMEBUFFER_ADDRESS :: u32 where "FRAMEBUFFER_ADDRESS = 0x14000000 + 0x38C0000"
definition FRAMEBUFFER_STRIDE :: nat where "FRAMEBUFFER_STRIDE = 0xE00"
definition FRAMEBUFFER_STRIDE_WORDS :: nat where "FRAMEBUFFER_STRIDE_WORDS = FRAMEBUFFER_STRIDE div 4"
definition CHAR_SIZE_X :: nat where "CHAR_SIZE_X = 8"
definition CHAR_SIZE_Y :: nat where "CHAR_SIZE_Y = 8"

text \<open>The address of pixel \<open>(x, y)\<close>; coordinates are signed.\<close>

definition pixel :: "int \<Rightarrow> int \<Rightarrow> u32" where
  "pixel x y = FRAMEBUFFER_ADDRESS + 4 * word_of_int (x + y * int FRAMEBUFFER_STRIDE_WORDS)"

definition clearScreen :: "u32 \<Rightarrow> mem \<Rightarrow> mem" where
  "clearScreen color m =
     foldl (\<lambda>m i. write32 m (FRAMEBUFFER_ADDRESS + of_nat (4 * i)) color) m [0..<896 * 504]"

text \<open>One row of a glyph: \<open>n\<close> pixels are left, \<open>v\<close> holds their bits.\<close>

fun draw_row :: "nat \<Rightarrow> u8 \<Rightarrow> u32 \<Rightarrow> mem \<Rightarrow> u32 \<times> mem" where
  "draw_row 0 v fb m = (fb, m)"
| "draw_row (Suc n) v fb m =
     draw_row n (drop_bit 1 v) (fb + 4) (write32 m fb (if v AND 1 \<noteq> 0 then 0x00000000 else 0xFFFFFFFF))"

fun draw_rows :: "nat \<Rightarrow> (nat \<Rightarrow> u8) \<Rightarrow> nat \<Rightarrow> u32 \<Rightarrow> mem \<Rightarrow> mem" where
  "draw_rows 0 font charData fb m = m"
| "draw_rows (Suc n) font charData fb m =
     (let (fb, m) = draw_row CHAR_SIZE_X (font charData) fb m
      in draw_rows n font (Suc charData) (fb + of_nat (4 * (FRAMEBUFFER_STRIDE_WORDS - CHAR_SIZE_X))) m)"

text \<open>\<^verbatim>\<open>char\<close> is unsigned on this processor.\<close>

definition drawCharacter :: "(nat \<Rightarrow> u8) \<Rightarrow> u8 \<Rightarrow> int \<Rightarrow> int \<Rightarrow> mem \<Rightarrow> mem" where
  "drawCharacter font c x y m =
     (if unat c < 32 then m
      else draw_rows CHAR_SIZE_Y font ((CHAR_SIZE_X * CHAR_SIZE_Y * (unat c - 32)) div 8) (pixel x y) m)"

text \<open>\<open>dx\<close> and \<open>dy\<close> are the pen; a newline moves it up, as the picture is stored upside down.\<close>

fun draw_chars :: "(nat \<Rightarrow> u8) \<Rightarrow> u8 list \<Rightarrow> int \<Rightarrow> int \<Rightarrow> int \<Rightarrow> int \<Rightarrow> mem \<Rightarrow> mem" where
  "draw_chars font [] x y dx dy m = m"
| "draw_chars font (c # str) x y dx dy m =
     (if c = 0 then m
      else
        let m = (if 32 \<le> unat c \<and> unat c < 128 then drawCharacter font c (x + dx) (y + dy) m else m);
            dx = dx + 8
        in if c = 10 then draw_chars font str x y 0 (dy - 8) m else draw_chars font str x y dx dy m)"

definition drawString :: "(nat \<Rightarrow> u8) \<Rightarrow> u8 list option \<Rightarrow> int \<Rightarrow> int \<Rightarrow> mem \<Rightarrow> mem" where
  "drawString font str x y m = (case str of None \<Rightarrow> m | Some s \<Rightarrow> draw_chars font s x y 0 0 m)"

text \<open>
  \<^verbatim>\<open>print\<close> and \<^verbatim>\<open>print_log\<close>: what \<^verbatim>\<open>vsnprintf\<close> makes of the arguments is \<open>formatted\<close>, cut to the
  static buffer.  The results are memory and the calls in their order.
\<close>

datatype output_call = SysWrite "u8 list" | SyslogOutput "u8 list"

definition print_buffer :: "u8 list \<Rightarrow> u8 list" where
  "print_buffer formatted = takeWhile (\<lambda>c. c \<noteq> 0) (take 0xFE formatted)"

definition print_log ::
  "(nat \<Rightarrow> u8) \<Rightarrow> int \<Rightarrow> int \<Rightarrow> u8 list \<Rightarrow> mem \<Rightarrow> mem \<times> output_call list" where
  "print_log font x y formatted m =
     (let buffer = print_buffer formatted
      in (drawString font (Some buffer) x y m, [SysWrite buffer, SysWrite [10], SyslogOutput buffer]))"

definition print_screen ::
  "(nat \<Rightarrow> u8) \<Rightarrow> int \<Rightarrow> int \<Rightarrow> u8 list \<Rightarrow> mem \<Rightarrow> mem \<times> output_call list" where
  "print_screen font x y formatted m =
     (let buffer = print_buffer formatted
      in (drawString font (Some buffer) x y m, [SysWrite buffer, SysWrite [10]]))"

section \<open>Pixels\<close>

text \<open>Word \<open>k\<close> of the frame buffer; the coordinates of a pixel give its number.\<close>

definition cell :: "u32 \<Rightarrow> nat \<Rightarrow> u32" where "cell fb k = fb + of_nat (4 * k)"

lemma cell_apart:
  assumes "k \<noteq> l" "k < 2 ^ 20" "l < 2 ^ 20"
  shows "disjoint_regions (cell fb k) 4 (cell fb l) 4"
  unfolding cell_def using assms by (intro disjoint_nat) auto

lemma cell_far:
  assumes "\<forall>l\<in>S. 4 \<le> adist (cell fb l) a" "k \<in> S"
  shows "write32 m (cell fb k) v a = m a"
  using assms by (intro write32_other) simp

lemma read_cell:
  assumes "k < 2 ^ 20" "l < 2 ^ 20"
  shows "read32 (write32 m (cell fb k) v) (cell fb l) = (if k = l then v else read32 m (cell fb l))"
  using cell_apart [OF _ assms, of fb] by (auto simp: read32_write32_other)

lemma draw_row_cells:
  assumes "k + n \<le> 2 ^ 20"
  shows "draw_row n v (cell fb k) m = (fb', m') \<Longrightarrow>
    fb' = cell fb (k + n) \<and>
    (\<forall>l < 2 ^ 20. read32 m' (cell fb l) =
      (if k \<le> l \<and> l < k + n then if bit v (l - k) then 0 else 0xFFFFFFFF else read32 m (cell fb l))) \<and>
    (\<forall>a. (\<forall>l. k \<le> l \<and> l < k + n \<longrightarrow> 4 \<le> adist (cell fb l) a) \<longrightarrow> m' a = m a)"
  using assms
proof (induction n arbitrary: v k m)
  case (Suc n)
  let ?w = "write32 m (cell fb k) (if v AND 1 \<noteq> 0 then 0 else 0xFFFFFFFF)"
  have c: "cell fb k + 4 = cell fb (Suc k)" by (simp add: cell_def)
  have b: "v AND 1 \<noteq> 0 \<longleftrightarrow> bit v 0" by (simp add: and_one_eq odd_iff_mod_2_eq_one bit_0)
  have r: "draw_row n (drop_bit 1 v) (cell fb (Suc k)) ?w = (fb', m')" using Suc.prems(1) by (simp add: c)
  have IH: "fb' = cell fb (Suc k + n)"
    "l < 2 ^ 20 \<Longrightarrow> read32 m' (cell fb l) =
      (if Suc k \<le> l \<and> l < Suc k + n then if bit (drop_bit 1 v) (l - Suc k) then 0 else 0xFFFFFFFF else read32 ?w (cell fb l))"
    "(\<forall>l. Suc k \<le> l \<and> l < Suc k + n \<longrightarrow> 4 \<le> adist (cell fb l) a) \<Longrightarrow> m' a = ?w a" for l a
    using Suc.IH [OF r] Suc.prems(2) by auto
  have kb: "k < 2 ^ 20" using Suc.prems(2) by simp
  have "read32 m' (cell fb l) =
      (if k \<le> l \<and> l < k + Suc n then if bit v (l - k) then 0 else 0xFFFFFFFF else read32 m (cell fb l))"
    if "l < 2 ^ 20" for l
    using IH(2) [OF that] read_cell [OF kb that, of m fb] b that
    by (cases "l = k") (auto simp: bit_drop_bit_eq Suc_diff_Suc)
  moreover have "m' a = m a" if "\<forall>l. k \<le> l \<and> l < k + Suc n \<longrightarrow> 4 \<le> adist (cell fb l) a" for a
  proof -
    have "m' a = ?w a" using that by (intro IH(3)) auto
    also have "\<dots> = m a" using that by (intro write32_other) simp
    finally show ?thesis .
  qed
  ultimately show ?case using IH(1) by simp
qed auto

text \<open>The pixels of the next \<open>n\<close> rows of a glyph whose corner is word \<open>k\<close>.\<close>

definition glyph_cell :: "nat \<Rightarrow> nat \<Rightarrow> nat \<Rightarrow> bool" where
  "glyph_cell n k l \<longleftrightarrow> k \<le> l \<and> (l - k) div 896 < n \<and> (l - k) mod 896 < 8"

lemma glyph_cell_Suc:
  "glyph_cell (Suc n) k l \<longleftrightarrow> k \<le> l \<and> l < k + 8 \<or> glyph_cell n (k + 896) l"
proof (cases "k + 896 \<le> l")
  case True
  then obtain d where d: "l = k + 896 + d" by (auto simp: le_iff_add)
  then have "(l - k) div 896 = Suc (d div 896)" "(l - k) mod 896 = d mod 896" by simp_all
  then show ?thesis by (simp add: glyph_cell_def d)
next
  case False
  then show ?thesis by (cases "k \<le> l") (auto simp: glyph_cell_def)
qed

lemma draw_rows_cells:
  assumes "k + 896 * n \<le> 2 ^ 20"
  shows "(\<forall>l < 2 ^ 20. read32 (draw_rows n font q (cell fb k) m) (cell fb l) =
      (if glyph_cell n k l then if bit (font (q + (l - k) div 896)) ((l - k) mod 896) then 0 else 0xFFFFFFFF
       else read32 m (cell fb l))) \<and>
    (\<forall>a. (\<forall>l. glyph_cell n k l \<longrightarrow> 4 \<le> adist (cell fb l) a) \<longrightarrow> draw_rows n font q (cell fb k) m a = m a)"
  using assms
proof (induction n arbitrary: q k m)
  case 0
  then show ?case by (simp add: glyph_cell_def)
next
  case (Suc n)
  obtain fb' w where r: "draw_row CHAR_SIZE_X (font q) (cell fb k) m = (fb', w)" by force
  have k8: "k + 8 \<le> 2 ^ 20" using Suc.prems by simp
  note row = draw_row_cells [of k 8, OF k8, of "font q" fb m fb' w]
  have R: "fb' = cell fb (k + 8)"
    "l < 2 ^ 20 \<Longrightarrow> read32 w (cell fb l) =
      (if k \<le> l \<and> l < k + 8 then if bit (font q) (l - k) then 0 else 0xFFFFFFFF else read32 m (cell fb l))"
    "(\<forall>l. k \<le> l \<and> l < k + 8 \<longrightarrow> 4 \<le> adist (cell fb l) a) \<Longrightarrow> w a = m a" for l a
    using row r by (auto simp: CHAR_SIZE_X_def)
  have n: "fb' + 4 * of_nat (FRAMEBUFFER_STRIDE_WORDS - CHAR_SIZE_X) = cell fb (k + 896)"
    by (simp add: R(1) cell_def FRAMEBUFFER_STRIDE_WORDS_def FRAMEBUFFER_STRIDE_def CHAR_SIZE_X_def)
  let ?m = "draw_rows n font (Suc q) (cell fb (k + 896)) w"
  have e: "draw_rows (Suc n) font q (cell fb k) m = ?m" by (simp add: r n)
  have "k + 896 + 896 * n \<le> 2 ^ 20" using Suc.prems by simp
  note IH = Suc.IH [OF this, of "Suc q" w]
  have "read32 ?m (cell fb l) =
      (if glyph_cell (Suc n) k l then if bit (font (q + (l - k) div 896)) ((l - k) mod 896) then 0 else 0xFFFFFFFF
       else read32 m (cell fb l))" if l: "l < 2 ^ 20" for l
  proof (cases "glyph_cell n (k + 896) l")
    case True
    then obtain d where d: "l = k + 896 + d" by (auto simp: glyph_cell_def le_iff_add)
    have "q + (l - k) div 896 = Suc q + (l - (k + 896)) div 896" "(l - k) mod 896 = (l - (k + 896)) mod 896"
      by (simp_all add: d)
    then show ?thesis using IH l True by (simp add: glyph_cell_Suc)
  next
    case False
    then have "read32 ?m (cell fb l) = read32 w (cell fb l)" using IH l by simp
    then show ?thesis using R(2) [OF l] False by (auto simp: glyph_cell_Suc)
  qed
  moreover have "?m a = m a" if a: "\<forall>l. glyph_cell (Suc n) k l \<longrightarrow> 4 \<le> adist (cell fb l) a" for a
  proof -
    have "?m a = w a" using IH a by (auto simp: glyph_cell_Suc)
    then show ?thesis using R(3) [of a] a by (auto simp: glyph_cell_Suc)
  qed
  ultimately show ?case unfolding e by blast
qed

lemma pixel_cell: "pixel (x + int j) (y + int i) = cell (pixel x y) (896 * i + j)"
  by (simp add: pixel_def cell_def FRAMEBUFFER_STRIDE_WORDS_def FRAMEBUFFER_STRIDE_def algebra_simps)

text \<open>
  A glyph: every one of its 64 pixels is black or white as the bit of its row in the font
  says, the lowest bit leftmost, and no other byte of memory changes.
\<close>

lemma drawCharacter_glyph:
  assumes "32 \<le> unat c"
  shows "(\<forall>i<8. \<forall>j<8. read32 (drawCharacter font c x y m) (pixel (x + int j) (y + int i)) =
      (if bit (font (8 * (unat c - 32) + i)) j then 0 else 0xFFFFFFFF)) \<and>
    (\<forall>a. (\<forall>i<8. \<forall>j<8. 4 \<le> adist (pixel (x + int j) (y + int i)) a) \<longrightarrow> drawCharacter font c x y m a = m a)"
proof -
  have e: "drawCharacter font c x y m = draw_rows 8 font (8 * (unat c - 32)) (cell (pixel x y) 0) m"
    using assms by (simp add: drawCharacter_def CHAR_SIZE_X_def CHAR_SIZE_Y_def cell_def)
  note G = draw_rows_cells [of 0 8 font "8 * (unat c - 32)" "pixel x y" m]
  have "read32 (drawCharacter font c x y m) (pixel (x + int j) (y + int i)) =
      (if bit (font (8 * (unat c - 32) + i)) j then 0 else 0xFFFFFFFF)" if "i < 8" "j < 8" for i j
  proof -
    have l: "896 * i + j < 2 ^ 20" "glyph_cell 8 0 (896 * i + j)" "(896 * i + j) div 896 = i" "(896 * i + j) mod 896 = j"
      using that by (simp_all add: glyph_cell_def)
    then show ?thesis using G unfolding e pixel_cell by simp
  qed
  moreover have "drawCharacter font c x y m a = m a"
    if a: "\<forall>i<8. \<forall>j<8. 4 \<le> adist (pixel (x + int j) (y + int i)) a" for a
  proof -
    have "4 \<le> adist (cell (pixel x y) l) a" if "glyph_cell 8 0 l" for l
    proof -
      have "l = 896 * (l div 896) + l mod 896" by simp
      moreover have "l div 896 < 8" "l mod 896 < 8" using that by (simp_all add: glyph_cell_def)
      ultimately show ?thesis using a pixel_cell by metis
    qed
    then show ?thesis using G unfolding e by simp
  qed
  ultimately show ?thesis by blast
qed

theorem drawCharacter_glyph_witness:
  "read32 (drawCharacter (\<lambda>_. 0x18) 0x41 10 20 (\<lambda>_. 0)) (pixel (10 + int 3) (20 + int 7)) = 0"
  using drawCharacter_glyph [of "0x41" "\<lambda>_. 0x18" 10 20 "\<lambda>_. 0", THEN conjunct1, rule_format, of 7 3]
  by (simp add: bit_numeral_rec)

end
