(* ===== verification/SdRedirect.thy ===== *)
theory SdRedirect
  imports Rednand
begin

text \<open>
  The hooks of \<^verbatim>\<open>patch_asm.S\<close> that redirect the SLC chips to the SD card.  They are assembly; each
  is a function of the registers and stack words it reads, and what it does is the list of the
  calls it makes.  Handles and results of calls are an environment.  A hook that goes on with the
  code it replaced yields \<open>OriginalCode\<close>.
\<close>

section \<open>Commands to the SD card\<close>

record rw_command =
  rw_cnt :: u32
  rw_block_size :: u32
  rw_type :: u32
  rw_data :: u32
  rw_offset_high :: u32
  rw_offset_low :: u32

datatype sd_call =
    CreateSem
  | WaitSem u32
  | SignalSem u32
  | DestroySem u32
  | Command u32 rw_command
  | RegisterDevice u32 u32
  | Callback u32 u32 u32
  | Msleep u32

text \<open>
  The access mutex, the handle of a new semaphore, the result of handing a command to the driver,
  and what the driver's callback reports for it.
\<close>

record sd_env =
  sdcard_access_mutex :: u32
  new_sem :: u32
  do_command :: "rw_command \<Rightarrow> u32"
  reported :: "rw_command \<Rightarrow> u32"

text \<open>Halving the block size down to a sector; count and offset are doubled, and wrap.\<close>

function block_size_adjust :: "u32 \<Rightarrow> u32 \<Rightarrow> u32 \<Rightarrow> u32 \<times> u32 \<times> u32" where
  "block_size_adjust block_size cnt offset =
     (if sint block_size > 0x200
      then block_size_adjust (drop_bit 1 block_size) (push_bit 1 cnt) (push_bit 1 offset)
      else (block_size, cnt, offset))"
  by pat_completeness auto

termination block_size_adjust
proof (relation "measure (\<lambda>(b, _, _). unat b)")
  fix block_size cnt offset :: u32
  assume "sint block_size > 0x200"
  then have "block_size \<noteq> 0" by auto
  then have "0 < unat block_size" by (simp add: unat_gt_0)
  then show "((drop_bit 1 block_size, push_bit 1 cnt, push_bit 1 offset), block_size, cnt, offset)
      \<in> measure (\<lambda>(b, _, _). unat b)"
    by (simp add: drop_bit_eq_div unat_div)
qed simp

declare block_size_adjust.simps [simp del]

definition rw_paramstruct :: "u32 \<Rightarrow> u32 \<Rightarrow> u32 \<Rightarrow> u32 \<Rightarrow> u32 \<Rightarrow> rw_command" where
  "rw_paramstruct rd data cnt block_size offset =
     (let (block_size, cnt, offset) = block_size_adjust block_size cnt offset
      in \<lparr>rw_cnt = cnt, rw_block_size = block_size, rw_type = (if rd \<noteq> 0 then 3 else 0), rw_data = data,
          rw_offset_high = 0, rw_offset_low = offset\<rparr>)"

definition sdcard_readwrite ::
  "sd_env \<Rightarrow> u32 \<Rightarrow> u32 \<Rightarrow> u32 \<Rightarrow> u32 \<Rightarrow> u32 \<Rightarrow> u32 \<Rightarrow> sd_call list \<times> u32 \<times> u32" where
  "sdcard_readwrite env rd data cnt block_size offset device =
     (let c = rw_paramstruct rd data cnt block_size offset; sem = new_sem env; r = do_command env c
      in ([WaitSem (sdcard_access_mutex env), CreateSem, WaitSem sem, Command device c] @
          (if r = 0 then [WaitSem sem] else []) @
          [DestroySem sem, SignalSem (sdcard_access_mutex env)], r, reported env c))"

definition readWriteCallback_patch ::
  "sd_env \<Rightarrow> u32 \<Rightarrow> u32 \<Rightarrow> u32 \<Rightarrow> u32 \<Rightarrow> u32 \<Rightarrow> u32 \<Rightarrow> u32 \<Rightarrow> u32 \<Rightarrow> sd_call list \<times> u32" where
  "readWriteCallback_patch env rd offset_offset offset_low cnt block_size data callback param =
     (let (calls, r, arg2) = sdcard_readwrite env rd data cnt block_size (offset_low + offset_offset) 0xDA
      in (calls @ (if r = 0 \<and> callback \<noteq> 0 then [Callback callback arg2 param] else []), r))"

section \<open>Redirecting the SLC\<close>

datatype redirected = OriginalCode | Redirected "sd_call list \<times> u32"

text \<open>
  \<open>chip\<close> is the second word of the physical device: the SLC when it is not zero, otherwise the SLC of
  the vWii.  The offset of the partition counts sectors, the request pages of four.
\<close>

definition slc_off :: "rednand_state \<Rightarrow> u32 \<Rightarrow> u32" where
  "slc_off st chip = (if chip \<noteq> 0 then redslc_off_sectors st else redslccmpt_off_sectors st)"

definition slc_size :: "rednand_state \<Rightarrow> u32 \<Rightarrow> u32" where
  "slc_size st chip = (if chip \<noteq> 0 then redslc_size_sectors st else redslccmpt_size_sectors st)"

definition slcReadWrite_patch ::
  "sd_env \<Rightarrow> rednand_state \<Rightarrow> u32 \<Rightarrow> u32 \<Rightarrow> u32 \<Rightarrow> u32 \<Rightarrow> u32 \<Rightarrow> u32 \<Rightarrow> u32 \<Rightarrow> u32 \<Rightarrow> sd_call list \<times> u32" where
  "slcReadWrite_patch env st chip rd offset_low cnt block_size data callback param =
     readWriteCallback_patch env rd (drop_bit 2 (slc_off st chip)) offset_low cnt block_size data callback param"

text \<open>The words on the stack of the first kind of access: block size, data, callback and its argument.\<close>

definition slcRead1_patch :: "sd_env \<Rightarrow> rednand_state \<Rightarrow> u32 \<Rightarrow> u32 \<Rightarrow> u32 \<Rightarrow> (nat \<Rightarrow> u32) \<Rightarrow> redirected" where
  "slcRead1_patch env st chip offset_low cnt args =
     (if slc_size st chip = 0 then OriginalCode
      else Redirected (slcReadWrite_patch env st chip 1 offset_low cnt (args 0) (args 1) (args 2) (args 3)))"

definition slcWrite1_patch :: "sd_env \<Rightarrow> rednand_state \<Rightarrow> u32 \<Rightarrow> u32 \<Rightarrow> u32 \<Rightarrow> (nat \<Rightarrow> u32) \<Rightarrow> redirected" where
  "slcWrite1_patch env st chip offset_low cnt args =
     (if slc_size st chip = 0 then OriginalCode
      else Redirected (slcReadWrite_patch env st chip 0 offset_low cnt (args 0) (args 1) (args 2) (args 3)))"

text \<open>The second kind has two words more, which the patch leaves out, the spare area among them.\<close>

definition slcRead2_patch :: "sd_env \<Rightarrow> rednand_state \<Rightarrow> u32 \<Rightarrow> u32 \<Rightarrow> u32 \<Rightarrow> (nat \<Rightarrow> u32) \<Rightarrow> redirected" where
  "slcRead2_patch env st chip offset_low cnt args =
     (if slc_size st chip = 0 then OriginalCode
      else Redirected (slcReadWrite_patch env st chip 1 offset_low cnt (args 0) (args 2) (args 4) (args 5)))"

definition slcWrite2_patch :: "sd_env \<Rightarrow> rednand_state \<Rightarrow> u32 \<Rightarrow> u32 \<Rightarrow> u32 \<Rightarrow> (nat \<Rightarrow> u32) \<Rightarrow> redirected" where
  "slcWrite2_patch env st chip offset_low cnt args =
     (if slc_size st chip = 0 then OriginalCode
      else Redirected (slcReadWrite_patch env st chip 0 offset_low cnt (args 0) (args 2) (args 4) (args 5)))"

text \<open>
  Accesses to the card itself take the same path.  \<^verbatim>\<open>redmlc_size_sectors\<close> is a word that nothing
  sets.
\<close>

definition sdcardReadWrite_patch ::
  "sd_env \<Rightarrow> u32 \<Rightarrow> u32 \<Rightarrow> u32 \<Rightarrow> u32 \<Rightarrow> u32 \<Rightarrow> (nat \<Rightarrow> u32) \<Rightarrow> redirected" where
  "sdcardReadWrite_patch env redmlc_size_sectors dtype rd offset_low cnt args =
     (if dtype = 5 \<and> redmlc_size_sectors = 0 then OriginalCode
      else Redirected (readWriteCallback_patch env rd 0 offset_low cnt (args 0) (args 1) (args 2) (args 3)))"

definition sdcardRead_patch :: "sd_env \<Rightarrow> u32 \<Rightarrow> u32 \<Rightarrow> u32 \<Rightarrow> u32 \<Rightarrow> (nat \<Rightarrow> u32) \<Rightarrow> redirected" where
  "sdcardRead_patch env sectors dtype offset_low cnt args = sdcardReadWrite_patch env sectors dtype 1 offset_low cnt args"

definition sdcardWrite_patch :: "sd_env \<Rightarrow> u32 \<Rightarrow> u32 \<Rightarrow> u32 \<Rightarrow> u32 \<Rightarrow> (nat \<Rightarrow> u32) \<Rightarrow> redirected" where
  "sdcardWrite_patch env sectors dtype offset_low cnt args = sdcardReadWrite_patch env sectors dtype 0 offset_low cnt args"

section \<open>The driver thread\<close>

definition FS_MMC_SDCARD_STRUCT :: u32 where "FS_MMC_SDCARD_STRUCT = 0x1089B9F8"

text \<open>\<open>Some\<close> is the result of the function the hook returns from.\<close>

definition getMdDeviceById_hook :: "u32 \<Rightarrow> u32 option" where
  "getMdDeviceById_hook ident = (if ident = 0xDA then Some FS_MMC_SDCARD_STRUCT else None)"

text \<open>
  A registration is recorded with the device its argument names.  The flag that says the card is
  ready is cleared before the driver sets it again.
\<close>

definition registerMdDevice_hook :: "sd_env \<Rightarrow> u32 \<Rightarrow> mem \<Rightarrow> mem \<times> sd_call list" where
  "registerMdDevice_hook env arg m =
     (if arg \<noteq> 0 \<and> read32 m (arg + 8) = FS_MMC_SDCARD_STRUCT
      then (write32 m (FS_MMC_SDCARD_STRUCT + 0x24) (read32 m (FS_MMC_SDCARD_STRUCT + 0x24) AND NOT 0x20),
            [WaitSem (sdcard_access_mutex env), RegisterDevice arg FS_MMC_SDCARD_STRUCT,
             SignalSem (sdcard_access_mutex env)])
      else (m, [RegisterDevice arg (if arg = 0 then 0 else read32 m (arg + 8))]))"

text \<open>
  When the driver has started the thread of the card, the access mutex is created, the thread sleeps
  for a second, and the flags of the card are set.
\<close>

definition sdcard_init :: "sd_env \<Rightarrow> mem \<Rightarrow> sd_env \<times> mem \<times> sd_call list" where
  "sdcard_init env m =
     (let m = write32 m (FS_MMC_SDCARD_STRUCT + 0x24) (read32 m (FS_MMC_SDCARD_STRUCT + 0x24) OR 0x20);
          m = write32 m (FS_MMC_SDCARD_STRUCT + 0x28) (read32 m (FS_MMC_SDCARD_STRUCT + 0x28) AND NOT 0x4)
      in (env\<lparr>sdcard_access_mutex := new_sem env\<rparr>, m, [CreateSem, Msleep 1000]))"

definition createDevThread_hook :: "sd_env \<Rightarrow> u32 \<Rightarrow> mem \<Rightarrow> sd_env \<times> mem \<times> sd_call list" where
  "createDevThread_hook env dev m = (if read32 m (dev + 8) = 0xD then sdcard_init env m else (env, m, []))"

section \<open>Where a request arrives\<close>

text \<open>Blocks of \<open>2 ^ k\<close> sectors: the request is counted in sectors.\<close>

lemma unat_block: "k < 22 \<Longrightarrow> unat (push_bit k (0x200 :: u32)) = 512 * 2 ^ k"
proof -
  assume "k < 22"
  then have "(2 :: nat) ^ k \<le> 2 ^ 21" by (intro power_increasing) simp_all
  then have "512 * 2 ^ k < (2 :: nat) ^ 32" by simp
  then have "unat (of_nat (512 * 2 ^ k) :: u32) = 512 * 2 ^ k" by (rule unat_of_nat_u32)
  then show ?thesis by (simp add: push_bit_eq_mult mult.commute)
qed

lemma adjust_sectors:
  "k < 22 \<Longrightarrow> block_size_adjust (push_bit k 0x200) cnt offset = (0x200, push_bit k cnt, push_bit k offset)"
proof (induction k arbitrary: cnt offset)
  case 0
  then show ?case by (simp add: block_size_adjust.simps)
next
  case (Suc k)
  let ?b = "push_bit (Suc k) (0x200 :: u32)"
  have u: "unat ?b = 512 * 2 ^ Suc k" using unat_block [OF Suc.prems] .
  have "(2 :: nat) ^ Suc k \<le> 2 ^ 21" using Suc.prems by (intro power_increasing) simp_all
  then have "512 * (2 :: nat) ^ Suc k < 2 ^ 31" by simp
  then have "sint ?b = int (512 * 2 ^ Suc k)" using u by (intro sint_of_small) blast
  moreover have "512 < 512 * (2 :: nat) ^ Suc k" using one_less_power [of "2 :: nat" "Suc k"] by linarith
  ultimately have "sint ?b > 0x200" by (metis of_nat_less_iff of_nat_numeral)
  moreover have "drop_bit 1 ?b = push_bit k 0x200"
  proof (rule word_unat_eq_iff [THEN iffD2])
    show "unat (drop_bit 1 ?b) = unat (push_bit k (0x200 :: u32))"
      using Suc.prems by (simp only: drop_bit_eq_div unat_div u unat_block) simp
  qed
  ultimately have "block_size_adjust ?b cnt offset = block_size_adjust (push_bit k 0x200) (push_bit 1 cnt) (push_bit 1 offset)"
    by (subst block_size_adjust.simps) (simp only: if_True)
  also have "\<dots> = (0x200, push_bit k (push_bit 1 cnt), push_bit k (push_bit 1 offset))"
    using Suc by simp
  finally show ?case by (simp only: push_bit_push_bit Suc_eq_plus1)
qed

text \<open>The commands among the calls, with the device they are for.\<close>

definition sd_commands :: "redirected \<Rightarrow> (u32 \<times> rw_command) list" where
  "sd_commands r = (case r of OriginalCode \<Rightarrow> [] | Redirected (cs, _) \<Rightarrow> [(d, c). Command d c \<leftarrow> cs])"

lemma commands_of_request:
  "sd_commands (Redirected (readWriteCallback_patch env rd off low cnt bs data cb param)) =
     [(0xDA, rw_paramstruct rd data cnt bs (low + off))]"
  by (simp add: sd_commands_def readWriteCallback_patch_def sdcard_readwrite_def Let_def split_beta)

lemma unat_times4: "4 * unat (x :: u32) < 2 ^ 32 \<Longrightarrow> unat (4 * x) = 4 * unat x"
  by (simp add: unat_word_ariths)

text \<open>With pages of four sectors the low two bits of the partition's offset are lost.\<close>

lemma page_command:
  assumes "4 * (unat (off :: u32) div 4 + unat page + unat cnt) < 2 ^ 32"
  shows "\<exists>c. rw_paramstruct rd data cnt 0x800 (page + drop_bit 2 off) = c \<and>
    unat (rw_offset_low c) = 4 * (unat off div 4) + 4 * unat page \<and> unat (rw_cnt c) = 4 * unat cnt \<and>
    rw_block_size c = 0x200 \<and> rw_data c = data \<and> rw_type c = (if rd \<noteq> 0 then 3 else 0)"
proof -
  have adj: "block_size_adjust 0x800 cnt o' = (0x200, 4 * cnt, 4 * o')" for o'
    using adjust_sectors [of 2 cnt o'] by (simp add: push_bit_eq_mult)
  have d: "unat (drop_bit 2 off) = unat off div 4" by (simp add: drop_bit_eq_div unat_div)
  have "unat (page + drop_bit 2 off) = unat page + unat off div 4"
    using assms d by (simp add: unat_word_ariths)
  moreover from this have "4 * unat (page + drop_bit 2 off) < 2 ^ 32" using assms by simp
  ultimately have "unat (4 * (page + drop_bit 2 off)) = 4 * (unat page + unat off div 4)"
    using unat_times4 by metis
  moreover have "unat (4 * cnt) = 4 * unat cnt" using assms by (intro unat_times4) simp
  ultimately show ?thesis by (simp add: rw_paramstruct_def adj del: distrib_left_numeral, simp)
qed

text \<open>
  C13. SLC redirection: once \<^verbatim>\<open>rednand_init\<close> has accepted a configuration whose SLC partition starts at
  a multiple of four sectors, the accesses of the driver are patched, and a request for pages
  inside the partition becomes one command for exactly the sectors of those pages, inside the
  partition on the SD card.
\<close>

theorem slc_requests_redirected:
  assumes init: "rednand_init conf sz st0 = (st, ps, r)" "SIZEOF_V1 \<le> sz"
    and part: "slc_length conf \<noteq> 0" "4 dvd unat (slc_start conf)" "unat (slc_start conf) + unat (slc_length conf) < 2 ^ 32"
    and request: "chip \<noteq> 0" "args 0 = 0x800" "4 * (unat page + unat cnt) \<le> unat (slc_length conf)"
  shows "{BRANCH_PATCH 0x107B998C ''slcRead1_patch'', BRANCH_PATCH 0x107B9870 ''slcWrite1_patch''} \<subseteq> set ps \<and>
    (\<exists>c. sd_commands (slcRead1_patch env st chip page cnt args) = [(0xDA, c)] \<and>
      sd_commands (slcWrite1_patch env st chip page cnt args) = [(0xDA, c\<lparr>rw_type := 0\<rparr>)] \<and>
      unat (rw_offset_low c) = unat (slc_start conf) + 4 * unat page \<and> unat (rw_cnt c) = 4 * unat cnt \<and>
      rw_block_size c = 0x200 \<and> rw_data c = args 1 \<and> rw_type c = 3)"
proof -
  have st: "slc_off st chip = slc_start conf" "slc_size st chip = slc_length conf"
    using init request(1) by (auto simp: rednand_init_def slc_off_def slc_size_def Let_def split_beta split: if_splits)
  have ps: "{BRANCH_PATCH 0x107B998C ''slcRead1_patch'', BRANCH_PATCH 0x107B9870 ''slcWrite1_patch''} \<subseteq> set ps"
    by (rule rednand_init_patches [OF init(2,1)]) (use part(1) in \<open>simp add: rednand_apply_slc_patches_def\<close>)
  have "4 * (unat (slc_start conf) div 4) = unat (slc_start conf)" using part(2) by simp
  then have fits: "4 * (unat (slc_start conf) div 4 + unat page + unat cnt) < 2 ^ 32" using part(3) request(3) by simp
  have rd: "rw_paramstruct 0 d n b off = (rw_paramstruct 1 d n b off)\<lparr>rw_type := 0\<rparr>" for d n b off
    by (simp add: rw_paramstruct_def split_beta)
  show ?thesis
    using ps page_command [OF fits, of 1 "args 1"] part(1,2) request(2)
    by (auto simp: slcRead1_patch_def slcWrite1_patch_def slcReadWrite_patch_def st commands_of_request rd)
qed

definition demo_slc_conf :: rednand_config where
  "demo_slc_conf = demo_conf\<lparr>slc_start := 0x1000, slc_length := 0x400\<rparr>"

definition demo_sd :: sd_env where
  "demo_sd = \<lparr>sdcard_access_mutex = 1, new_sem = 2, do_command = (\<lambda>_. 0), reported = (\<lambda>_. 0)\<rparr>"

theorem slc_requests_redirected_witness:
  "\<exists>c. sd_commands (slcRead1_patch demo_sd (fst (rednand_init demo_slc_conf 33 demo_rednand)) 1 5 2 (\<lambda>_. 0x800)) = [(0xDA, c)] \<and>
     unat (rw_offset_low c) = 0x1014"
proof -
  obtain st ps r where "rednand_init demo_slc_conf 33 demo_rednand = (st, ps, r)" by (metis prod_cases3)
  moreover from this obtain c where "sd_commands (slcRead1_patch demo_sd st 1 5 2 (\<lambda>_. 0x800)) = [(0xDA, c)]"
    "unat (rw_offset_low c) = unat (slc_start demo_slc_conf) + 4 * unat (5 :: u32)"
    using slc_requests_redirected [of demo_slc_conf 33 demo_rednand st ps r 1 "\<lambda>_. 0x800" 5 2 demo_sd]
    by (auto simp: demo_slc_conf_def SIZEOF_V1_def)
  ultimately show ?thesis by (auto simp: demo_slc_conf_def)
qed

text \<open>A partition that starts elsewhere is used from the multiple of four below.\<close>

lemma slc_unaligned:
  assumes "slc_size st chip \<noteq> 0" "unat (slc_off st chip) mod 4 \<noteq> 0" "args 0 = 0x800" "unat cnt < 2 ^ 29"
    and "unat (slc_off st chip) < 2 ^ 31"
  shows "\<exists>c. sd_commands (slcWrite1_patch env st chip 0 cnt args) = [(0xDA, c)] \<and>
    unat (rw_offset_low c) < unat (slc_off st chip)"
proof -
  have "4 * (unat (slc_off st chip) div 4 + unat (0 :: u32) + unat cnt) < 2 ^ 32" using assms(4,5) by simp
  moreover have "4 * (unat (slc_off st chip) div 4) < unat (slc_off st chip)"
    using assms(2) mult_div_mod_eq [of 4 "unat (slc_off st chip)"] by linarith
  ultimately show ?thesis
    using assms(1,3) page_command [of "slc_off st chip" 0 cnt 0 "args 1"]
    by (auto simp: slcWrite1_patch_def slcReadWrite_patch_def commands_of_request)
qed

end
