(* ===== verification/SdLock.thy ===== *)
theory SdLock
  imports SdRedirect
begin

text \<open>
  Mutual exclusion of the SD card.  The threads of the driver and of the file system run the calls
  of \<open>SdRedirect\<close>, interleaved in any order; the access mutex is the only synchronisation between
  them that is modelled, and a wait for the semaphore of a command may pass at any time, which
  allows more interleavings than there are.
\<close>

section \<open>Threads\<close>

datatype sd_request =
    Transfer u32 u32 u32 u32 u32 u32 u32 u32
  | Register u32 mem

fun request_calls :: "sd_env \<Rightarrow> sd_request \<Rightarrow> sd_call list" where
  "request_calls env (Transfer rd off low cnt bs data cb param) =
     fst (readWriteCallback_patch env rd off low cnt bs data cb param)"
| "request_calls env (Register arg m) = snd (registerMdDevice_hook env arg m)"

text \<open>The count of the mutex and the calls that every thread has still to make.\<close>

type_synonym sd_threads = "nat \<times> sd_call list list"

inductive sd_step :: "u32 \<Rightarrow> sd_threads \<Rightarrow> sd_threads \<Rightarrow> bool" for mutex :: u32 where
  wait: "i < length ps \<Longrightarrow> ps ! i = WaitSem mutex # cs \<Longrightarrow> sd_step mutex (Suc n, ps) (n, ps[i := cs])"
| signal: "i < length ps \<Longrightarrow> ps ! i = SignalSem mutex # cs \<Longrightarrow> sd_step mutex (n, ps) (Suc n, ps[i := cs])"
| call: "i < length ps \<Longrightarrow> ps ! i = c # cs \<Longrightarrow> c \<noteq> WaitSem mutex \<Longrightarrow> c \<noteq> SignalSem mutex \<Longrightarrow>
    sd_step mutex (n, ps) (n, ps[i := cs])"

inductive_cases sd_stepE: "sd_step mutex (n, ps) s"

text \<open>The calls that must not overlap: commands to the card and the registration of the card.\<close>

fun exclusive :: "sd_call \<Rightarrow> bool" where
  "exclusive (Command d c) = True"
| "exclusive (RegisterDevice arg dev) = (dev = FS_MMC_SDCARD_STRUCT)"
| "exclusive _ = False"

section \<open>Critical sections\<close>

text \<open>Calls made with the mutex held (\<open>h\<close>) or not, which end without it.\<close>

fun bracketed :: "u32 \<Rightarrow> bool \<Rightarrow> sd_call list \<Rightarrow> bool" where
  "bracketed mutex h [] \<longleftrightarrow> \<not> h"
| "bracketed mutex h (c # cs) \<longleftrightarrow>
     (if c = WaitSem mutex then \<not> h \<and> bracketed mutex True cs
      else if c = SignalSem mutex then h \<and> bracketed mutex False cs
      else (exclusive c \<longrightarrow> h) \<and> bracketed mutex h cs)"

lemma bracketed_append:
  "bracketed mutex h xs \<Longrightarrow> bracketed mutex False ys \<Longrightarrow> bracketed mutex h (xs @ ys)"
  by (induction xs arbitrary: h) (auto split: if_splits)

lemma bracketed_transfer:
  assumes "new_sem env \<noteq> sdcard_access_mutex env"
  shows "bracketed (sdcard_access_mutex env) False
    (fst (readWriteCallback_patch env rd off low cnt bs data cb param))"
  using assms by (auto simp: readWriteCallback_patch_def sdcard_readwrite_def Let_def split_beta)

lemma bracketed_request:
  assumes "new_sem env \<noteq> sdcard_access_mutex env"
  shows "bracketed (sdcard_access_mutex env) False (request_calls env q)"
  using assms by (cases q) (simp_all add: bracketed_transfer, simp add: registerMdDevice_hook_def FS_MMC_SDCARD_STRUCT_def)

text \<open>A thread's program: its requests in turn, all with the same mutex and other semaphores for the commands.\<close>

definition program :: "(sd_env \<times> sd_request) list \<Rightarrow> sd_call list" where
  "program qs = concat (map (\<lambda>(env, q). request_calls env q) qs)"

definition uses_mutex :: "u32 \<Rightarrow> (sd_env \<times> sd_request) list \<Rightarrow> bool" where
  "uses_mutex mutex qs \<longleftrightarrow> list_all (\<lambda>(env, q). sdcard_access_mutex env = mutex \<and> new_sem env \<noteq> mutex) qs"

lemma bracketed_program: "uses_mutex mutex qs \<Longrightarrow> bracketed mutex False (program qs)"
proof (induction qs)
  case (Cons p qs)
  obtain env q where p: "p = (env, q)" by force
  have "bracketed mutex False (request_calls env q)"
    using Cons.prems bracketed_request [of env q] by (auto simp: uses_mutex_def p)
  moreover have "bracketed mutex False (program qs)"
    using Cons by (simp add: uses_mutex_def)
  ultimately show ?case by (simp add: program_def p bracketed_append)
qed (simp add: program_def)

section \<open>The invariant\<close>

text \<open>Some assignment of holders fits all threads, and the mutex counts those that are free.\<close>

definition sd_inv :: "u32 \<Rightarrow> sd_threads \<Rightarrow> bool" where
  "sd_inv mutex s \<longleftrightarrow>
     (\<exists>hs. list_all2 (bracketed mutex) hs (snd s) \<and> fst s + length (filter id hs) = 1)"

lemma holders_update:
  "i < length hs \<Longrightarrow> length (filter id (hs[i := b])) + (if hs ! i then 1 else 0) = length (filter id hs) + (if b then 1 else 0)"
proof (induction hs arbitrary: i)
  case (Cons h hs)
  then show ?case using Cons.IH [of "i - 1"] Cons.prems by (cases i; cases h; cases b) auto
qed simp

lemma sd_inv_step:
  assumes "sd_step mutex s s'" "sd_inv mutex s"
  shows "sd_inv mutex s'"
proof -
  obtain hs where hs: "list_all2 (bracketed mutex) hs (snd s)" "fst s + length (filter id hs) = 1"
    using assms(2) by (auto simp: sd_inv_def)
  from assms(1) show ?thesis
  proof cases
    case (wait i ps cs n)
    then have i: "i < length hs" and b: "bracketed mutex (hs ! i) (WaitSem mutex # cs)"
      using hs(1) by (auto simp: list_all2_conv_all_nth dest!: spec [of _ i])
    then have "list_all2 (bracketed mutex) (hs[i := True]) (ps[i := cs])"
      using hs(1) wait by (auto intro!: list_all2_update_cong)
    moreover have "length (filter id (hs[i := True])) = length (filter id hs) + 1"
      using holders_update [OF i, of True] b by simp
    ultimately show ?thesis
      unfolding sd_inv_def using hs(2) wait by (intro exI [of _ "hs[i := True]"]) simp
  next
    case (signal i ps cs n)
    then have i: "i < length hs" and b: "bracketed mutex (hs ! i) (SignalSem mutex # cs)"
      using hs(1) by (auto simp: list_all2_conv_all_nth dest!: spec [of _ i])
    then have "list_all2 (bracketed mutex) (hs[i := False]) (ps[i := cs])"
      using hs(1) signal by (auto intro!: list_all2_update_cong)
    moreover have "length (filter id (hs[i := False])) + 1 = length (filter id hs)"
      using holders_update [OF i, of False] b by simp
    moreover from this have "Suc n + length (filter id (hs[i := False])) = 1"
      using hs(2) unfolding signal(1) fst_conv by linarith
    ultimately show ?thesis unfolding sd_inv_def using signal(2) by (metis fst_conv snd_conv)
  next
    case (call i ps c cs n)
    then have "i < length hs" "bracketed mutex (hs ! i) (c # cs)"
      using hs(1) by (auto simp: list_all2_conv_all_nth dest!: spec [of _ i])
    then have "list_all2 (bracketed mutex) (hs[i := hs ! i]) (ps[i := cs])"
      using hs(1) call by (intro list_all2_update_cong) auto
    then show ?thesis using hs call by (auto simp: sd_inv_def)
  qed
qed

lemma sd_inv_reachable: "(sd_step mutex)\<^sup>*\<^sup>* s s' \<Longrightarrow> sd_inv mutex s \<Longrightarrow> sd_inv mutex s'"
  by (induction rule: rtranclp_induct) (auto intro: sd_inv_step)

lemma two_holders:
  assumes "i < length hs" "j < length hs" "i \<noteq> j" "hs ! i" "hs ! j"
  shows "2 \<le> length (filter id hs)"
proof -
  have "{i, j} \<subseteq> {k. k < length hs \<and> id (hs ! k)}" using assms by auto
  then have "card {i, j} \<le> card {k. k < length hs \<and> id (hs ! k)}" by (intro card_mono) auto
  then show ?thesis using assms(3) by (simp add: length_filter_conv_card)
qed

text \<open>
  C14. One at a time: whatever requests any number of threads make, and however their calls are
  interleaved, when one thread is about to hand a command to the SD card or to register the card,
  no other thread is.
\<close>

theorem sd_commands_exclusive:
  assumes own: "list_all (uses_mutex mutex) threads"
    and run: "(sd_step mutex)\<^sup>*\<^sup>* (1, map program threads) (n, ps)"
    and two: "i < length ps" "j < length ps" "ps ! i = c # cs" "ps ! j = d # ds" "exclusive c" "exclusive d"
  shows "i = j"
proof (rule ccontr)
  assume "i \<noteq> j"
  have "list_all2 (bracketed mutex) (replicate (length threads) False) (map program threads)"
    using own by (simp add: list_all2_conv_all_nth list_all_length bracketed_program)
  then have "sd_inv mutex (1, map program threads)"
    unfolding sd_inv_def by (intro exI [of _ "replicate (length threads) False"]) simp
  from sd_inv_reachable [OF run this] obtain hs where
    hs: "list_all2 (bracketed mutex) hs ps" "n + length (filter id hs) = 1"
    by (auto simp: sd_inv_def)
  have at: "bracketed mutex (hs ! k) (ps ! k)" "k < length hs" if "k < length ps" for k
    using hs(1) that by (auto simp: list_all2_conv_all_nth)
  have holds: "h" if "bracketed mutex h (e # es)" "exclusive e" for h e es
    using that by (cases e) (auto split: if_splits)
  have "hs ! i" "hs ! j" using at(1) two holds by metis+
  with \<open>i \<noteq> j\<close> hs(2) at(2) two(1,2) show False using two_holders [of i hs j] by simp
qed

text \<open>Two threads that write and register: the schedule below lets the first one reach its command.\<close>

definition demo_threads :: "(sd_env \<times> sd_request) list list" where
  "demo_threads = [[(demo_sd, Transfer 0 0 5 1 0x200 0x1000 0 0)], [(demo_sd, Transfer 1 0 9 1 0x200 0x2000 0 0)]]"

lemma demo_program:
  "map program demo_threads =
     [[WaitSem 1, CreateSem, WaitSem 2, Command 0xDA \<lparr>rw_cnt = 1, rw_block_size = 0x200, rw_type = 0, rw_data = 0x1000,
         rw_offset_high = 0, rw_offset_low = 5\<rparr>, WaitSem 2, DestroySem 2, SignalSem 1],
      [WaitSem 1, CreateSem, WaitSem 2, Command 0xDA \<lparr>rw_cnt = 1, rw_block_size = 0x200, rw_type = 3, rw_data = 0x2000,
         rw_offset_high = 0, rw_offset_low = 9\<rparr>, WaitSem 2, DestroySem 2, SignalSem 1]]"
  by (simp add: demo_threads_def program_def readWriteCallback_patch_def sdcard_readwrite_def rw_paramstruct_def
      block_size_adjust.simps demo_sd_def Let_def)

theorem sd_commands_exclusive_witness:
  "\<exists>ps c cs. (sd_step 1)\<^sup>*\<^sup>* (1, map program demo_threads) (0, ps) \<and> ps ! 0 = c # cs \<and> exclusive c \<and>
     \<not> (\<exists>j d ds. 0 < j \<and> j < length ps \<and> ps ! j = d # ds \<and> exclusive d)"
proof -
  let ?ps = "map program demo_threads"
  have "sd_step 1 (1, ?ps) (0, ?ps[0 := drop 1 (?ps ! 0)])"
    using sd_step.wait [of 0 ?ps 1 "drop 1 (?ps ! 0)" 0] by (simp add: demo_program)
  moreover have "sd_step 1 (0, ?ps[0 := drop 1 (?ps ! 0)]) (0, ?ps[0 := drop 2 (?ps ! 0)])"
    using sd_step.call [of 0 "?ps[0 := drop 1 (?ps ! 0)]" CreateSem "drop 2 (?ps ! 0)" 1 0] by (simp add: demo_program)
  moreover have "sd_step 1 (0, ?ps[0 := drop 2 (?ps ! 0)]) (0, ?ps[0 := drop 3 (?ps ! 0)])"
    using sd_step.call [of 0 "?ps[0 := drop 2 (?ps ! 0)]" "WaitSem 2" "drop 3 (?ps ! 0)" 1 0] by (simp add: demo_program)
  ultimately have run: "(sd_step 1)\<^sup>*\<^sup>* (1, ?ps) (0, ?ps[0 := drop 3 (?ps ! 0)])" 
    by (meson converse_rtranclp_into_rtranclp rtranclp.rtrancl_refl)
  have own: "list_all (uses_mutex 1) demo_threads" by (simp add: demo_threads_def uses_mutex_def demo_sd_def)
  obtain c cs where at: "?ps[0 := drop 3 (?ps ! 0)] ! 0 = c # cs" "exclusive c" "0 < length ?ps"
    by (simp add: demo_program)
  have "j = 0" if "j < length ?ps" "?ps[0 := drop 3 (?ps ! 0)] ! j = d # ds" "exclusive d" for j d ds
    using sd_commands_exclusive [OF own run, of j 0 d ds c cs] that at by simp
  then show ?thesis using run at by (intro exI [of _ "?ps[0 := drop 3 (?ps ! 0)]"] exI [of _ c] exI [of _ cs]) fastforce
qed

end
