(* ===== verification/CoreHooks.thy ===== *)
theory CoreHooks
  imports Boot
begin

text \<open>
  The hooks of \<^verbatim>\<open>patch_asm.S\<close> in the kernel, in MCP and in the crypto driver: the stub that reads the
  OTP from memory, the pair of hooks that let a request pass without encryption, and those that run
  when another system is launched.  Each is a function of the registers it reads.
\<close>

section \<open>The OTP stub\<close>

text \<open>The loop copies bytes until the destination register reaches the end; \<open>n\<close> bytes are left.\<close>

fun otp_copy_loop :: "nat \<Rightarrow> u32 \<Rightarrow> u32 \<Rightarrow> mem \<Rightarrow> mem" where
  "otp_copy_loop 0 src dst m = m"
| "otp_copy_loop (Suc n) src dst m = otp_copy_loop n (src + 1) (dst + 1) (write8 m dst (read8 m src))"

definition otp_read_replace_hacky :: "boot \<Rightarrow> u32 \<Rightarrow> u32 \<Rightarrow> u32 \<Rightarrow> boot \<times> int" where
  "otp_read_replace_hacky b which_word pOut len =
     (b\<lparr>bmem := otp_copy_loop (unat len) (otp_ptr b + push_bit 2 which_word) pOut (bmem b)\<rparr>, 0)"

lemma otp_copy_memmove:
  assumes "disjoint_regions dst n src n"
  shows "otp_copy_loop n src dst m = memmove m dst src n"
  using assms
proof (induction n arbitrary: src dst m)
  case (Suc n)
  let ?w = "write8 m dst (read8 m src)"
  have "disjoint_regions (dst + of_nat 1) n (src + of_nat 1) n"
    using Suc.prems
    by (intro disjoint_sub [of "dst + of_nat 1" n src "Suc n"], subst disjoint_sym, intro disjoint_sub)
       (auto simp: disjoint_sym)
  then have "otp_copy_loop (Suc n) src dst m = memmove ?w (dst + 1) (src + 1) n"
    using Suc.IH by simp
  also have "\<dots> = memmove m dst src (Suc n)"
  proof
    fix x
    have d: "dst \<noteq> src + y" if "unat y < Suc n" for y
      using disjoint_regionsD [OF Suc.prems [unfolded disjoint_sym [of dst]], of "src + y"] that by auto
    show "memmove ?w (dst + 1) (src + 1) n x = memmove m dst src (Suc n) x"
    proof (cases "x = dst")
      case True
      then show ?thesis by (simp add: memmove_def write8_def read8_def)
    next
      case False
      then have "1 \<le> adist dst x" by (simp add: Suc_le_eq unat_gt_0)
      then have "adist (dst + of_nat 1) x = adist dst x - 1" by (rule adist_offset)
      then have a: "adist (dst + 1) x < n \<longleftrightarrow> adist dst x < Suc n" using \<open>1 \<le> adist dst x\<close> by auto
      have e: "src + 1 + (x - (dst + 1)) = src + (x - dst)" by simp
      show ?thesis
        using d [of "x - dst"] False unfolding memmove_def a e by (auto simp: write8_def)
    qed
  qed
  finally show ?case .
qed (simp add: memmove_def)

text \<open>
  The two ways of answering an OTP read agree: when the words read do not overlap the caller's
  buffer, the loop in assembly leaves the memory that the function in C leaves, and both return 0.
\<close>

lemma otp_stubs_agree:
  assumes "disjoint_regions pOut (unat len) (otp_ptr b + 4 * which_word) (unat len)"
  shows "otp_read_replace_hacky b which_word pOut len = otp_read_replace b which_word pOut (unat len)"
  using otp_copy_memmove [OF assms]
  by (simp add: otp_read_replace_hacky_def otp_read_replace_def push_bit_eq_mult mult.commute)

section \<open>The crypto hooks\<close>














section \<open>Boot images\<close>

text \<open>
  Bit 0 of the device type in a boot image's header marks an image that is not encrypted: the hook then
  returns 0 from the function it is in, otherwise that function goes on.
\<close>

definition ancast_crypt_check :: "mem \<Rightarrow> u32 option" where
  "ancast_crypt_check m = (if read16 m 0x010001A0 AND 1 \<noteq> 0 then Some 0 else None)"

section \<open>Launching a system\<close>

datatype mcp_call =
    Rmdir u32
  | SyslogFirmware
  | FsaOpenFirmware
  | FsaMountFirmware u32 string string u32 u32 u32

text \<open>The directories are named by a table of pointers that ends with zero; two are strings of MCP.\<close>

fun clear_loop :: "u32 list \<Rightarrow> mcp_call list" where
  "clear_loop [] = []"
| "clear_loop (p # ps) = (if p = 0 then [] else Rmdir p # clear_loop ps)"

definition boot_dirs_clear :: "u32 \<Rightarrow> mcp_call list" where
  "boot_dirs_clear system_ramdisk_cache = clear_loop [0x5063578, 0x5061C58, system_ramdisk_cache, 0]"

text \<open>The SD card is mounted with the handle that MCP's own function returns.\<close>

definition launch_os_hook :: "u32 \<Rightarrow> mcp_call list" where
  "launch_os_hook fd =
     [SyslogFirmware, FsaOpenFirmware, FsaMountFirmware fd ''/dev/sdcard01'' ''/vol/sdcard'' 0 0 0]"

text \<open>
  The buffer for the SEEPROM of the vWii: the original call cleared it, now \<open>0x500\<close> bytes are, the OTP
  goes to \<open>0x180\<close> and the code that runs in the vWii to the front.  The results are the registers 4 and 5.
\<close>

definition c2w_seeprom_hook :: "u8 list \<Rightarrow> u8 list \<Rightarrow> u32 \<Rightarrow> u32 \<Rightarrow> u32 \<Rightarrow> mem \<Rightarrow> mem \<times> u32 \<times> u32" where
  "c2w_seeprom_hook otp pocket buf fill r5 m =
     (let m = memset m buf (ucast fill) 0x500;
          m = store_bytes m (buf + 0x180) otp;
          m = store_bytes m buf pocket
      in (m, 0x500, r5 + 0x400))"

text \<open>The images are patched before the result of the replaced call is tested.\<close>

definition c2w_boot_hook :: "rednand_state \<Rightarrow> u32 \<Rightarrow> nat \<Rightarrow> u32 \<Rightarrow> mem \<Rightarrow> (mem \<times> bool) option" where
  "c2w_boot_hook st stub len r0 m = map_option (\<lambda>m. (m, r0 = 0)) (c2w_patches st stub len m)"

text \<open>The three parts of the buffer do not overwrite each other, as long as the code is shorter than \<open>0x180\<close>.\<close>

lemma c2w_buffer_parts:
  assumes "length otp = 0x80" "length pocket \<le> 0x180" "c2w_seeprom_hook otp pocket buf fill r5 m = (m', n, r)"
  shows "load_bytes m' buf (length pocket) = pocket" "load_bytes m' (buf + 0x180) 0x80 = otp"
    "0x200 \<le> adist buf x \<Longrightarrow> m' x = (if adist buf x < 0x500 then ucast fill else m x)"
proof -
  let ?m = "store_bytes (memset m buf (ucast fill) 0x500) (buf + 0x180) otp"
  have m': "m' = store_bytes ?m buf pocket" using assms(3) by (simp add: c2w_seeprom_hook_def Let_def)
  show "load_bytes m' buf (length pocket) = pocket"
    unfolding m' using assms(2) by (intro load_store_bytes) simp
  have d: "disjoint_regions (buf + 0x180) 0x80 buf (length pocket)"
    using assms(2) by (simp add: disjoint_regions_def)
  have "load_bytes m' (buf + 0x180) 0x80 = load_bytes ?m (buf + 0x180) 0x80"
    unfolding m' by (rule load_bytes_cong, rule store_bytes_other, rule disjoint_regionsD [OF d])
  then show "load_bytes m' (buf + 0x180) 0x80 = otp"
    using load_store_bytes [of otp "memset m buf (ucast fill) 0x500" "buf + 0x180"] assms(1) by simp
  show "m' x = (if adist buf x < 0x500 then ucast fill else m x)" if x: "0x200 \<le> adist buf x"
  proof -
    have "adist (buf + of_nat 0x180) x = adist buf x - 0x180" by (rule adist_offset) (use x in simp)
    then have "m' x = memset m buf (ucast fill) 0x500 x"
      unfolding m' using x assms(1,2) by (simp add: store_bytes_other)
    then show ?thesis by (simp add: memset_def)
  qed
qed

end
