(* ===== verification/DebugExts.thy ===== *)
theory DebugExts
  imports TrampolineRun Serial
begin

text \<open>
  The debug plugin (\<^verbatim>\<open>wafel_debug_exts/source/main.c\<close>), on the functions of the loader it calls:
  one hook, two branches that turn selective logging into the system log, and a handler in the
  vector of the supervisor call.
\<close>

definition MCP_SYSLOG_OUTPUT_ADDR :: u32 where "MCP_SYSLOG_OUTPUT_ADDR = 0x0503DCF8"
definition FS_SYSLOG_OUTPUT :: u32 where "FS_SYSLOG_OUTPUT = 0x107F0C84"

text \<open>The hook passes on the pointer the interrupted code has in r1.\<close>

definition sys_write_r1 :: "mem \<Rightarrow> u32 \<Rightarrow> u32" where
  "sys_write_r1 m state = state_r m state 1"

definition semihosting_handler :: "device \<Rightarrow> int \<Rightarrow> u8 list \<Rightarrow> serial \<Rightarrow> serial option" where
  "semihosting_handler dev which arg0 st = (if which = 4 then serial_send_str dev arg0 st else Some st)"

text \<open>
  The handler in the vector: the halfword before the return address is the Thumb instruction of a
  semihosting call, or the old handler is entered.
\<close>

definition svc_handler_hook ::
  "device \<Rightarrow> mem \<Rightarrow> u32 \<Rightarrow> int \<Rightarrow> u8 list \<Rightarrow> serial \<Rightarrow> u32 \<Rightarrow> (u32 + serial) option" where
  "svc_handler_hook dev m lr r0 r1 st old_svc_handler =
     (if read16 m (lr - 2) = 0xDFAB then map_option Inr (semihosting_handler dev r0 r1 st)
      else Some (Inl old_svc_handler))"

text \<open>Memory after the stores that follow the hook, and the old handler.\<close>

definition debug_stores :: "mem \<Rightarrow> u32 \<Rightarrow> mem \<times> u32" where
  "debug_stores m new_handler =
     (let m = BRANCH_PATCH_K m 0x05055438 MCP_SYSLOG_OUTPUT_ADDR;
          m = BRANCH_PATCH_K m 0x107F5720 FS_SYSLOG_OUTPUT;
          old_svc_handler = read32 m 0xFFFF0028
      in (write32 m 0xFFFF0028 new_handler, old_svc_handler))"

definition debug_kern_main :: "hook_env \<Rightarrow> tstate \<Rightarrow> u32 \<Rightarrow> u32 \<Rightarrow> (tstate \<times> u32) option" where
  "debug_kern_main env st write_hook new_handler =
     map_option (\<lambda>st. let (m, old) = debug_stores (tmem st) new_handler in (st\<lparr>tmem := m\<rparr>, old))
       (trampoline_hook_before env st 0x05055334 write_hook)"

text \<open>
  Both logging functions branch to the system log, the vector holds the new handler, and the old one
  is kept, when the three places are apart and outside the table of program headers.
\<close>

lemma debug_stores_effect:
  fixes m :: mem
  defines "a \<equiv> ios_elf_vaddr_to_paddr m 0x05055438" and "b \<equiv> ios_elf_vaddr_to_paddr m 0x107F5720"
  assumes off: "off_table m a 4" "off_table m b 4" "off_table m 0xFFFF0028 4"
    and apart: "disjoint_regions b 4 a 4" "disjoint_regions 0xFFFF0028 4 a 4" "disjoint_regions 0xFFFF0028 4 b 4"
    and run: "debug_stores m hook = (m', old)"
  shows "extract_b_target m' 0x05055438 = MCP_SYSLOG_OUTPUT_ADDR \<and>
    extract_b_target m' 0x107F5720 = FS_SYSLOG_OUTPUT \<and>
    read32 m' 0xFFFF0028 = hook \<and> old = read32 m 0xFFFF0028"
proof -
  let ?A = "branch_insn 0x05055438 MCP_SYSLOG_OUTPUT_ADDR" and ?B = "branch_insn 0x107F5720 FS_SYSLOG_OUTPUT"
  define m1 m2 where "m1 = write32 m a ?A" and "m2 = write32 m1 b ?B"
  have s1: "same_table m m1" unfolding m1_def by (rule same_table_write32 [OF off(1)])
  have s2: "same_table m m2"
    using off(2) by (intro same_table_trans [OF s1]) (simp add: m2_def same_table_write32 off_table_cong [OF s1])
  have m': "m' = write32 m2 0xFFFF0028 hook" "old = read32 m2 0xFFFF0028"
    using run by (simp_all add: debug_stores_def BRANCH_PATCH_K_def patch_u32_k_eq xlate_cong [OF s1, folded b_def]
        m1_def [symmetric] m2_def [symmetric] a_def [symmetric] b_def [symmetric])
  have s3: "same_table m m'"
    using off(3) by (intro same_table_trans [OF s2]) (simp add: m'(1) same_table_write32 off_table_cong [OF s2])
  have words: "read32 m' a = ?A" "read32 m' b = ?B" "old = read32 m 0xFFFF0028"
    using apart disjoint_sym [of b 4 a 4] by (simp_all add: m' m2_def m1_def read32_write32_other disjoint_sym)
  have "arm_reach 0x05055438 MCP_SYSLOG_OUTPUT_ADDR" "arm_reach 0x107F5720 FS_SYSLOG_OUTPUT" by code_simp+
  moreover have "read32 m' 0xFFFF0028 = hook" by (simp add: m'(1))
  ultimately show ?thesis
    using words by (simp add: extract_b_target_def xlate_cong [OF s3] Let_def a_def [symmetric] b_def [symmetric]
        insn_top extract_b)
qed

end
