(* ===== verification/PluginStart.thy ===== *)
theory PluginStart
  imports Dynamic
begin

text \<open>
  The start-up code of the loader and of the plugins (\<^verbatim>\<open>crt0.S\<close>): it clears the zero-initialised data,
  notes the load address and has the image relocated, before the C code runs.  What the linker
  assigns to the symbols is a record; all of them are offsets from the load address.
\<close>

section \<open>Start-up\<close>

record start_syms =
  start_offs :: u32
  bss_start :: u32
  bss_end :: u32
  dynamic_start :: u32

text \<open>The counter is decremented first and tested last.\<close>

partial_function (option) clear_bss :: "mem \<Rightarrow> u32 \<Rightarrow> u32 \<Rightarrow> mem option" where
  "clear_bss m a len =
     (let len = len - 4; m = write32 m a 0
      in if len \<noteq> 0 then clear_bss m (a + 4) len else Some m)"

definition base_addr_slot :: "start_syms \<Rightarrow> u32 \<Rightarrow> u32" where
  "base_addr_slot sy base = base + start_offs sy + 0x18"

definition relocate_start :: "start_syms \<Rightarrow> u32 \<Rightarrow> mem \<Rightarrow> mem option" where
  "relocate_start sy base m =
     wafel_dynamic (write32 m (base_addr_slot sy base) base) base (base + dynamic_start sy)"

text \<open>The loader: the length is four less than that of the section.\<close>

definition core_kern_setup :: "start_syms \<Rightarrow> u32 \<Rightarrow> mem \<Rightarrow> mem option" where
  "core_kern_setup sy base m =
     do { m \<leftarrow> clear_bss m (base + bss_start sy) (bss_end sy - 4 - bss_start sy);
          relocate_start sy base m }"

text \<open>The plugins: all of the section, which may be empty.\<close>

definition plugin_kern_setup :: "start_syms \<Rightarrow> u32 \<Rightarrow> mem \<Rightarrow> mem option" where
  "plugin_kern_setup sy base m =
     (let len = bss_end sy - bss_start sy
      in do { m \<leftarrow> (if len = 0 then Some m else clear_bss m (base + bss_start sy) len);
              relocate_start sy base m })"

section \<open>Clearing\<close>

lemma write32_zero: "write32 m a 0 x = (if adist a x < 4 then 0 else m x)"
proof (cases "adist a x < 4")
  case True
  then show ?thesis by (simp add: write32_def) unat_arith
next
  case False
  then show ?thesis by (simp add: write32_other)
qed

lemma clear_bss_memset:
  assumes "4 * Suc k < 2 ^ 32"
  shows "clear_bss m a (of_nat (4 * Suc k)) = Some (memset m a 0 (4 * Suc k))"
  using assms
proof (induction k arbitrary: m a)
  case 0
  then show ?case
    by (subst clear_bss.simps) (simp add: fun_eq_iff memset_def write32_zero)
next
  case (Suc k)
  have n: "of_nat (4 * Suc (Suc k)) - 4 = (of_nat (4 * Suc k) :: u32)" by simp
  have u: "unat (of_nat (4 * Suc k) :: u32) = 4 * Suc k"
    by (rule unat_of_nat_u32) (rule le_less_trans [OF _ Suc.prems], simp)
  have nz: "(of_nat (4 * Suc k) :: u32) \<noteq> 0"
  proof
    assume "(of_nat (4 * Suc k) :: u32) = 0"
    from u [unfolded this] show False by simp
  qed
  have "memset (write32 m a 0) (a + 4) 0 (4 * Suc k) = memset m a 0 (4 * Suc (Suc k))"
  proof
    fix x
    show "memset (write32 m a 0) (a + 4) 0 (4 * Suc k) x = memset m a 0 (4 * Suc (Suc k)) x"
    proof (cases "adist a x < 4")
      case False
      then have "adist (a + 4) x = adist a x - 4" using adist_offset [of 4 x a] by simp
      then show ?thesis using False by (auto simp: memset_def write32_zero)
    qed (simp add: memset_def write32_zero)
  qed
  moreover have "clear_bss (write32 m a 0) (a + 4) (of_nat (4 * Suc k)) =
      Some (memset (write32 m a 0) (a + 4) 0 (4 * Suc k))"
    by (rule Suc.IH) (rule le_less_trans [OF _ Suc.prems], simp)
  ultimately show ?case
    by (subst clear_bss.simps) (simp only: Let_def n nz if_True simp_thms)
qed

lemma adist_shift: "adist a x \<le> adist (a + d) x + unat d"
proof -
  have "x - a = (x - (a + d)) + d" by simp
  then show ?thesis by (metis unat_plus_if' le_add1 le_refl diff_le_self linear)
qed

lemma read32_memset_zero:
  assumes "4 * i + 4 \<le> n"
  shows "read32 (memset m a 0 n) (a + of_nat (4 * i)) = 0"
proof -
  have "read32 (memset m a 0 n) (a + of_nat (4 * i)) = read32 (\<lambda>_. 0) (a + of_nat (4 * i))"
  proof (rule read32_cong)
    fix x assume "adist (a + of_nat (4 * i)) x < 4"
    moreover have "unat (of_nat (4 * i) :: u32) \<le> 4 * i" by (simp only: unat_of_nat mod_less_eq_dividend)
    ultimately have "adist a x < n" using adist_shift [of x a "of_nat (4 * i)"] assms by linarith
    then show "memset m a 0 n x = 0" by (simp add: memset_def)
  qed
  then show ?thesis by (simp add: read32_def)
qed

section \<open>What start-up leaves\<close>

text \<open>Memory when the linker is called, with \<open>n\<close> bytes cleared.\<close>

definition prepared :: "start_syms \<Rightarrow> u32 \<Rightarrow> nat \<Rightarrow> mem \<Rightarrow> mem" where
  "prepared sy base n m = write32 (memset m (base + bss_start sy) 0 n) (base_addr_slot sy base) base"

definition start_apart :: "start_syms \<Rightarrow> u32 \<Rightarrow> nat \<Rightarrow> u32 \<Rightarrow> nat \<Rightarrow> bool" where
  "start_apart sy base n a k \<longleftrightarrow>
     disjoint_regions (base + bss_start sy) n a k \<and> disjoint_regions (base_addr_slot sy base) 4 a k"

lemma start_apart_mono: "start_apart sy base n a k \<Longrightarrow> n' \<le> n \<Longrightarrow> start_apart sy base n' a k"
  by (auto simp: start_apart_def intro: disjoint_mono)

lemma start_apart_sub: "start_apart sy base n a k \<Longrightarrow> d + j \<le> k \<Longrightarrow> start_apart sy base n (a + of_nat d) j"
  by (auto simp: start_apart_def intro: disjoint_sub)

lemma prepared_other:
  assumes "start_apart sy base n a k" "adist a x < k"
  shows "prepared sy base n m x = m x"
proof -
  have "n \<le> adist (base + bss_start sy) x" "4 \<le> adist (base_addr_slot sy base) x"
    using assms by (auto simp: start_apart_def disjoint_sym [of _ _ a] intro: disjoint_regionsD)
  then show ?thesis by (simp add: prepared_def write32_other memset_other)
qed

lemma prepared_read32: "start_apart sy base n a 4 \<Longrightarrow> read32 (prepared sy base n m) a = read32 m a"
  by (rule read32_cong) (rule prepared_other)

lemma dyn_entriesD:
  assumes "dyn_entries m dyn = Some es"
  shows "es = [] \<longleftrightarrow> read32 m dyn = DT_NULL"
    "es = e # es' \<Longrightarrow> e = (read32 m dyn, read32 m (dyn + 4)) \<and> dyn_entries m (dyn + 8) = Some es'"
proof -
  note run = assms [unfolded dyn_entries.simps [of m dyn]]
  show "es = [] \<longleftrightarrow> read32 m dyn = DT_NULL" using run by (auto split: if_splits bind_splits)
  show "es = e # es' \<Longrightarrow> e = (read32 m dyn, read32 m (dyn + 4)) \<and> dyn_entries m (dyn + 8) = Some es'"
    using run by (auto split: if_splits bind_splits)
qed

lemma dyn_entries_cong:
  assumes "dyn_entries m dyn = Some es"
    and "\<And>i. i \<le> 2 * length es \<Longrightarrow> read32 m' (dyn + of_nat (4 * i)) = read32 m (dyn + of_nat (4 * i))"
  shows "dyn_entries m' dyn = Some es"
  using assms
proof (induction es arbitrary: dyn)
  case Nil
  then show ?case
    using dyn_entriesD(1) [OF Nil.prems(1)] Nil.prems(2) [of 0] by (simp add: dyn_entries.simps [of m' dyn])
next
  case (Cons e es)
  have nz: "read32 m dyn \<noteq> DT_NULL" using dyn_entriesD(1) [OF Cons.prems(1)] by simp
  have e: "e = (read32 m dyn, read32 m (dyn + 4))" and es: "dyn_entries m (dyn + 8) = Some es"
    using dyn_entriesD(2) [OF Cons.prems(1) refl] by simp_all
  have "dyn_entries m' (dyn + 8) = Some es"
  proof (rule Cons.IH [OF es])
    fix i assume "i \<le> 2 * length es"
    then show "read32 m' (dyn + 8 + of_nat (4 * i)) = read32 m (dyn + 8 + of_nat (4 * i))"
      using Cons.prems(2) [of "i + 2"] by (simp add: algebra_simps)
  qed
  then show ?case
    using nz e Cons.prems(2) [of 0] Cons.prems(2) [of 1] by (simp add: dyn_entries.simps [of m' dyn])
qed

text \<open>The linker script keeps what start-up writes apart from what the linker reads and changes.\<close>

definition start_ok :: "start_syms \<Rightarrow> u32 \<Rightarrow> nat \<Rightarrow> mem \<Rightarrow> (u32 \<times> u32) list \<Rightarrow> bool" where
  "start_ok sy base n m es \<longleftrightarrow>
     (let i = fold (reloc_entry base) es dyn_null; apart = start_apart sy base n
      in apart (base + dynamic_start sy) (8 * length es + 8) \<and>
         apart (relptr i) (8 * unat (relsz i)) \<and> apart (base + E_ENTRY) 4 \<and>
         apart (base_entry m base + 0x14) 4 \<and>
         list_all (\<lambda>t. apart t 4) (targets m base (relptr i) (unat (relsz i))) \<and>
         disjoint_regions (base_addr_slot sy base) 4 (base + bss_start sy) n)"

lemma start_ok_mono: "start_ok sy base n m es \<Longrightarrow> k \<le> n \<Longrightarrow> start_ok sy base k m es"
  by (auto simp: start_ok_def Let_def list_all_iff intro: start_apart_mono disjoint_mono)

lemma prepared_same:
  assumes ok: "start_ok sy base n m es" and es: "dyn_entries m (base + dynamic_start sy) = Some es"
  defines "i \<equiv> fold (reloc_entry base) es dyn_null" and "m1 \<equiv> prepared sy base n m"
  shows "dyn_entries m1 (base + dynamic_start sy) = Some es" "base_entry m1 base = base_entry m base"
    "targets m1 base (relptr i) (unat (relsz i)) = targets m base (relptr i) (unat (relsz i))"
    "wafel_is_relocated m1 base = wafel_is_relocated m base" "reloc_ok m1 base i = reloc_ok m base i"
proof -
  have dyn: "start_apart sy base n (base + dynamic_start sy) (8 * length es + 8)"
    and tab: "start_apart sy base n (relptr i) (8 * unat (relsz i))"
    and ent: "start_apart sy base n (base + E_ENTRY) 4" "start_apart sy base n (base_entry m base + 0x14) 4"
    using ok by (simp_all add: start_ok_def Let_def i_def)
  show "dyn_entries m1 (base + dynamic_start sy) = Some es"
    unfolding m1_def by (rule dyn_entries_cong [OF es], rule prepared_read32, rule start_apart_sub [OF dyn]) simp
  show be: "base_entry m1 base = base_entry m base"
    using ent(1) by (simp add: base_entry_def m1_def prepared_read32)
  show ts: "targets m1 base (relptr i) (unat (relsz i)) = targets m base (relptr i) (unat (relsz i))"
  proof (rule targets_cong)
    fix j assume j: "j < unat (relsz i)"
    have "start_apart sy base n (relptr i + of_nat (8 * j)) 4" "start_apart sy base n (relptr i + of_nat (8 * j + 4)) 4"
      by (rule start_apart_sub [OF tab], use j in simp)+
    then show "read32 m1 (relptr i + of_nat (8 * j)) = read32 m (relptr i + of_nat (8 * j))"
      "read32 m1 (relptr i + of_nat (8 * j) + 4) = read32 m (relptr i + of_nat (8 * j) + 4)"
      by (simp_all add: m1_def prepared_read32 algebra_simps)
  qed
  show "wafel_is_relocated m1 base = wafel_is_relocated m base"
    unfolding wafel_is_relocated_def be unfolding m1_def using ent(2) by (rule prepared_read32)
  show "reloc_ok m1 base i = reloc_ok m base i" by (simp add: reloc_ok_def ts be)
qed

text \<open>Relocation after a start that has cleared \<open>k\<close> bytes.\<close>

lemma relocate_prepared:
  assumes fresh: "wafel_is_relocated m base = 0" and es: "dyn_entries m (base + dynamic_start sy) = Some es"
    and ok: "reloc_ok m base i" "i = fold (reloc_entry base) es dyn_null"
    and apart: "start_ok sy base k m es"
  defines "ts \<equiv> targets m base (relptr i) (unat (relsz i))"
  shows "\<exists>m'. wafel_dynamic (prepared sy base k m) base (base + dynamic_start sy) = Some m' \<and>
    wafel_is_relocated m' base = 1 \<and> read32 m' (base_addr_slot sy base) = base \<and>
    (\<forall>t \<in> set ts. read32 m' t = relocated base (read32 m t)) \<and>
    (\<forall>j. 4 * j + 4 \<le> k \<longrightarrow> read32 m' (base + bss_start sy + of_nat (4 * j)) = 0) \<and>
    (\<forall>a. (\<forall>t \<in> set ts. disjoint_regions t 4 a 4) \<and> disjoint_regions (base_entry m base + 0x14) 4 a 4 \<longrightarrow>
       read32 m' a = read32 (prepared sy base k m) a)"
proof -
  let ?m = "prepared sy base k m"
  note same = prepared_same [OF apart es, folded ok(2)]
  have st: "\<forall>t \<in> set ts. start_apart sy base k t 4" "start_apart sy base k (base_entry m base + 0x14) 4"
    and sb: "disjoint_regions (base_addr_slot sy base) 4 (base + bss_start sy) k"
    using apart by (simp_all add: start_ok_def Let_def ok(2) [symmetric] ts_def list_all_iff)
  obtain m' where run: "wafel_dynamic ?m base (base + dynamic_start sy) = Some m'" "wafel_is_relocated m' base = 1"
    and t: "\<forall>t \<in> set ts. read32 m' t = relocated base (read32 ?m t)"
    and other: "\<And>a. (\<forall>t \<in> set ts. disjoint_regions t 4 a 4) \<Longrightarrow> disjoint_regions (base_entry m base + 0x14) 4 a 4 \<Longrightarrow>
       read32 m' a = read32 ?m a"
    using wafel_dynamic_fresh [of ?m base "base + dynamic_start sy" es i] fresh ok same
    unfolding ts_def by metis
  have "read32 m' (base_addr_slot sy base) = read32 ?m (base_addr_slot sy base)"
    using st by (intro other) (auto simp: start_apart_def disjoint_sym)
  then have "read32 m' (base_addr_slot sy base) = base" by (simp add: prepared_def)
  moreover have "\<forall>t \<in> set ts. read32 m' t = relocated base (read32 m t)" using t st(1) by (simp add: prepared_read32)
  moreover have "read32 m' (base + bss_start sy + of_nat (4 * j)) = 0" if "4 * j + 4 \<le> k" for j
  proof -
    let ?a = "base + bss_start sy + of_nat (4 * j)"
    have "disjoint_regions t 4 ?a 4" if "start_apart sy base k t 4" for t
      using that \<open>4 * j + 4 \<le> k\<close> by (auto simp: start_apart_def disjoint_sym [of _ k] simp del: of_nat_mult intro: disjoint_sub)
    then have "read32 m' ?a = read32 ?m ?a" using st by (intro other) blast+
    moreover have "disjoint_regions (base_addr_slot sy base) 4 ?a 4" using sb that by (rule disjoint_sub)
    ultimately show ?thesis using that by (simp only: prepared_def read32_write32_other read32_memset_zero)
  qed
  ultimately show ?thesis
    using run other by blast
qed

lemma memset_last_word:
  assumes "4 * (n + 2) < 2 ^ 32"
  shows "read32 (memset m a 0 (4 * Suc n)) (a + of_nat (4 * (n + 1))) = read32 m (a + of_nat (4 * (n + 1)))"
proof (rule read32_cong)
  let ?b = "a + of_nat (4 * (n + 1))"
  fix x assume x: "adist ?b x < 4"
  have u: "adist a ?b = 4 * Suc n"
    using assms unat_of_nat_u32 [of "4 * Suc n"] by (simp del: of_nat_Suc of_nat_mult)
  then have "a \<noteq> ?b" by auto
  then have sum: "adist a ?b + adist ?b a = 2 ^ 32" by (rule adist_sum)
  have "4 \<le> B" if "A + B = 2 ^ 32" "A = 4 * Suc n" for A B :: nat using that assms by simp
  from this [OF sum u] have "4 \<le> adist ?b a" .
  then have "disjoint_regions ?b 4 a (4 * Suc n)" using u by (simp only: disjoint_regions_def) simp
  then have "4 * Suc n \<le> adist a x" using x by (rule disjoint_regionsD)
  then show "memset m a 0 (4 * Suc n) x = m x" by (rule memset_other)
qed

text \<open>
  C11. Start-up: with a sound image whose data section of \<open>n + 2\<close> words lies apart from what
  the linker uses, the start-up code of the loader and that of a plugin end with the image relocated,
  the load address noted and the section cleared; the loader leaves out the last word.
\<close>

theorem start_up_links:
  assumes fresh: "wafel_is_relocated m base = 0" and es: "dyn_entries m (base + dynamic_start sy) = Some es"
    and ok: "reloc_ok m base (fold (reloc_entry base) es dyn_null)"
    and len: "bss_end sy = bss_start sy + of_nat (4 * (n + 2))" "4 * (n + 2) < 2 ^ 32"
    and apart: "start_ok sy base (4 * (n + 2)) m es"
  defines "ready m' \<equiv> wafel_is_relocated m' base = 1 \<and> read32 m' (base_addr_slot sy base) = base \<and>
    (let i = fold (reloc_entry base) es dyn_null
     in \<forall>t \<in> set (targets m base (relptr i) (unat (relsz i))). read32 m' t = relocated base (read32 m t))"
    and "bss j \<equiv> base + bss_start sy + of_nat (4 * j)"
  shows "(\<exists>m'. core_kern_setup sy base m = Some m' \<and> ready m' \<and> (\<forall>j\<le>n. read32 m' (bss j) = 0) \<and>
      read32 m' (bss (n + 1)) = read32 m (bss (n + 1))) \<and>
    (\<exists>m'. plugin_kern_setup sy base m = Some m' \<and> ready m' \<and> (\<forall>j\<le>n + 1. read32 m' (bss j) = 0))"
proof -
  define i where "i = fold (reloc_entry base) es dyn_null"
  let ?B = "base + bss_start sy"
  have small: "4 * Suc n < 2 ^ 32" "4 * Suc (Suc n) < 2 ^ 32" using len(2) by simp_all
  have apart': "start_ok sy base (4 * Suc n) m es" using apart by (rule start_ok_mono) simp
  have nz: "bss_end sy - bss_start sy \<noteq> 0"
    using unat_of_nat_u32 [OF small(2)] by (auto simp: len(1) simp del: of_nat_Suc of_nat_mult)
  have core: "core_kern_setup sy base m = wafel_dynamic (prepared sy base (4 * Suc n) m) base (base + dynamic_start sy)"
    using clear_bss_memset [OF small(1), of m ?B]
    by (simp add: core_kern_setup_def relocate_start_def prepared_def len(1))
  have plugin: "plugin_kern_setup sy base m = wafel_dynamic (prepared sy base (4 * (n + 2)) m) base (base + dynamic_start sy)"
    using clear_bss_memset [OF small(2), of m ?B] nz
    by (simp add: plugin_kern_setup_def relocate_start_def prepared_def len(1))
  have rd: "read32 (prepared sy base (4 * Suc n) m) (bss (n + 1)) = read32 m (bss (n + 1))"
  proof -
    have "disjoint_regions (base_addr_slot sy base) 4 (bss (n + 1)) 4"
      using apart unfolding bss_def by (intro disjoint_sub [of _ 4 _ "4 * (n + 2)"]) (simp_all add: start_ok_def Let_def)
    then show ?thesis
      using memset_last_word [OF len(2), of m ?B] by (simp add: prepared_def read32_write32_other bss_def)
  qed
  have off: "\<forall>t \<in> set (targets m base (relptr i) (unat (relsz i))). disjoint_regions t 4 (bss (n + 1)) 4"
    "disjoint_regions (base_entry m base + 0x14) 4 (bss (n + 1)) 4"
    using apart unfolding bss_def start_ok_def i_def [symmetric] Let_def list_all_iff start_apart_def
    by (auto simp: disjoint_sym [of ?B] simp del: of_nat_mult of_nat_Suc of_nat_add intro!: disjoint_sub [of _ 4 ?B "4 * (n + 2)"])
  note start = relocate_prepared [OF fresh es ok refl, folded i_def]
  obtain mc where mc: "core_kern_setup sy base m = Some mc" "ready mc" "\<forall>j\<le>n. read32 mc (bss j) = 0"
    "read32 mc (bss (n + 1)) = read32 m (bss (n + 1))"
    using start [OF apart'] off rd unfolding core ready_def bss_def Let_def i_def [symmetric] by auto
  moreover obtain mp where "plugin_kern_setup sy base m = Some mp" "ready mp" "\<forall>j\<le>n + 1. read32 mp (bss j) = 0"
    using start [OF apart] unfolding plugin ready_def bss_def Let_def i_def [symmetric] by auto
  ultimately show ?thesis by blast
qed

definition demo_syms :: start_syms where
  "demo_syms = \<lparr>start_offs = 0x80, bss_start = 0x200, bss_end = 0x208, dynamic_start = 0xC0\<rparr>"

theorem start_up_links_witness:
  "(\<exists>m'. core_kern_setup demo_syms 0x27000000 demo_plugin = Some m' \<and> read32 m' 0x27000098 = 0x27000000) \<and>
   (\<exists>m'. plugin_kern_setup demo_syms 0x27000000 demo_plugin = Some m' \<and> read32 m' 0x27000204 = 0)"
proof -
  have "start_ok demo_syms 0x27000000 (4 * (0 + 2)) demo_plugin [(17, 64), (18, 8)]"
    unfolding start_ok_def Let_def demo_plugin_facts(1-4)
    by (simp add: start_apart_def base_addr_slot_def demo_syms_def disjoint_regions_def E_ENTRY_def)
  moreover have "dyn_entries demo_plugin (0x27000000 + dynamic_start demo_syms) = Some [(17, 64), (18, 8)]"
    using demo_plugin_entries by (simp add: demo_syms_def)
  ultimately show ?thesis
    using start_up_links [OF demo_plugin_facts(5) _ demo_plugin_facts(6), of demo_syms 0]
    by (auto simp: demo_syms_def base_addr_slot_def dest: spec [of _ 1])
qed

end
