(* ===== verification/Spec2Isabelle.thy ===== *)
theory Spec2Isabelle
  imports BoyerMoore Patch TrampolineRun Dynamic Prsh Rednand Cache Ipc Service Fsa Socket Latte Serial
    BootMap BootFacts BootScan Sha1Digest WupStart Storage Screen SdLock CoreHooks DebugExts PluginStart
begin

text \<open>
  Stroopwafel is a custom firmware loader for the Wii U.  The core (\<^verbatim>\<open>wafel_core\<close>) is loaded
  behind the RAM disk of the IOS image.  It runs once before the kernel and once before the MCP
  module: it extends the memory map of the image, links plugins, reads the configuration that
  the previous boot stage left in memory, patches and hooks code of every module, redirects the
  NAND partitions to the SD card, and starts a control interface.  Beside it the repository
  holds a plugin that serves a debugging protocol (\<^verbatim>\<open>wafel_plugin_wupserver\<close>) and the host tool
  that builds patch files (\<^verbatim>\<open>salt-patch-src\<close>).

  \<^bold>\<open>Conventions.\<close>  Integers keep their width (\<^verbatim>\<open>u32\<close> is \<open>32 word\<close>), signed readings are \<open>sint\<close>.
  Memory is a total map from 32-bit addresses to bytes, stored with the highest byte first, and
  pointers are addresses, so aliasing is that of the program.  A call that changes state returns
  the changed state; a result that may be missing (a loop that does not end, an access outside
  an array, a crash) is \<open>None\<close>.  Loops with a bound are total functions, the others are
  \<open>partial_function (option)\<close>; no loop has fuel, so the theorems that an operation returns say
  \<open>= Some\<close>.  What the code calls outside the repository (resource managers, the kernel, devices,
  the code of plugins, addresses the linker chooses) is an argument: a record of functions such
  as \<open>service_env\<close>, \<open>boot_env\<close>, \<open>hook_env\<close>, or a function from the history of accesses for a
  device.

  \<^bold>\<open>The theories, from the bottom up.\<close>

  \<^item> \<open>Machine\<close> (\<^verbatim>\<open>utils.h\<close>, \<^verbatim>\<open>utils_asm.S\<close>): words, memory, loads and stores, regions and their
    disjointness, copies.  Every other theory rests on its \<open>mem_simps\<close> and on the lemmas about
    \<open>disjoint_regions\<close>.  The locale \<open>reg_rmw\<close> is the contract of a read-modify-write register.
    \<open>CString\<close>: strings in memory and the C library functions on them.
  \<^item> \<open>BoyerMoore\<close> (\<^verbatim>\<open>bm.c\<close>): the pattern search with its two tables, every array access checked.  The
    search is total, memory safe and returns the first occurrence, whatever the uninitialised tables held.
  \<^item> \<open>IosElf\<close> (\<^verbatim>\<open>ios_dynamic.c\<close>): the program headers of the image at \<^verbatim>\<open>0x1D000000\<close>.  Inserting a
    header refines the insertion into the decoded list and leaves entry points alone.
    \<open>BootMap\<close> (\<^verbatim>\<open>main.c\<close>: \<^verbatim>\<open>add_mirror\<close>, \<^verbatim>\<open>init_phdrs\<close>): the seven headers the boot inserts, and the
    translation of the mirror addresses.
  \<^item> \<open>Patch\<close> (\<^verbatim>\<open>patch.h\<close>): the encodings of branches, with their decoders and round trips, and
    the stores of a patch.  \<open>Trampoline\<close> (\<^verbatim>\<open>trampoline.c\<close>): hooks as copies of a prototype; after a
    hook the patched instruction reaches the copy, and the copy holds the target and the old callee.
    \<open>TrampolineRun\<close> (\<^verbatim>\<open>trampoline_asm.S\<close>): the prototypes as programs over registers, memory and a
    stack; what an installed copy does when control reaches it.
  \<^item> \<open>Dynamic\<close> (\<^verbatim>\<open>dynamic.c\<close>): the plugin linker.  Relocation happens once, and a lookup goes
    through the plugins in the order in which they were registered.  \<open>PluginStart\<close> (\<^verbatim>\<open>crt0.S\<close>): the
    start-up code of the loader and of the plugins, which ends in that relocation.
  \<^item> \<open>Prsh\<close> (\<^verbatim>\<open>ios/prsh.c\<close>): the boot parameters; \<open>Rednand\<close> (\<^verbatim>\<open>rednand/*.c\<close>): the emulated SEEPROM,
    the partition wrappers, the companion file of hai, and which patches a configuration gives.
    \<open>SdRedirect\<close> (\<^verbatim>\<open>patch_asm.S\<close>): the hooks those patches jump to, from a request for SLC pages to the
    command for the SD card; \<open>SdLock\<close>: the threads that make such requests, as a step relation over
    their calls, and the mutual exclusion of the card.
  \<^item> \<open>Ipc\<close> (\<^verbatim>\<open>ipc.c\<close>): the control interface, one request at a time and as a server loop.
  \<^item> \<open>Service\<close>, \<open>Fsa\<close> (\<^verbatim>\<open>services/fsa.c\<close>), \<open>Socket\<close> (\<^verbatim>\<open>socket.c\<close>, \<^verbatim>\<open>services/net_ifmgr_ncl.c\<close>): the
    clients of the resource managers.  The locale \<open>scratch\<close> is the contract of a block that is
    allocated for one request; the theorems state what the service finds in memory when it is asked.
  \<^item> \<open>Latte\<close> (\<^verbatim>\<open>latte/gpio.c\<close>, \<^verbatim>\<open>utils.c\<close>), \<open>Serial\<close> (\<^verbatim>\<open>latte/serial.c\<close>), \<open>Cache\<close> (\<^verbatim>\<open>latte/cache.c\<close>): the
    drivers, as histories of register accesses.  A delay reads the timer; that it ends rests on
    \<open>timer_runs\<close>, which says what successive reads of the timer return.
  \<^item> \<open>Boot\<close> (\<^verbatim>\<open>main.c\<close>): both stages of the boot and the scans of the vWii images, over the
    components above; a patch is recorded with its address and its text.  \<open>BootFacts\<close> and
    \<open>BootScan\<close> hold the properties of the composition.  \<open>CoreHooks\<close> (\<^verbatim>\<open>patch_asm.S\<close>): the OTP stub, which
    agrees with the function in C, the crypto hooks, and those around the launch of a system.
  \<^item> \<open>SaltPatch\<close> (\<^verbatim>\<open>salt-patch-src/main.c\<close>, \<^verbatim>\<open>utils.c\<close>), \<open>Sha1\<close> and \<open>Sha1Digest\<close> (\<^verbatim>\<open>sha1.c\<close>): the
    patch builder.  Chunks have a meaning, \<open>apply_chunk\<close>, against which both encoders are
    proved; the digest is proved equal to the definition of the standard.
  \<^item> \<open>Wupserver\<close>, \<open>Storage\<close> (\<^verbatim>\<open>wupserver.c\<close>, \<^verbatim>\<open>ios/thread.c\<close>) and \<open>Screen\<close> (\<^verbatim>\<open>text.c\<close>): the server
    plugin.  Its commands run on the socket calls of \<open>Socket\<close>, its file copy on those of \<open>Fsa\<close>.
    \<open>WupStart\<close>: the thread that waits for the network and then listens.  \<open>DebugExts\<close>: the debug plugin.

  \<^bold>\<open>Interfaces.\<close>  \<open>pattern_search\<close> (a first match) is interpreted by the search,
  \<open>header_table\<close> by the header functions, \<open>branch_codec\<close> by both ARM branches, \<open>installer\<close> by the
  three ways of installing a trampoline, \<open>symbol_provider\<close> by the linker, \<open>config_store\<close> by the
  boot parameters, \<open>scratch\<close> by the blocks of the file system and of the socket client,
  \<open>reg_rmw\<close> by the accessors of 8, 16 and 32 bits, \<open>service_opener\<close> by the two functions that open
  a service once and keep its handle.

  \<^bold>\<open>Bounds.\<close>  The pattern search is proved when the text and twice the pattern have less than \<open>2 ^ 31\<close> bytes, the patch
  builder and the digest below 4 GiB, the widths in which the code counts.  The memory
  controller is polled a million times, the SD card is mounted at most 256 times; the other
  waits of the code have no bound and are \<open>None\<close> when what they wait for does not come.

  \<^bold>\<open>Not modelled.\<close>  The system call stubs, one instruction and a return each; of \<^verbatim>\<open>patch_asm.S\<close> the
  migration to a cache partition, the disk and USB hooks and the traces, which \<^verbatim>\<open>config.h\<close> switches
  off, and the code that is copied into the vWii.  The
  vendored INI parser, which nothing calls; the font, which is compiled out; tables of constants
  that no modelled code reads.  Messages (\<^verbatim>\<open>debug_printf\<close>, \<^verbatim>\<open>printf\<close>) and \<^verbatim>\<open>hexdump\<close>; the
  messages the server plugin draws while it waits.  The example plugin, which only prints.  The
  Python scripts.
\<close>

end
